(* ===== verification/Prelude.thy ===== *)
theory Prelude
  imports Complex_Main "HOL-Library.AList" "HOL-Library.Word" "HOL-Library.Multiset"
    "HOL-Library.List_Lexorder" "HOL-Library.Char_ord" "HOL-Library.Product_Lexorder"
begin

text \<open>
  The shared vocabulary of the development: the Rust standard-library types and operations the
  program is built from, with the lemmas every component uses.

  \<^item> \<open>u64\<close> and \<open>usize\<close> values are \<^typ>\<open>64 word\<close> where the code relies on saturation, checked
    addition or wrap-around, and \<^typ>\<open>nat\<close> where they only count (container lengths, internal ids).
  \<^item> A \<open>String\<close> is its UTF-8 byte sequence, a \<^typ>\<open>string\<close>; \<open>len()\<close> is \<^const>\<open>length\<close>. White space and
    lower-casing are the ASCII part of Rust's Unicode tables; bytes above 127 are left alone.
  \<^item> \<open>HashMap\<close> is an association list with distinct keys whose order is the iteration order of the
    moment; \<open>BTreeMap\<close> is an association list sorted by key; \<open>HashSet\<close> is a distinct list. One
    locale states the contract of both maps and is interpreted on both.
  \<^item> An \<open>f32\<close> that is stored is its bit pattern, a \<^typ>\<open>32 word\<close>; a float that is computed is a
    \<open>flt\<close>: NaN, an infinity or a finite real. Comparisons follow IEEE 754 (every comparison with
    NaN is false); the arithmetic of finite values is exact, so rounding is not modelled.
  \<^item> State machines share one notion of reachable state and one invariant rule.
\<close>

section \<open>Collections of lemmas\<close>

named_theorems map_laws \<open>what a lookup returns after an update of a map\<close>
named_theorems inv_simps \<open>well-formedness predicates, unfolded\<close>
named_theorems flt_simps \<open>evaluation of floating-point operations\<close>

section \<open>Machine integers\<close>

type_synonym u8 = "8 word"
type_synonym u32 = "32 word"
type_synonym u64 = "64 word"

definition saturating_add :: "u64 \<Rightarrow> u64 \<Rightarrow> u64" where
  "saturating_add a b = (if unat a + unat b < 2 ^ 64 then a + b else - 1)"

definition checked_add :: "u64 \<Rightarrow> u64 \<Rightarrow> u64 option" where
  "checked_add a b = (if unat a + unat b < 2 ^ 64 then Some (a + b) else None)"

lemma unat_saturating_add: "unat (saturating_add a b) = min (unat a + unat b) (2 ^ 64 - 1)"
proof (cases "unat a + unat b < 2 ^ 64")
  case True
  then have "unat (a + b) = unat a + unat b"
    by (simp add: unat_word_ariths)
  with True show ?thesis by (simp add: saturating_add_def)
next
  case False
  then show ?thesis
    by (simp add: saturating_add_def unsigned_minus_1_eq_mask mask_eq_exp_minus_1)
qed

lemma saturating_add_ge: "a \<le> saturating_add a b"
proof -
  have "unat a < 2 ^ 64" using unsigned_less [of a] by simp
  then show ?thesis
    unfolding word_le_nat_alt unat_saturating_add by simp
qed

lemma checked_add_Some_unat: "checked_add a b = Some c \<Longrightarrow> unat c = unat a + unat b"
  by (auto simp: checked_add_def unat_word_ariths split: if_splits)

lemma checked_add_one_less: "checked_add a 1 = Some c \<Longrightarrow> a < c"
  by (drule checked_add_Some_unat) (simp add: word_less_nat_alt)

section \<open>Strings\<close>

definition is_whitespace :: "char \<Rightarrow> bool" where
  "is_whitespace c \<longleftrightarrow> (let n = (of_char c :: nat) in n = 32 \<or> (9 \<le> n \<and> n \<le> 13))"

definition trim_start :: "string \<Rightarrow> string" where
  "trim_start s = dropWhile is_whitespace s"

definition trim :: "string \<Rightarrow> string" where
  "trim s = rev (trim_start (rev (trim_start s)))"

definition char_lower :: "char \<Rightarrow> char" where
  "char_lower c = (let n = (of_char c :: nat)
     in if 65 \<le> n \<and> n \<le> 90 then char_of (n + 32) else c)"

definition to_lowercase :: "string \<Rightarrow> string" where
  "to_lowercase s = map char_lower s"

function split_whitespace :: "string \<Rightarrow> string list" where
  "split_whitespace s =
     (let t = dropWhile is_whitespace s
      in if t = [] then []
         else takeWhile (\<lambda>c. \<not> is_whitespace c) t
              # split_whitespace (dropWhile (\<lambda>c. \<not> is_whitespace c) t))"
  by pat_completeness auto
termination
proof (relation "measure length", goal_cases)
  case 1
  show ?case by simp
next
  case (2 s t)
  have "length t \<le> length s"
    using 2(1) by (simp add: length_dropWhile_le)
  moreover have "\<not> is_whitespace (hd t)"
    using 2 hd_dropWhile [of is_whitespace s] by simp
  then have "length (dropWhile (\<lambda>c. \<not> is_whitespace c) t) < length t"
    using 2(2) by (cases t) (auto simp: less_Suc_eq_le length_dropWhile_le)
  ultimately show ?case by simp
qed

declare split_whitespace.simps [simp del]

fun join :: "string \<Rightarrow> string list \<Rightarrow> string" where
  "join sep [] = []"
| "join sep [s] = s"
| "join sep (s # t # ss) = s @ sep @ join sep (t # ss)"

fun is_prefix :: "'a list \<Rightarrow> 'a list \<Rightarrow> bool" where
  "is_prefix [] ys = True"
| "is_prefix (x # xs) [] = False"
| "is_prefix (x # xs) (y # ys) = (x = y \<and> is_prefix xs ys)"

definition strip_prefix :: "string \<Rightarrow> string \<Rightarrow> string option" where
  "strip_prefix p s = (if is_prefix p s then Some (drop (length p) s) else None)"

fun contains_str :: "string \<Rightarrow> string \<Rightarrow> bool" where
  "contains_str [] p = (p = [])"
| "contains_str (c # s) p = (is_prefix p (c # s) \<or> contains_str s p)"

fun show_nat :: "nat \<Rightarrow> string" where
  "show_nat n = (if n < 10 then [char_of (48 + n)]
                 else show_nat (n div 10) @ [char_of (48 + n mod 10)])"

declare show_nat.simps [simp del]

lemma is_prefix_iff: "is_prefix xs ys \<longleftrightarrow> (\<exists>zs. ys = xs @ zs)"
  by (induction xs ys rule: is_prefix.induct) auto

lemma strip_prefix_iff: "strip_prefix p s = Some t \<longleftrightarrow> s = p @ t"
  by (auto simp: strip_prefix_def is_prefix_iff)

lemma contains_str_iff: "contains_str s p \<longleftrightarrow> (\<exists>a b. s = a @ p @ b)"
proof (induction s)
  case Nil
  show ?case by simp
next
  case (Cons c s)
  have "(\<exists>a b. c # s = a @ p @ b) \<longleftrightarrow> is_prefix p (c # s) \<or> (\<exists>a b. s = a @ p @ b)"
    by (auto simp: is_prefix_iff Cons_eq_append_conv)
  with Cons show ?case by simp
qed

lemma trim_Nil_iff: "trim s = [] \<longleftrightarrow> (\<forall>c \<in> set s. is_whitespace c)"
proof -
  have hd: "dropWhile is_whitespace s \<noteq> [] \<Longrightarrow> \<not> is_whitespace (hd (dropWhile is_whitespace s))"
    by (rule hd_dropWhile)
  have "trim s = [] \<longleftrightarrow> (\<forall>c \<in> set (dropWhile is_whitespace s). is_whitespace c)"
    by (simp add: trim_def trim_start_def)
  also have "\<dots> \<longleftrightarrow> dropWhile is_whitespace s = []"
    using hd by (metis empty_iff empty_set list.set_sel(1))
  finally show ?thesis by simp
qed

lemma char_lower_not_space [simp]: "is_whitespace (char_lower c) \<longleftrightarrow> is_whitespace c"
proof (cases "65 \<le> (of_char c :: nat) \<and> (of_char c :: nat) \<le> 90")
  case True
  then have "(of_char (char_lower c) :: nat) = of_char c + 32"
    by (simp add: char_lower_def Let_def of_char_of)
  with True show ?thesis by (simp add: is_whitespace_def Let_def)
next
  case False
  then show ?thesis by (auto simp: char_lower_def Let_def)
qed

lemma char_lower_idem [simp]: "char_lower (char_lower c) = char_lower c"
proof (cases "65 \<le> (of_char c :: nat) \<and> (of_char c :: nat) \<le> 90")
  case True
  then have "(of_char (char_lower c) :: nat) = of_char c + 32"
    by (simp add: char_lower_def Let_def of_char_of)
  with True show ?thesis unfolding char_lower_def [of "char_lower c"] by (simp add: Let_def)
next
  case False
  then show ?thesis by (auto simp: char_lower_def Let_def)
qed

lemma to_lowercase_idem [simp]: "to_lowercase (to_lowercase s) = to_lowercase s"
  by (simp add: to_lowercase_def)

definition word_like :: "string \<Rightarrow> bool" where
  "word_like w \<longleftrightarrow> w \<noteq> [] \<and> (\<forall>c \<in> set w. \<not> is_whitespace c)"

lemma split_whitespace_word_like: "w \<in> set (split_whitespace s) \<Longrightarrow> word_like w"
proof (induction s rule: split_whitespace.induct)
  case (1 s)
  let ?t = "dropWhile is_whitespace s"
  show ?case
  proof (cases "?t = []")
    case True
    with 1(2) show ?thesis by (simp add: split_whitespace.simps [of s])
  next
    case False
    then have "\<not> is_whitespace (hd ?t)" by (rule hd_dropWhile)
    with False have "word_like (takeWhile (\<lambda>c. \<not> is_whitespace c) ?t)"
      unfolding word_like_def by (cases ?t) (auto dest: set_takeWhileD)
    moreover have "split_whitespace s = takeWhile (\<lambda>c. \<not> is_whitespace c) ?t
        # split_whitespace (dropWhile (\<lambda>c. \<not> is_whitespace c) ?t)"
      using False by (subst split_whitespace.simps) (simp only: Let_def if_False)
    ultimately show ?thesis
      using 1(1) [OF refl False] 1(2) by auto
  qed
qed

lemma split_whitespace_Nil_iff: "split_whitespace s = [] \<longleftrightarrow> (\<forall>c \<in> set s. is_whitespace c)"
  by (simp add: split_whitespace.simps [of s] Let_def)

lemma split_whitespace_word:
  assumes "word_like w"
  shows "split_whitespace w = [w]"
proof -
  have "dropWhile is_whitespace w = w"
    using assms by (cases w) (auto simp: word_like_def)
  moreover have "takeWhile (\<lambda>c. \<not> is_whitespace c) w = w"
    "dropWhile (\<lambda>c. \<not> is_whitespace c) w = []"
    using assms by (auto simp: word_like_def)
  moreover have "split_whitespace [] = []"
    by (simp add: split_whitespace.simps)
  ultimately show ?thesis
    using assms by (subst split_whitespace.simps) (simp only: Let_def word_like_def if_False)
qed

lemma split_whitespace_word_space:
  assumes "word_like w"
  shows "split_whitespace (w @ CHR 0x20 # s) = w # split_whitespace s"
proof -
  have sp: "is_whitespace (CHR 0x20)" by (simp add: is_whitespace_def)
  have "dropWhile is_whitespace (w @ CHR 0x20 # s) = w @ CHR 0x20 # s"
    using assms by (cases w) (auto simp: word_like_def)
  moreover have "takeWhile (\<lambda>c. \<not> is_whitespace c) (w @ CHR 0x20 # s) = w"
    "dropWhile (\<lambda>c. \<not> is_whitespace c) (w @ CHR 0x20 # s) = CHR 0x20 # s"
    using assms sp by (auto simp: word_like_def takeWhile_append2 dropWhile_append2)
  moreover have "split_whitespace (CHR 0x20 # s) = split_whitespace s"
    using sp by (simp add: split_whitespace.simps [of "CHR 0x20 # s"] split_whitespace.simps [of s])
  ultimately show ?thesis
    by (simp add: split_whitespace.simps [of "w @ CHR 0x20 # s"] Let_def)
qed

lemma split_whitespace_join:
  "(\<And>w. w \<in> set ws \<Longrightarrow> word_like w) \<Longrightarrow> split_whitespace (join '' '' ws) = ws"
proof (induction "'' ''" ws rule: join.induct)
  case 1
  show ?case by (simp add: split_whitespace.simps)
next
  case (2 s)
  then show ?case by (simp add: split_whitespace_word)
next
  case (3 s t ss)
  then show ?case by (simp add: split_whitespace_word_space)
qed

end
