(* ===== verification/Rust_Maps.thy ===== *)
theory Rust_Maps
  imports Prelude
begin

text \<open>
  The containers of the Rust standard library. A \<open>HashMap\<close> is an association list with distinct
  keys; its order is the iteration order, about which nothing is assumed. A \<open>BTreeMap\<close> is an
  association list in strictly ascending key order. A \<open>HashSet\<close> is a list without repetitions.
  The locale \<open>rust_map\<close> states what the program relies on of either map and proves the facts on
  inserting and removing whole lists of keys once for both.
\<close>

type_synonym ('k, 'v) hmap = "('k \<times> 'v) list"
type_synonym ('k, 'v) btmap = "('k \<times> 'v) list"
type_synonym 'a hset = "'a list"

abbreviation hm_get :: "('k, 'v) hmap \<Rightarrow> 'k \<Rightarrow> 'v option" where
  "hm_get m k \<equiv> map_of m k"

abbreviation hm_insert :: "'k \<Rightarrow> 'v \<Rightarrow> ('k, 'v) hmap \<Rightarrow> ('k, 'v) hmap" where
  "hm_insert k v m \<equiv> AList.update k v m"

abbreviation hm_remove :: "'k \<Rightarrow> ('k, 'v) hmap \<Rightarrow> ('k, 'v) hmap" where
  "hm_remove k m \<equiv> AList.delete k m"

abbreviation hm_wf :: "('k, 'v) hmap \<Rightarrow> bool" where
  "hm_wf m \<equiv> distinct (map fst m)"

abbreviation hs_insert :: "'a \<Rightarrow> 'a hset \<Rightarrow> 'a hset" where
  "hs_insert x s \<equiv> List.insert x s"

fun bt_insert :: "'k::linorder \<Rightarrow> 'v \<Rightarrow> ('k, 'v) btmap \<Rightarrow> ('k, 'v) btmap" where
  "bt_insert k v [] = [(k, v)]"
| "bt_insert k v ((k', v') # m) =
     (if k < k' then (k, v) # (k', v') # m
      else if k = k' then (k, v) # m
      else (k', v') # bt_insert k v m)"

abbreviation bt_remove :: "'k::linorder \<Rightarrow> ('k, 'v) btmap \<Rightarrow> ('k, 'v) btmap" where
  "bt_remove k m \<equiv> AList.delete k m"

definition bt_wf :: "('k::linorder, 'v) btmap \<Rightarrow> bool" where
  "bt_wf m \<longleftrightarrow> sorted_wrt (<) (map fst m)"

definition bt_range_from :: "'k::linorder \<Rightarrow> ('k, 'v) btmap \<Rightarrow> ('k \<times> 'v) list" where
  "bt_range_from k m = filter (\<lambda>p. k \<le> fst p) m"

definition bt_range_to :: "'k::linorder \<Rightarrow> ('k, 'v) btmap \<Rightarrow> ('k \<times> 'v) list" where
  "bt_range_to k m = filter (\<lambda>p. fst p < k) m"

section \<open>The contract of a map\<close>

locale rust_map =
  fixes get :: "'m \<Rightarrow> 'k \<Rightarrow> 'v option"
    and put :: "'k \<Rightarrow> 'v \<Rightarrow> 'm \<Rightarrow> 'm"
    and del :: "'k \<Rightarrow> 'm \<Rightarrow> 'm"
    and items :: "'m \<Rightarrow> ('k \<times> 'v) list"
    and wf :: "'m \<Rightarrow> bool"
  assumes get_put: "wf m \<Longrightarrow> get (put k v m) = (get m)(k \<mapsto> v)"
    and get_del: "wf m \<Longrightarrow> get (del k m) = (get m)(k := None)"
    and wf_put: "wf m \<Longrightarrow> wf (put k v m)"
    and wf_del: "wf m \<Longrightarrow> wf (del k m)"
    and items_iff: "wf m \<Longrightarrow> (k, v) \<in> set (items m) \<longleftrightarrow> get m k = Some v"
    and items_distinct: "wf m \<Longrightarrow> distinct (map fst (items m))"
begin

lemma wf_put_all: "wf m \<Longrightarrow> wf (fold (\<lambda>k. put k (f k)) ks m)"
  by (induction ks arbitrary: m) (auto intro: wf_put)

lemma get_put_all:
  "wf m \<Longrightarrow> get (fold (\<lambda>k. put k (f k)) ks m) k = (if k \<in> set ks then Some (f k) else get m k)"
  by (induction ks arbitrary: m) (auto simp: get_put wf_put)

lemma wf_del_all: "wf m \<Longrightarrow> wf (fold del ks m)"
  by (induction ks arbitrary: m) (auto intro: wf_del)

lemma get_del_all: "wf m \<Longrightarrow> get (fold del ks m) k = (if k \<in> set ks then None else get m k)"
  by (induction ks arbitrary: m) (auto simp: get_del wf_del)

lemma dom_items: "wf m \<Longrightarrow> dom (get m) = fst ` set (items m)"
  by (auto simp: items_iff [symmetric] dom_def image_iff) force

lemma length_items: "wf m \<Longrightarrow> length (items m) = card (dom (get m))"
  using items_distinct [of m] dom_items [of m] distinct_card [of "map fst (items m)"] by simp

end

lemma hm_wf_update [simp]: "hm_wf m \<Longrightarrow> hm_wf (AList.update k v m)"
  by (rule AList.distinct_update)

lemma hm_wf_delete [simp]: "hm_wf m \<Longrightarrow> hm_wf (AList.delete k m)"
  by (rule AList.distinct_delete)

declare AList.update_conv' [simp, map_laws] AList.delete_conv' [simp, map_laws]

interpretation hm: rust_map map_of AList.update AList.delete "\<lambda>m. m" "hm_wf"
  by unfold_locales auto

lemma map_of_bt_insert: "map_of (bt_insert k v m) = (map_of m)(k \<mapsto> v)"
  by (induction k v m rule: bt_insert.induct) (auto simp: fun_eq_iff)

lemma set_keys_bt_insert: "fst ` set (bt_insert k v m) = insert k (fst ` set m)"
  by (induction k v m rule: bt_insert.induct) auto

lemma bt_wf_insert: "bt_wf m \<Longrightarrow> bt_wf (bt_insert k v m)"
  unfolding bt_wf_def
proof (induction k v m rule: bt_insert.induct)
  case (1 k v)
  show ?case by simp
next
  case (2 k v k' v' m)
  show ?case
  proof (cases "k' < k")
    case True
    have "\<forall>x \<in> fst ` set (bt_insert k v m). k' < x"
      using 2 True by (auto simp: set_keys_bt_insert)
    with 2 True show ?thesis by auto
  next
    case False
    with 2 show ?thesis by (auto dest: order.strict_trans)
  qed
qed

lemma bt_wf_distinct: "bt_wf m \<Longrightarrow> hm_wf m"
  unfolding bt_wf_def by (simp add: strict_sorted_iff)

lemma bt_wf_remove: "bt_wf m \<Longrightarrow> bt_wf (AList.delete k m)"
  unfolding bt_wf_def AList.delete_keys removeAll_filter_not_eq by (rule sorted_wrt_filter)

interpretation bt: rust_map map_of bt_insert AList.delete "\<lambda>m. m" bt_wf
  by unfold_locales
    (auto simp: map_of_bt_insert bt_wf_insert bt_wf_remove dest: bt_wf_distinct)

declare map_of_bt_insert [simp, map_laws]

section \<open>Iterating and mutating every value\<close>

text \<open>
  \<open>for (k, v) in map.iter_mut()\<close> with a loop body that changes \<open>v\<close> in place is
  \<^const>\<open>AList.map_ran\<close>: keys and order stay, every value is replaced.
\<close>

lemma map_of_map_ran [simp, map_laws]: "map_of (AList.map_ran f m) k = map_option (f k) (map_of m k)"
  by (rule AList.map_ran_conv)

lemma map_ran_id [simp]: "(\<And>k v. (k, v) \<in> set m \<Longrightarrow> f k v = v) \<Longrightarrow> AList.map_ran f m = m"
  by (induction m) auto

lemma set_map_ran: "set (AList.map_ran f m) = (\<lambda>(k, v). (k, f k v)) ` set m"
  by (auto simp: AList.map_ran_def)

lemma map_of_filter_keys: "map_of (filter (\<lambda>p. P (fst p)) m) k = (if P k then map_of m k else None)"
  by (induction m) auto

lemma hm_wf_filter: "hm_wf m \<Longrightarrow> hm_wf (filter P m)"
  by (rule distinct_map_filter)

lemma hm_length_delete:
  "hm_wf m \<Longrightarrow> map_of m k = Some v \<Longrightarrow> Suc (length (AList.delete k m)) = length m"
proof (induction m)
  case Nil
  then show ?case by simp
next
  case (Cons p m)
  obtain k' v' where p: "p = (k', v')" by (cases p)
  show ?case
  proof (cases "k' = k")
    case True
    then have "k \<notin> fst ` set m" using Cons.prems(1) p by simp
    then show ?thesis using p True by simp
  next
    case False
    then show ?thesis using Cons p by simp
  qed
qed

lemma hm_length_update:
  "length (AList.update k v m) = (if map_of m k = None then Suc (length m) else length m)"
  by (induction m) auto

text \<open>Proofs about maps go through lookups; membership in the item list is turned into one.\<close>

lemma hm_in_iff: "hm_wf m \<Longrightarrow> (k, v) \<in> set m \<longleftrightarrow> map_of m k = Some v"
  by simp

declare map_of_eq_Some_iff [simp del] Some_eq_map_of_iff [simp del] map_of_is_SomeI [simp del]

end
