(* ===== verification/Namespaces.thy ===== *)
theory Namespaces
  imports Rust_Maps
begin

text \<open>
  Namespace keys and the normal form of query texts: the free functions at the top of
  \<open>src/index.rs\<close>. A namespace key is the model id, followed by the cache scope when it is not blank,
  followed by \<open>conv_\<close> and the conversation id when the request carries one, separated by \<open>::\<close>.
\<close>

definition normalize_query_text :: "string \<Rightarrow> string" where
  "normalize_query_text text = join '' '' (map to_lowercase (split_whitespace text))"

definition effective_namespace :: "string \<Rightarrow> string option \<Rightarrow> string" where
  "effective_namespace model_id cache_scope =
     (case cache_scope of
        Some scope \<Rightarrow> if trim scope \<noteq> [] then model_id @ ''::'' @ scope else model_id
      | None \<Rightarrow> model_id)"

definition base_namespace :: "string \<Rightarrow> string option \<Rightarrow> string" where
  "base_namespace model_id cache_scope = effective_namespace model_id cache_scope"

definition conversation_namespace :: "string \<Rightarrow> string option \<Rightarrow> string \<Rightarrow> string" where
  "conversation_namespace model_id cache_scope conversation_id =
     (let base = base_namespace model_id cache_scope
      in base @ ''::conv_'' @ conversation_id)"

section \<open>Normal forms of query texts\<close>

lemma word_like_lower: "word_like w \<Longrightarrow> word_like (to_lowercase w)"
  by (auto simp: word_like_def to_lowercase_def)

lemma split_normalize: "split_whitespace (normalize_query_text t) = map to_lowercase (split_whitespace t)"
  unfolding normalize_query_text_def
  by (rule split_whitespace_join) (auto intro: word_like_lower split_whitespace_word_like)

lemma normalize_idem: "normalize_query_text (normalize_query_text t) = normalize_query_text t"
proof -
  have "normalize_query_text (normalize_query_text t)
      = join '' '' (map to_lowercase (map to_lowercase (split_whitespace t)))"
    unfolding normalize_query_text_def [of "normalize_query_text t"] split_normalize ..
  also have "\<dots> = normalize_query_text t"
    by (simp add: normalize_query_text_def comp_def)
  finally show ?thesis .
qed

lemma normalize_Nil_iff: "normalize_query_text t = [] \<longleftrightarrow> trim t = []"
proof -
  have "normalize_query_text t = [] \<longleftrightarrow> split_whitespace t = []"
  proof
    assume "normalize_query_text t = []"
    then have "map to_lowercase (split_whitespace t) = split_whitespace []"
      using split_normalize [of t] by simp
    then show "split_whitespace t = []" by (simp add: split_whitespace.simps)
  qed (simp add: normalize_query_text_def)
  then show ?thesis by (simp add: split_whitespace_Nil_iff trim_Nil_iff)
qed

lemma split_ws_append_space:
  "split_whitespace (s @ CHR 0x20 # t) = split_whitespace s @ split_whitespace t"
proof (induction s rule: split_whitespace.induct)
  case (1 s)
  let ?sp = "CHR 0x20"
  have sp: "is_whitespace ?sp" by (simp add: is_whitespace_def)
  show ?case
  proof (cases "\<forall>c \<in> set s. is_whitespace c")
    case True
    then have "dropWhile is_whitespace (s @ ?sp # t) = dropWhile is_whitespace t"
      using sp by (simp add: dropWhile_append2)
    with True show ?thesis
      by (simp add: split_whitespace.simps [of "s @ ?sp # t"] split_whitespace.simps [of s]
          split_whitespace.simps [of t])
  next
    case False
    let ?d = "dropWhile is_whitespace s"
    have ne: "?d \<noteq> []" using False by simp
    have d: "dropWhile is_whitespace (s @ ?sp # t) = ?d @ ?sp # t"
      using False by (metis dropWhile_append1)
    let ?tl = "dropWhile (\<lambda>c. \<not> is_whitespace c) ?d"
    have tw: "takeWhile (\<lambda>c. \<not> is_whitespace c) (?d @ ?sp # t) = takeWhile (\<lambda>c. \<not> is_whitespace c) ?d"
      using sp by (simp add: takeWhile_tail)
    have dw: "dropWhile (\<lambda>c. \<not> is_whitespace c) (?d @ ?sp # t) = ?tl @ ?sp # t"
      using sp by (simp add: dropWhile_append)
    have "split_whitespace (s @ ?sp # t)
        = takeWhile (\<lambda>c. \<not> is_whitespace c) ?d # split_whitespace (?tl @ ?sp # t)"
      by (subst split_whitespace.simps) (simp only: Let_def d tw dw append_is_Nil_conv ne if_False list.simps simp_thms)
    also have "\<dots> = takeWhile (\<lambda>c. \<not> is_whitespace c) ?d # split_whitespace ?tl @ split_whitespace t"
      using 1 [OF refl ne] by simp
    also have "\<dots> = split_whitespace s @ split_whitespace t"
      by (subst (3) split_whitespace.simps) (simp only: Let_def ne if_False append_Cons)
    finally show ?thesis .
  qed
qed

section \<open>Keys determine tenant and conversation\<close>

definition nonblank :: "string option \<Rightarrow> string option" where
  "nonblank s = (case s of Some x \<Rightarrow> if trim x \<noteq> [] then Some x else None | None \<Rightarrow> None)"

text \<open>
  The namespace an insert goes to (\<open>local_insert_inner\<close>) and a query looks at first
  (\<open>process_query_locally\<close>): a blank conversation id counts as absent.
\<close>

definition request_namespace :: "string \<Rightarrow> string option \<Rightarrow> string option \<Rightarrow> string" where
  "request_namespace model_id cache_scope conversation_id =
     (case nonblank conversation_id of
        Some cid \<Rightarrow> conversation_namespace model_id cache_scope cid
      | None \<Rightarrow> effective_namespace model_id cache_scope)"

definition plain_scope :: "string option \<Rightarrow> bool" where
  "plain_scope s \<longleftrightarrow> (case nonblank s of Some x \<Rightarrow> \<not> contains_str x ''conv_'' | None \<Rightarrow> True)"

lemma effective_namespace_nonblank:
  "effective_namespace m s = (case nonblank s of Some x \<Rightarrow> m @ ''::'' @ x | None \<Rightarrow> m)"
  by (auto simp: effective_namespace_def nonblank_def split: option.splits)

text \<open>The suffix a key carries after the model id.\<close>

definition key_tail :: "string option \<Rightarrow> string option \<Rightarrow> string" where
  "key_tail s c = (case s of Some x \<Rightarrow> ''::'' @ x | None \<Rightarrow> []) @
     (case c of Some y \<Rightarrow> ''::conv_'' @ y | None \<Rightarrow> [])"

lemma request_namespace_tail:
  "request_namespace m s c = m @ key_tail (nonblank s) (nonblank c)"
  by (auto simp: request_namespace_def key_tail_def conversation_namespace_def base_namespace_def
      effective_namespace_nonblank Let_def split: option.splits)

lemma marker_split:
  assumes "a @ ''::conv_'' @ x = b @ ''::conv_'' @ y"
    and "\<not> contains_str a ''conv_''" and "\<not> contains_str b ''conv_''"
  shows "a = b \<and> x = y"
proof -
  have main: "us = []"
    if "us @ ''::conv_'' @ x = ''::conv_'' @ y" "\<not> contains_str (p @ us) ''conv_''" for us x y p
  proof (rule ccontr)
    assume "us \<noteq> []"
    then have "is_prefix ''::conv_'' us"
      using that(1) by (auto simp: append_eq_Cons_conv Cons_eq_append_conv)
    then obtain r where "p @ us = (p @ ''::'') @ ''conv_'' @ r"
      by (auto simp: is_prefix_iff)
    with that(2) show False unfolding contains_str_iff by metis
  qed
  from assms(1) consider us where "a = b @ us" "us @ ''::conv_'' @ x = ''::conv_'' @ y"
    | us where "b = a @ us" "us @ ''::conv_'' @ y = ''::conv_'' @ x"
    by (auto simp: append_eq_append_conv2)
  then show ?thesis
  proof cases
    case 1
    with main [of us x y b] assms(2) show ?thesis by simp
  next
    case 2
    with main [of us y x a] assms(3) show ?thesis by simp
  qed
qed

lemma key_tail_inj:
  assumes eq: "key_tail s c = key_tail s' c'"
    and s: "\<And>x. s = Some x \<Longrightarrow> \<not> contains_str x ''conv_''"
    and s': "\<And>x. s' = Some x \<Longrightarrow> \<not> contains_str x ''conv_''"
  shows "s = s' \<and> c = c'"
proof -
  define pre where "pre = (\<lambda>t. case t of Some x \<Rightarrow> ''::'' @ x | None \<Rightarrow> [])"
  have pre: "\<not> contains_str (pre s) ''conv_''" "\<not> contains_str (pre s') ''conv_''"
    using s s' by (auto simp: pre_def split: option.splits)
  have pre_inj: "pre s = pre s' \<Longrightarrow> s = s'"
    by (auto simp: pre_def split: option.splits)
  have clash: "\<not> contains_str p ''conv_'' \<Longrightarrow> p \<noteq> q @ ''::conv_'' @ y" for p q y
  proof
    assume "\<not> contains_str p ''conv_''" "p = q @ ''::conv_'' @ y"
    moreover from this(2) have "p = (q @ ''::'') @ ''conv_'' @ y" by simp
    ultimately show False unfolding contains_str_iff by blast
  qed
  show ?thesis
  proof (cases c)
    case None
    then have "c' = None"
      using eq pre(1) clash [of "pre s" "pre s'"] by (cases c') (auto simp: key_tail_def pre_def)
    with None eq pre_inj show ?thesis by (simp add: key_tail_def pre_def)
  next
    case (Some y)
    then obtain y' where y': "c' = Some y'"
      using eq pre(2) clash [of "pre s'" "pre s" y]
      by (cases c') (auto simp: key_tail_def pre_def)
    have "pre s @ ''::conv_'' @ y = pre s' @ ''::conv_'' @ y'"
      using eq Some y' by (simp add: key_tail_def pre_def)
    from marker_split [OF this pre] pre_inj Some y' show ?thesis by simp
  qed
qed

lemma key_tail_head: "key_tail s c = [] \<or> (\<exists>r. key_tail s c = CHR '':'' # r)"
  by (auto simp: key_tail_def split: option.splits)

lemma request_namespace_inj:
  assumes "request_namespace m s c = request_namespace m' s' c'"
    and "CHR '':'' \<notin> set m" and "CHR '':'' \<notin> set m'"
    and "plain_scope s" and "plain_scope s'"
  shows "m = m' \<and> nonblank s = nonblank s' \<and> nonblank c = nonblank c'"
proof -
  let ?t = "key_tail (nonblank s) (nonblank c)" and ?t' = "key_tail (nonblank s') (nonblank c')"
  have eq: "m @ ?t = m' @ ?t'"
    using assms(1) by (simp add: request_namespace_tail)
  have tw: "takeWhile (\<lambda>x. x \<noteq> CHR '':'') (n @ key_tail a b) = n"
    if "CHR '':'' \<notin> set n" for n a b
  proof -
    have "\<And>x. x \<in> set n \<Longrightarrow> x \<noteq> CHR '':''" using that by blast
    then show ?thesis
      using key_tail_head [of a b] by (auto simp: takeWhile_append2 simp del: takeWhile_eq_all_conv)
  qed
  from tw [OF assms(2)] tw [OF assms(3)] eq have "m = m'" by metis
  moreover from this eq have "?t = ?t'" by simp
  then have "nonblank s = nonblank s' \<and> nonblank c = nonblank c'"
    by (rule key_tail_inj) (use assms(4,5) in \<open>simp_all add: plain_scope_def\<close>)
  ultimately show ?thesis by simp
qed

end
