(* ===== verification/Rust_Float.thy ===== *)
theory Rust_Float
  imports Rust_Maps
begin

text \<open>
  Floating-point values. A stored \<open>f32\<close> is its bit pattern, which \<open>f32_value\<close> decodes exactly. A
  computed float is a \<open>flt\<close>; comparisons are those of IEEE 754, arithmetic on finite values is
  exact real arithmetic.
\<close>

unbundle bit_operations_syntax

type_synonym f32 = "32 word"

datatype flt = NaN | PInf | NInf | Fin real

fun flt_lt :: "flt \<Rightarrow> flt \<Rightarrow> bool" where
  "flt_lt (Fin a) (Fin b) = (a < b)"
| "flt_lt NInf (Fin b) = True"
| "flt_lt NInf PInf = True"
| "flt_lt (Fin a) PInf = True"
| "flt_lt x y = False"

fun flt_le :: "flt \<Rightarrow> flt \<Rightarrow> bool" where
  "flt_le NaN y = False"
| "flt_le x NaN = False"
| "flt_le x y = (x = y \<or> flt_lt x y)"

definition flt_eq :: "flt \<Rightarrow> flt \<Rightarrow> bool" where
  "flt_eq x y \<longleftrightarrow> x \<noteq> NaN \<and> x = y"

fun flt_neg :: "flt \<Rightarrow> flt" where
  "flt_neg NaN = NaN"
| "flt_neg PInf = NInf"
| "flt_neg NInf = PInf"
| "flt_neg (Fin a) = Fin (- a)"

fun flt_add :: "flt \<Rightarrow> flt \<Rightarrow> flt" where
  "flt_add (Fin a) (Fin b) = Fin (a + b)"
| "flt_add NaN y = NaN"
| "flt_add x NaN = NaN"
| "flt_add PInf NInf = NaN"
| "flt_add NInf PInf = NaN"
| "flt_add PInf y = PInf"
| "flt_add NInf y = NInf"
| "flt_add x PInf = PInf"
| "flt_add x NInf = NInf"

definition flt_sub :: "flt \<Rightarrow> flt \<Rightarrow> flt" where
  "flt_sub x y = flt_add x (flt_neg y)"

definition flt_sign :: "flt \<Rightarrow> real" where
  "flt_sign x = (case x of NaN \<Rightarrow> 0 | PInf \<Rightarrow> 1 | NInf \<Rightarrow> - 1 | Fin a \<Rightarrow> sgn a)"

definition flt_inf :: "real \<Rightarrow> flt" where
  "flt_inf s = (if s > 0 then PInf else if s < 0 then NInf else NaN)"

fun flt_mul :: "flt \<Rightarrow> flt \<Rightarrow> flt" where
  "flt_mul (Fin a) (Fin b) = Fin (a * b)"
| "flt_mul NaN y = NaN"
| "flt_mul x NaN = NaN"
| "flt_mul x y = flt_inf (flt_sign x * flt_sign y)"

text \<open>Division by a zero divisor: the sign of a zero is not kept, so \<open>x / 0\<close> has the sign of \<open>x\<close>.\<close>

fun flt_div :: "flt \<Rightarrow> flt \<Rightarrow> flt" where
  "flt_div NaN y = NaN"
| "flt_div x NaN = NaN"
| "flt_div (Fin a) (Fin b) = (if b = 0 then flt_inf (sgn a) else Fin (a / b))"
| "flt_div (Fin a) y = Fin 0"
| "flt_div x (Fin b) = flt_inf (flt_sign x * (if b < 0 then - 1 else 1))"
| "flt_div x y = NaN"

fun flt_sqrt :: "flt \<Rightarrow> flt" where
  "flt_sqrt NaN = NaN"
| "flt_sqrt PInf = PInf"
| "flt_sqrt NInf = NaN"
| "flt_sqrt (Fin a) = (if a < 0 then NaN else Fin (sqrt a))"

definition flt_sum :: "flt list \<Rightarrow> flt" where
  "flt_sum xs = foldl flt_add (Fin 0) xs"

lemmas [flt_simps] = flt_eq_def flt_sub_def flt_sum_def

lemma flt_le_Fin [simp]: "flt_le (Fin a) (Fin b) \<longleftrightarrow> a \<le> b"
  by auto

lemma flt_not_lt_iff: "x \<noteq> NaN \<Longrightarrow> y \<noteq> NaN \<Longrightarrow> \<not> flt_lt x y \<longleftrightarrow> flt_le y x"
  by (cases x; cases y) auto

lemma flt_lt_NaN [simp]: "\<not> flt_lt NaN y" "\<not> flt_lt x NaN"
  by (cases y; simp) (cases x; simp)

lemma flt_le_NaN [simp]: "\<not> flt_le NaN y" "\<not> flt_le x NaN"
  by simp (cases x; simp)

section \<open>Bit patterns\<close>

definition f32_value :: "f32 \<Rightarrow> flt" where
  "f32_value w =
     (let n = unat w; s = (if n div 2 ^ 31 = 1 then - 1 else 1 :: real);
          e = n div 2 ^ 23 mod 256; m = n mod 2 ^ 23
      in if e = 255 then (if m = 0 then flt_inf s else NaN)
         else if e = 0 then Fin (s * real m * 2 / 2 ^ 150)
         else Fin (s * real (2 ^ 23 + m) * 2 ^ e / 2 ^ 150))"

definition f32_one :: f32 where "f32_one = 0x3F800000"
definition f32_zero :: f32 where "f32_zero = 0"

lemma f32_value_one [simp]: "f32_value 0x3F800000 = Fin 1"
  by (simp add: f32_value_def Let_def)

lemma f32_value_zero [simp]: "f32_value 0 = Fin 0"
  by (simp add: f32_value_def Let_def)

lemma f32_value_two [simp]: "f32_value 0x40000000 = Fin 2"
  by (simp add: f32_value_def Let_def)

definition f32_to_be_bytes :: "f32 \<Rightarrow> u8 list" where
  "f32_to_be_bytes w =
     [ucast (drop_bit 24 w), ucast (drop_bit 16 w), ucast (drop_bit 8 w), ucast w]"

definition u64_from_be_bytes :: "u8 list \<Rightarrow> u64" where
  "u64_from_be_bytes bs = foldl (\<lambda>acc b. push_bit 8 acc OR ucast b) 0 bs"

definition u64_to_le_bytes :: "u64 \<Rightarrow> u8 list" where
  "u64_to_le_bytes w = map (\<lambda>i. ucast (drop_bit (8 * i) w)) [0..<8]"

definition u64_from_le_bytes :: "u8 list \<Rightarrow> u64" where
  "u64_from_le_bytes bs = foldr (\<lambda>b acc. push_bit 8 acc OR ucast b) bs 0"

lemma length_u64_to_le_bytes [simp]: "length (u64_to_le_bytes w) = 8"
  by (simp add: u64_to_le_bytes_def)

lemma le_byte_step:
  fixes x :: u64
  shows "push_bit 8 (take_bit (8 * k) (drop_bit 8 x)) OR ucast (ucast x :: u8)
    = take_bit (8 * Suc k) x"
proof (rule bit_word_eqI)
  fix n
  assume "n < LENGTH(64)"
  show "bit (push_bit 8 (take_bit (8 * k) (drop_bit 8 x)) OR ucast (ucast x :: u8)) n
      = bit (take_bit (8 * Suc k) x) n"
  proof (cases "n < 8")
    case True
    then show ?thesis by (simp add: bit_simps)
  next
    case False
    then show ?thesis using \<open>n < LENGTH(64)\<close> by (auto simp: bit_simps)
  qed
qed

lemma le_bytes_fold:
  "foldr (\<lambda>b acc. push_bit 8 acc OR ucast b) (map (\<lambda>i. ucast (drop_bit (8 * i) (w :: u64)) :: u8) [i..<i + k]) 0
    = take_bit (8 * k) (drop_bit (8 * i) w)"
proof (induction k arbitrary: i)
  case 0
  show ?case by simp
next
  case (Suc k)
  have up: "[i..<i + Suc k] = i # [Suc i..<Suc i + k]"
    by (simp add: upt_conv_Cons)
  have "drop_bit (8 * Suc i) w = drop_bit 8 (drop_bit (8 * i) w)"
    by (simp add: ac_simps)
  then show ?case
    unfolding up list.map foldr_Cons comp_def Suc by (simp only: le_byte_step)
qed

lemma u64_le_bytes_roundtrip: "u64_from_le_bytes (u64_to_le_bytes w) = w"
  using le_bytes_fold [of w 0 8]
  by (simp add: u64_from_le_bytes_def u64_to_le_bytes_def take_bit_word_eq_self)

end
