(* ===== verification/Config.thy ===== *)
theory Config
  imports Rust_Float
begin

text \<open>
  The configuration records of \<open>src/config.rs\<close> with their default values. Durations and counts are
  natural numbers; \<open>u64\<close> settings that enter 64-bit arithmetic are words.
\<close>

record hnsw_config =
  max_nb_connection :: nat
  max_elements :: nat
  max_layer :: nat
  ef_construction :: nat
  cfg_ef_search :: nat
  default_threshold :: flt
  max_entries_per_namespace :: "nat option"

record cluster_tls_config =
  tls_enabled :: bool
  ca_cert_path :: "string option"
  node_cert_path :: "string option"
  node_key_path :: "string option"
  tls_internal_port :: "16 word option"

record cluster_config =
  cluster_enabled :: bool
  gossip_addr :: string
  api_addr :: string
  seed_nodes :: "string list"
  virtual_nodes :: nat
  replication_factor :: nat
  cluster_tls :: cluster_tls_config
  max_replication_retries :: nat
  phi_threshold :: real
  phi_window_size :: nat
  phi_min_std_dev_ms :: real
  dead_node_removal_enabled :: bool
  read_repair_enabled :: bool

record ferrocache_config =
  port :: "16 word"
  node_id :: "string option"
  wal_path :: string
  hnsw_cfg :: hnsw_config
  cluster_cfg :: cluster_config
  compact_interval_inserts :: u64
  auth_token :: "string option"
  wal_batch_size :: nat
  wal_batch_timeout_ms :: nat
  expire_scan_interval_secs :: nat
  conversation_ttl_seconds :: "u64 option"

definition default_compact_interval_inserts :: u64 where
  "default_compact_interval_inserts = 10000"

definition default_wal_batch_size :: nat where
  "default_wal_batch_size = 256"

definition default_wal_batch_timeout_ms :: nat where
  "default_wal_batch_timeout_ms = 1"

definition default_expire_scan_interval_secs :: nat where
  "default_expire_scan_interval_secs = 60"

definition default_max_replication_retries :: nat where
  "default_max_replication_retries = 3"

definition DEFAULT_PHI_THRESHOLD :: real where "DEFAULT_PHI_THRESHOLD = 8"
definition DEFAULT_WINDOW_SIZE :: nat where "DEFAULT_WINDOW_SIZE = 100"
definition DEFAULT_MIN_STD_DEV_MS :: real where "DEFAULT_MIN_STD_DEV_MS = 100"

definition default_phi_threshold :: real where "default_phi_threshold = DEFAULT_PHI_THRESHOLD"
definition default_phi_window_size :: nat where "default_phi_window_size = DEFAULT_WINDOW_SIZE"
definition default_phi_min_std_dev_ms :: real where "default_phi_min_std_dev_ms = DEFAULT_MIN_STD_DEV_MS"
definition default_dead_node_removal_enabled :: bool where "default_dead_node_removal_enabled = True"
definition default_read_repair_enabled :: bool where "default_read_repair_enabled = True"

definition default_hnsw_config :: hnsw_config where
  "default_hnsw_config =
     \<lparr> max_nb_connection = 16, max_elements = 100000, max_layer = 16, ef_construction = 200,
       cfg_ef_search = 32, default_threshold = Fin (92 / 100), max_entries_per_namespace = None \<rparr>"

definition default_cluster_tls_config :: cluster_tls_config where
  "default_cluster_tls_config =
     \<lparr> tls_enabled = False, ca_cert_path = None, node_cert_path = None, node_key_path = None,
       tls_internal_port = None \<rparr>"

definition default_cluster_config :: cluster_config where
  "default_cluster_config =
     \<lparr> cluster_enabled = False, gossip_addr = ''0.0.0.0:4000'', api_addr = ''0.0.0.0:3000'',
       seed_nodes = [], virtual_nodes = 64, replication_factor = 2,
       cluster_tls = default_cluster_tls_config,
       max_replication_retries = default_max_replication_retries,
       phi_threshold = default_phi_threshold, phi_window_size = default_phi_window_size,
       phi_min_std_dev_ms = default_phi_min_std_dev_ms,
       dead_node_removal_enabled = default_dead_node_removal_enabled,
       read_repair_enabled = default_read_repair_enabled \<rparr>"

definition default_ferrocache_config :: ferrocache_config where
  "default_ferrocache_config =
     \<lparr> port = 3000, node_id = None, wal_path = ''./ferrocache.wal'',
       hnsw_cfg = default_hnsw_config, cluster_cfg = default_cluster_config,
       compact_interval_inserts = default_compact_interval_inserts, auth_token = None,
       wal_batch_size = default_wal_batch_size,
       wal_batch_timeout_ms = default_wal_batch_timeout_ms,
       expire_scan_interval_secs = default_expire_scan_interval_secs,
       conversation_ttl_seconds = None \<rparr>"

end
