(* ===== verification/Ns_Index.thy ===== *)
theory Ns_Index
  imports Rust_Maps Namespaces Config
begin

text \<open>
  One namespace of the cache: \<open>NamespacedIndex\<close> of \<open>src/index.rs\<close>. The side-table \<open>entries\<close> owns the
  cached entries by internal iid; \<open>uuid_to_internal\<close> and \<open>exact_match_index\<close> are reverse maps into
  it; \<open>evicted_ids\<close> are the ids whose nodes are still in the HNSW graph but no longer in the
  side-table.

  The HNSW graph is a third-party structure. The model keeps what the code puts into it, the list
  of points inserted so far, and takes its search as a parameter: \<open>search g q k ef\<close> is the list of
  (iid, distance) pairs the library returns for the graph \<open>g\<close>, query \<open>q\<close>, \<open>k\<close> wanted neighbours.
  The predicate \<open>hnsw_sound\<close> is what the code relies on of it.
\<close>

section \<open>Data\<close>

datatype index_error = DimensionMismatch nat nat | NeighbourNotInSideTable nat

record cache_entry =
  ce_uuid :: string
  ce_embedding :: "f32 list"
  ce_response :: string
  ce_query_text :: string
  ce_inserted_at :: u64
  ce_last_accessed_at :: u64
  ce_access_count :: u64
  ce_expires_at :: "u64 option"

record query_hit =
  qh_id :: string
  qh_response :: string
  qh_similarity :: flt
  qh_internal_id :: nat
  qh_exact_match :: bool

record evicted_entry =
  ee_uuid :: string
  ee_model_id :: string

type_synonym hnsw_graph = "(f32 list \<times> nat) list"
type_synonym hnsw_search = "hnsw_graph \<Rightarrow> f32 list \<Rightarrow> nat \<Rightarrow> nat \<Rightarrow> (nat \<times> flt) list"

record namespaced_index =
  hnsw :: hnsw_graph
  entries :: "(nat, cache_entry) hmap"
  uuid_to_internal :: "(string, nat) hmap"
  evicted_ids :: "nat hset"
  exact_match_index :: "(string, string) hmap"
  next_id :: nat
  dimension :: "nat option"
  ef_search :: nat
  evicted_fraction_rebuild :: real

definition DEFAULT_EVICTED_FRACTION_REBUILD :: real where
  "DEFAULT_EVICTED_FRACTION_REBUILD = 20 / 100"

definition MAX_EVICTION_OVERSCAN :: nat where
  "MAX_EVICTION_OVERSCAN = 8"

section \<open>Operations\<close>

definition ns_new :: "hnsw_config \<Rightarrow> namespaced_index" where
  "ns_new cfg =
     \<lparr> hnsw = [], entries = [], uuid_to_internal = [], evicted_ids = [], exact_match_index = [],
       next_id = 0, dimension = None, ef_search = cfg_ef_search cfg,
       evicted_fraction_rebuild = DEFAULT_EVICTED_FRACTION_REBUILD \<rparr>"

text \<open>
  \<open>insert_with_uuid\<close>: the dimension check, the check for a UUID that is already there, then the
  insertion into the graph, the two reverse maps and the side-table.
\<close>

definition ns_insert_fresh :: "cache_entry \<Rightarrow> namespaced_index \<Rightarrow> namespaced_index" where
  "ns_insert_fresh e ns =
     (let iid = next_id ns;
          normalized = normalize_query_text (ce_query_text e)
      in ns\<lparr> next_id := iid + 1,
             hnsw := hnsw ns @ [(ce_embedding e, iid)],
             uuid_to_internal := hm_insert (ce_uuid e) iid (uuid_to_internal ns),
             exact_match_index :=
               (if normalized \<noteq> [] then hm_insert normalized (ce_uuid e) (exact_match_index ns)
                else exact_match_index ns),
             entries := hm_insert iid e (entries ns) \<rparr>)"

definition insert_with_uuid ::
  "cache_entry \<Rightarrow> namespaced_index \<Rightarrow> (index_error + unit) \<times> namespaced_index" where
  "insert_with_uuid e ns =
     (let len = length (ce_embedding e);
          commit = (\<lambda>ns'. if hm_get (uuid_to_internal ns') (ce_uuid e) \<noteq> None then (Inr (), ns')
                          else (Inr (), ns_insert_fresh e ns'))
      in case dimension ns of
           None \<Rightarrow> commit (ns\<lparr> dimension := Some len \<rparr>)
         | Some d \<Rightarrow> if d \<noteq> len then (Inl (DimensionMismatch d len), ns) else commit ns)"

definition drop_entry :: "nat \<Rightarrow> namespaced_index \<Rightarrow> cache_entry option \<times> namespaced_index" where
  "drop_entry internal_id ns =
     (case hm_get (entries ns) internal_id of
        None \<Rightarrow> (None, ns)
      | Some entry \<Rightarrow>
          (let normalized = normalize_query_text (ce_query_text entry)
           in (Some entry,
               ns\<lparr> entries := hm_remove internal_id (entries ns),
                   uuid_to_internal := hm_remove (ce_uuid entry) (uuid_to_internal ns),
                   evicted_ids := hs_insert internal_id (evicted_ids ns),
                   exact_match_index :=
                     (if normalized \<noteq> [] \<and>
                         hm_get (exact_match_index ns) normalized = Some (ce_uuid entry)
                      then hm_remove normalized (exact_match_index ns)
                      else exact_match_index ns) \<rparr>)))"

definition get_by_uuid :: "namespaced_index \<Rightarrow> string \<Rightarrow> cache_entry option" where
  "get_by_uuid ns uuid =
     (case hm_get (uuid_to_internal ns) uuid of
        None \<Rightarrow> None
      | Some iid \<Rightarrow> hm_get (entries ns) iid)"

text \<open>\<open>is_some_and(|exp| now > exp)\<close>: the deadline has passed.\<close>

definition expired :: "u64 \<Rightarrow> cache_entry \<Rightarrow> bool" where
  "expired now e = (case ce_expires_at e of None \<Rightarrow> False | Some t \<Rightarrow> t < now)"

definition exact_lookup :: "string \<Rightarrow> u64 \<Rightarrow> namespaced_index \<Rightarrow> query_hit option" where
  "exact_lookup text now ns =
     (let normalized = normalize_query_text text
      in if normalized = [] then None
         else case hm_get (exact_match_index ns) normalized of
                None \<Rightarrow> None
              | Some uuid \<Rightarrow>
                  (case hm_get (uuid_to_internal ns) uuid of
                     None \<Rightarrow> None
                   | Some internal_id \<Rightarrow>
                       if internal_id \<in> set (evicted_ids ns) then None
                       else (case hm_get (entries ns) internal_id of
                              None \<Rightarrow> None
                            | Some entry \<Rightarrow>
                                if \<not> expired now entry
                                then Some \<lparr> qh_id = ce_uuid entry, qh_response = ce_response entry,
                                            qh_similarity = Fin 1, qh_internal_id = internal_id,
                                            qh_exact_match = True \<rparr>
                                else None)))"

text \<open>The loop over the neighbours the graph search returned.\<close>

fun scan_neighbours ::
  "namespaced_index \<Rightarrow> flt \<Rightarrow> u64 \<Rightarrow> (nat \<times> flt) list \<Rightarrow> index_error + query_hit option" where
  "scan_neighbours ns threshold now [] = Inr None"
| "scan_neighbours ns threshold now ((internal_id, distance) # rest) =
     (if internal_id \<in> set (evicted_ids ns) then scan_neighbours ns threshold now rest
      else let similarity = flt_sub (Fin 1) distance
           in if flt_lt similarity threshold then Inr None
              else case hm_get (entries ns) internal_id of
                     None \<Rightarrow> Inl (NeighbourNotInSideTable internal_id)
                   | Some entry \<Rightarrow>
                       if expired now entry then scan_neighbours ns threshold now rest
                       else Inr (Some \<lparr> qh_id = ce_uuid entry, qh_response = ce_response entry,
                                        qh_similarity = similarity, qh_internal_id = internal_id,
                                        qh_exact_match = False \<rparr>))"

definition ns_query_with_text ::
  "hnsw_search \<Rightarrow> f32 list \<Rightarrow> flt \<Rightarrow> string option \<Rightarrow> u64 \<Rightarrow> namespaced_index \<Rightarrow>
   index_error + query_hit option" where
  "ns_query_with_text search embedding threshold query_text now ns =
     (case (case query_text of None \<Rightarrow> None | Some text \<Rightarrow> exact_lookup text now ns) of
        Some hit \<Rightarrow> Inr (Some hit)
      | None \<Rightarrow>
          (case dimension ns of
             None \<Rightarrow> Inr None
           | Some d \<Rightarrow>
               if d \<noteq> length embedding then Inl (DimensionMismatch d (length embedding))
               else let want = 1 + min (length (evicted_ids ns)) MAX_EVICTION_OVERSCAN
                    in scan_neighbours ns threshold now
                         (search (hnsw ns) embedding want (ef_search ns))))"

definition ns_query ::
  "hnsw_search \<Rightarrow> f32 list \<Rightarrow> flt \<Rightarrow> u64 \<Rightarrow> namespaced_index \<Rightarrow> index_error + query_hit option" where
  "ns_query search embedding threshold now ns =
     ns_query_with_text search embedding threshold None now ns"

definition ns_entry_count :: "namespaced_index \<Rightarrow> nat" where
  "ns_entry_count ns = length (entries ns)"

definition touch :: "u64 \<Rightarrow> cache_entry \<Rightarrow> cache_entry" where
  "touch now e = e\<lparr> ce_last_accessed_at := now, ce_access_count := saturating_add (ce_access_count e) 1 \<rparr>"

definition ns_record_access :: "u64 \<Rightarrow> nat \<Rightarrow> namespaced_index \<Rightarrow> namespaced_index" where
  "ns_record_access now internal_id ns =
     (case hm_get (entries ns) internal_id of
        None \<Rightarrow> ns
      | Some entry \<Rightarrow> ns\<lparr> entries := hm_insert internal_id (touch now entry) (entries ns) \<rparr>)"

definition evicted_ghost_count :: "namespaced_index \<Rightarrow> nat" where
  "evicted_ghost_count ns = length (evicted_ids ns)"

definition cosine_similarity :: "f32 list \<Rightarrow> f32 list \<Rightarrow> flt" where
  "cosine_similarity a b =
     (if length a \<noteq> length b then Fin 0
      else let va = map f32_value a; vb = map f32_value b;
               dot = flt_sum (map2 flt_mul va vb);
               norm_a = flt_sqrt (flt_sum (map (\<lambda>x. flt_mul x x) va));
               norm_b = flt_sqrt (flt_sum (map (\<lambda>x. flt_mul x x) vb))
           in if flt_eq norm_a (Fin 0) \<or> flt_eq norm_b (Fin 0) then Fin 0
              else flt_div dot (flt_mul norm_a norm_b))"

definition ns_find_similar ::
  "f32 list \<Rightarrow> flt \<Rightarrow> u64 \<Rightarrow> namespaced_index \<Rightarrow> (nat \<times> string) list" where
  "ns_find_similar embedding threshold now ns =
     map (\<lambda>(iid, entry). (iid, ce_uuid entry))
       (filter (\<lambda>(iid, entry). iid \<notin> set (evicted_ids ns) \<and> \<not> expired now entry \<and>
                  flt_le threshold (cosine_similarity embedding (ce_embedding entry)))
         (entries ns))"

text \<open>\<open>drop_entry\<close> for a list of ids, collecting what was removed.\<close>

fun drop_ids :: "nat list \<Rightarrow> namespaced_index \<Rightarrow> (string \<times> nat) list \<times> namespaced_index" where
  "drop_ids [] ns = ([], ns)"
| "drop_ids (iid # ids) ns =
     (case drop_entry iid ns of
        (None, ns') \<Rightarrow> drop_ids ids ns'
      | (Some entry, ns') \<Rightarrow>
          (let (out, ns'') = drop_ids ids ns' in ((ce_uuid entry, iid) # out, ns'')))"

definition collect_expired_within ::
  "u64 \<Rightarrow> namespaced_index \<Rightarrow> (string \<times> nat) list \<times> namespaced_index" where
  "collect_expired_within now ns =
     drop_ids (map fst (filter (\<lambda>(_, e). expired now e) (entries ns))) ns"

text \<open>\<open>min_by_key(|(iid, e)| (e.last_accessed_at, e.inserted_at, iid))\<close>: the first minimal element.\<close>

definition lru_key :: "nat \<times> cache_entry \<Rightarrow> u64 \<times> u64 \<times> nat" where
  "lru_key p = (ce_last_accessed_at (snd p), ce_inserted_at (snd p), fst p)"

fun min_by_key :: "('a \<Rightarrow> 'k::linorder) \<Rightarrow> 'a list \<Rightarrow> 'a option" where
  "min_by_key f [] = None"
| "min_by_key f (x # xs) =
     (case min_by_key f xs of
        None \<Rightarrow> Some x
      | Some y \<Rightarrow> if f x \<le> f y then Some x else Some y)"

definition evict_lru ::
  "string \<Rightarrow> namespaced_index \<Rightarrow> evicted_entry option \<times> namespaced_index" where
  "evict_lru model_id ns =
     (case min_by_key lru_key (entries ns) of
        None \<Rightarrow> (None, ns)
      | Some (evict_id, _) \<Rightarrow>
          (case drop_entry evict_id ns of
             (None, ns') \<Rightarrow> (None, ns')
           | (Some entry, ns') \<Rightarrow> (Some \<lparr> ee_uuid = ce_uuid entry, ee_model_id = model_id \<rparr>, ns')))"

definition ns_remove_by_uuid :: "string \<Rightarrow> namespaced_index \<Rightarrow> bool \<times> namespaced_index" where
  "ns_remove_by_uuid uuid ns =
     (case hm_get (uuid_to_internal ns) uuid of
        None \<Rightarrow> (False, ns)
      | Some internal_id \<Rightarrow>
          (let (removed, ns') = drop_entry internal_id ns in (removed \<noteq> None, ns')))"

definition remove_internal :: "nat \<Rightarrow> namespaced_index \<Rightarrow> string option \<times> namespaced_index" where
  "remove_internal internal_id ns =
     (let (removed, ns') = drop_entry internal_id ns in (map_option ce_uuid removed, ns'))"

definition needs_rebuild :: "namespaced_index \<Rightarrow> bool" where
  "needs_rebuild ns =
     (let total = length (entries ns) + length (evicted_ids ns)
      in if total = 0 then False
         else real (length (evicted_ids ns)) / real total > evicted_fraction_rebuild ns)"

text \<open>
  \<open>rebuild\<close> drains the side-table in its iteration order and hands out the ids 0, 1, 2, \<open>\<dots>\<close>. The
  exact-match map is left alone: it points at UUIDs, which do not change.
\<close>

definition rebuild :: "namespaced_index \<Rightarrow> namespaced_index" where
  "rebuild ns =
     (let live = map snd (entries ns); ids = [0..<length live]
      in ns\<lparr> hnsw := zip (map ce_embedding live) ids,
             entries := zip ids live,
             uuid_to_internal := fold (\<lambda>(iid, e). hm_insert (ce_uuid e) iid) (zip ids live) [],
             next_id := length live,
             evicted_ids := [] \<rparr>)"

end
