(* ===== verification/Ns_Index_Correct.thy ===== *)
theory Ns_Index_Correct
  imports Ns_Index
begin

text \<open>
  The well-formedness invariant of a namespace and its preservation by every operation of
  \<open>NamespacedIndex\<close>; what each operation does to the entries a UUID resolves to; and the correctness
  of the query path.
\<close>

section \<open>The invariant\<close>

definition ns_maps_wf :: "namespaced_index \<Rightarrow> bool" where
  "ns_maps_wf ns \<longleftrightarrow> hm_wf (entries ns) \<and> hm_wf (uuid_to_internal ns) \<and>
     hm_wf (exact_match_index ns) \<and> distinct (evicted_ids ns)"

text \<open>The side-table and \<open>uuid_to_internal\<close> are inverse to each other.\<close>

definition ns_uuids_ok :: "namespaced_index \<Rightarrow> bool" where
  "ns_uuids_ok ns \<longleftrightarrow>
     (\<forall>(i, e) \<in> set (entries ns). hm_get (uuid_to_internal ns) (ce_uuid e) = Some i) \<and>
     (\<forall>(u, i) \<in> set (uuid_to_internal ns). map_option ce_uuid (hm_get (entries ns) i) = Some u)"

text \<open>
  The graph holds exactly the ids handed out so far; each is live or a ghost, never both; a live
  id carries the embedding of its entry.
\<close>

definition ns_graph_ok :: "namespaced_index \<Rightarrow> bool" where
  "ns_graph_ok ns \<longleftrightarrow>
     map snd (hnsw ns) = [0..<next_id ns] \<and>
     fst ` set (entries ns) \<union> set (evicted_ids ns) = {0..<next_id ns} \<and>
     fst ` set (entries ns) \<inter> set (evicted_ids ns) = {} \<and>
     (\<forall>(i, e) \<in> set (entries ns). hnsw ns ! i = (ce_embedding e, i))"

definition ns_dim_ok :: "namespaced_index \<Rightarrow> bool" where
  "ns_dim_ok ns \<longleftrightarrow> (\<forall>(i, e) \<in> set (entries ns). dimension ns = Some (length (ce_embedding e)))"

text \<open>The exact-match map has no dangling reference: every key is the normal form of a live entry.\<close>

definition ns_exact_ok :: "namespaced_index \<Rightarrow> bool" where
  "ns_exact_ok ns \<longleftrightarrow>
     (\<forall>(t, u) \<in> set (exact_match_index ns). t \<noteq> [] \<and>
        map_option (normalize_query_text \<circ> ce_query_text) (get_by_uuid ns u) = Some t)"

definition ns_inv :: "namespaced_index \<Rightarrow> bool" where
  "ns_inv ns \<longleftrightarrow> ns_maps_wf ns \<and> ns_uuids_ok ns \<and> ns_graph_ok ns \<and> ns_dim_ok ns \<and> ns_exact_ok ns"

lemmas ns_inv_defs = ns_inv_def ns_maps_wf_def ns_uuids_ok_def ns_graph_ok_def ns_dim_ok_def
  ns_exact_ok_def

lemma ns_invI:
  assumes "hm_wf (entries ns)" "hm_wf (uuid_to_internal ns)" "hm_wf (exact_match_index ns)"
    "distinct (evicted_ids ns)"
    and "\<And>i e. map_of (entries ns) i = Some e \<Longrightarrow> map_of (uuid_to_internal ns) (ce_uuid e) = Some i"
    and "\<And>u i. map_of (uuid_to_internal ns) u = Some i \<Longrightarrow>
      \<exists>e. map_of (entries ns) i = Some e \<and> ce_uuid e = u"
    and "map snd (hnsw ns) = [0..<next_id ns]"
    and "\<And>i. i < next_id ns \<longleftrightarrow> i \<in> dom (map_of (entries ns)) \<or> i \<in> set (evicted_ids ns)"
    and "\<And>i. i \<in> set (evicted_ids ns) \<Longrightarrow> map_of (entries ns) i = None"
    and "\<And>i e. map_of (entries ns) i = Some e \<Longrightarrow> hnsw ns ! i = (ce_embedding e, i)"
    and "\<And>i e. map_of (entries ns) i = Some e \<Longrightarrow> dimension ns = Some (length (ce_embedding e))"
    and "\<And>t u. map_of (exact_match_index ns) t = Some u \<Longrightarrow> t \<noteq> [] \<and>
      (\<exists>i e. map_of (uuid_to_internal ns) u = Some i \<and> map_of (entries ns) i = Some e \<and>
         normalize_query_text (ce_query_text e) = t)"
  shows "ns_inv ns"
proof -
  have dom: "fst ` set (entries ns) = dom (map_of (entries ns))"
    by (simp add: dom_map_of_conv_image_fst)
  have "ns_maps_wf ns" using assms(1-4) by (simp add: ns_maps_wf_def)
  moreover have "ns_uuids_ok ns"
  proof -
    have "map_option ce_uuid (map_of (entries ns) i) = Some u"
      if "(u, i) \<in> set (uuid_to_internal ns)" for u i
      using assms(6) [of u i] that assms(2) by (auto simp: hm_in_iff)
    moreover have "map_of (uuid_to_internal ns) (ce_uuid e) = Some i"
      if "(i, e) \<in> set (entries ns)" for i e
      using assms(5) that assms(1) by (simp add: hm_in_iff)
    ultimately show ?thesis by (auto simp: ns_uuids_ok_def)
  qed
  moreover have "ns_graph_ok ns"
    using assms(1,7-10) unfolding ns_graph_ok_def dom by (auto simp: hm_in_iff)
  moreover have "ns_dim_ok ns"
    using assms(1,11) by (auto simp: ns_dim_ok_def hm_in_iff)
  moreover have "ns_exact_ok ns"
    using assms(3,12) by (fastforce simp: ns_exact_ok_def get_by_uuid_def hm_in_iff)
  ultimately show ?thesis by (simp add: ns_inv_def)
qed

lemma ns_invD:
  assumes "ns_inv ns"
  shows ns_inv_wf: "hm_wf (entries ns)" "hm_wf (uuid_to_internal ns)" "hm_wf (exact_match_index ns)"
      "distinct (evicted_ids ns)"
    and ns_inv_entry_uuid:
      "map_of (entries ns) i = Some e \<Longrightarrow> map_of (uuid_to_internal ns) (ce_uuid e) = Some i"
    and ns_inv_uuid_entry:
      "map_of (uuid_to_internal ns) u = Some i \<Longrightarrow> \<exists>e. map_of (entries ns) i = Some e \<and> ce_uuid e = u"
    and ns_inv_graph: "map snd (hnsw ns) = [0..<next_id ns]"
    and ns_inv_ids: "i < next_id ns \<longleftrightarrow> i \<in> dom (map_of (entries ns)) \<or> i \<in> set (evicted_ids ns)"
    and ns_inv_ghost: "i \<in> set (evicted_ids ns) \<Longrightarrow> map_of (entries ns) i = None"
    and ns_inv_point: "map_of (entries ns) i = Some e \<Longrightarrow> hnsw ns ! i = (ce_embedding e, i)"
    and ns_inv_dim: "map_of (entries ns) i = Some e \<Longrightarrow> dimension ns = Some (length (ce_embedding e))"
    and ns_inv_exact: "map_of (exact_match_index ns) t = Some u \<Longrightarrow> t \<noteq> [] \<and>
      (\<exists>i e. map_of (uuid_to_internal ns) u = Some i \<and> map_of (entries ns) i = Some e \<and>
         normalize_query_text (ce_query_text e) = t)"
proof -
  have dom: "fst ` set (entries ns) = dom (map_of (entries ns))"
    by (simp add: dom_map_of_conv_image_fst)
  show "hm_wf (entries ns)" "hm_wf (uuid_to_internal ns)" "hm_wf (exact_match_index ns)"
    "distinct (evicted_ids ns)" "map snd (hnsw ns) = [0..<next_id ns]"
    using assms by (auto simp: ns_inv_defs)
  show "map_of (uuid_to_internal ns) (ce_uuid e) = Some i" if "map_of (entries ns) i = Some e" for i e
    using assms that by (auto simp: ns_inv_defs dest!: map_of_SomeD)
  show "\<exists>e. map_of (entries ns) i = Some e \<and> ce_uuid e = u" if "map_of (uuid_to_internal ns) u = Some i"
    using assms map_of_SomeD [OF that] by (auto simp: ns_inv_defs)
  show "i < next_id ns \<longleftrightarrow> i \<in> dom (map_of (entries ns)) \<or> i \<in> set (evicted_ids ns)"
    using assms by (auto simp: ns_inv_def ns_graph_ok_def dom)
  show "map_of (entries ns) i = None" if "i \<in> set (evicted_ids ns)"
    using assms that by (auto simp: ns_inv_def ns_graph_ok_def dom)
  show "hnsw ns ! i = (ce_embedding e, i)" "dimension ns = Some (length (ce_embedding e))"
    if "map_of (entries ns) i = Some e"
    using assms map_of_SomeD [OF that] by (auto simp: ns_inv_defs)
  show "t \<noteq> [] \<and> (\<exists>i e. map_of (uuid_to_internal ns) u = Some i \<and> map_of (entries ns) i = Some e \<and>
       normalize_query_text (ce_query_text e) = t)" if "map_of (exact_match_index ns) t = Some u"
    using assms map_of_SomeD [OF that]
    by (fastforce simp: ns_inv_def ns_exact_ok_def get_by_uuid_def split: option.splits)
qed

section \<open>Every operation keeps the invariant\<close>

lemma ns_inv_new: "ns_inv (ns_new cfg)"
  by (simp add: ns_inv_defs ns_new_def)

lemma ns_inv_empty_dim: "ns_inv ns \<Longrightarrow> dimension ns = None \<Longrightarrow> entries ns = []"
  by (cases "entries ns") (auto simp: ns_inv_def ns_dim_ok_def)

lemma ns_inv_set_dim:
  assumes "ns_inv ns" and "dimension ns = None"
  shows "ns_inv (ns\<lparr>dimension := Some d\<rparr>)"
proof -
  note D = ns_invD [OF assms(1)]
  have "entries ns = []" using assms by (rule ns_inv_empty_dim)
  then show ?thesis
    by (intro ns_invI) (use D in \<open>auto\<close>)
qed

lemma ns_inv_insert_fresh:
  assumes inv: "ns_inv ns" and fresh: "map_of (uuid_to_internal ns) (ce_uuid e) = None"
    and dim: "dimension ns = Some (length (ce_embedding e))"
  shows "ns_inv (ns_insert_fresh e ns)"
proof -
  note D = ns_invD [OF inv]
  have len: "length (hnsw ns) = next_id ns"
    using D(7) by (metis length_map length_upt diff_zero)
  have new: "map_of (entries ns) (next_id ns) = None" "next_id ns \<notin> set (evicted_ids ns)"
    using D(8) [of "next_id ns"] by auto
  have ne: "map_of (entries ns) i = Some e' \<Longrightarrow> ce_uuid e' \<noteq> ce_uuid e" for i e'
    using D(5) fresh by force
  show ?thesis
  proof (rule ns_invI, goal_cases)
    case (12 t u)
    let ?n = "normalize_query_text (ce_query_text e)"
    show ?case
    proof (cases "?n \<noteq> [] \<and> t = ?n")
      case True
      with 12 show ?thesis by (auto simp: ns_insert_fresh_def Let_def)
    next
      case False
      with 12 have "map_of (exact_match_index ns) t = Some u"
        by (auto simp: ns_insert_fresh_def Let_def split: if_splits)
      from D(12) [OF this] obtain i e' where "t \<noteq> []" "map_of (uuid_to_internal ns) u = Some i"
          "map_of (entries ns) i = Some e'" "normalize_query_text (ce_query_text e') = t"
        by blast
      with new fresh show ?thesis by (auto simp: ns_insert_fresh_def Let_def)
    qed
  next
    case (8 i)
    then show ?case
      using D(8) [of i] by (auto simp: ns_insert_fresh_def Let_def less_Suc_eq)
  next
    case (10 i e')
    then show ?case
      using D(10) [of i e'] D(8) [of i] len
      by (auto simp: ns_insert_fresh_def Let_def nth_append split: if_splits)
  next
    case (6 u i)
    then show ?case
      using D(6) [of u i] new by (fastforce simp: ns_insert_fresh_def Let_def split: if_splits)
  qed (use D new ne dim in \<open>auto simp: ns_insert_fresh_def Let_def split: if_splits\<close>)
qed

lemma ns_inv_insert_with_uuid:
  assumes "ns_inv ns"
  shows "ns_inv (snd (insert_with_uuid e ns))"
proof (cases "dimension ns")
  case None
  then show ?thesis
    using ns_inv_set_dim [OF assms None, of "length (ce_embedding e)"]
    by (auto simp: insert_with_uuid_def Let_def intro!: ns_inv_insert_fresh)
next
  case (Some d)
  then show ?thesis
    using assms by (auto simp: insert_with_uuid_def Let_def intro!: ns_inv_insert_fresh)
qed

lemma ns_inv_drop_entry:
  assumes inv: "ns_inv ns"
  shows "ns_inv (snd (drop_entry i ns))"
proof (cases "map_of (entries ns) i")
  case None
  then show ?thesis using inv by (simp add: drop_entry_def)
next
  case (Some e)
  note D = ns_invD [OF inv]
  have ui: "map_of (uuid_to_internal ns) (ce_uuid e) = Some i" using D(5) Some by blast
  have inj: "map_of (entries ns) j = Some e' \<Longrightarrow> j \<noteq> i \<Longrightarrow> ce_uuid e' \<noteq> ce_uuid e" for j e'
    using D(5) ui by force
  show ?thesis
  proof (rule ns_invI, goal_cases)
    case (12 t u)
    then obtain j e' where old: "t \<noteq> []" "map_of (exact_match_index ns) t = Some u"
        "map_of (uuid_to_internal ns) u = Some j" "map_of (entries ns) j = Some e'"
        "normalize_query_text (ce_query_text e') = t"
      using D(12) [of t u] Some by (auto simp: drop_entry_def Let_def split: if_splits)
    have "u \<noteq> ce_uuid e"
      using 12 old Some ui by (auto simp: drop_entry_def Let_def split: if_splits)
    then have "j \<noteq> i" using old(3,4) D(6) Some by fastforce
    with old \<open>u \<noteq> ce_uuid e\<close> Some show ?case by (auto simp: drop_entry_def Let_def)
  next
    case (6 u j)
    then show ?case
      using D(6) [of u j] Some ui by (auto simp: drop_entry_def Let_def split: if_splits)
  next
    case (8 j)
    then show ?case using D(8) [of j] Some by (auto simp: drop_entry_def Let_def)
  next
    case (11 j e')
    then show ?case using D(11) [of j e'] Some by (auto simp: drop_entry_def Let_def split: if_splits)
  qed (use D Some inj in \<open>auto simp: drop_entry_def Let_def split: if_splits\<close>)
qed

lemma ns_inv_drop_ids: "ns_inv ns \<Longrightarrow> ns_inv (snd (drop_ids ids ns))"
proof (induction ids arbitrary: ns)
  case Nil
  then show ?case by simp
next
  case (Cons i ids)
  have "ns_inv (snd (drop_ids ids (snd (drop_entry i ns))))"
    by (rule Cons.IH) (rule ns_inv_drop_entry [OF Cons.prems])
  then show ?case by (auto split: prod.splits option.splits)
qed

lemma ns_inv_collect_expired: "ns_inv ns \<Longrightarrow> ns_inv (snd (collect_expired_within now ns))"
  unfolding collect_expired_within_def by (rule ns_inv_drop_ids)

text \<open>Every removal goes through \<open>drop_entry\<close>.\<close>

lemma snd_evict_lru: "snd (evict_lru model_id ns) =
    (case min_by_key lru_key (entries ns) of None \<Rightarrow> ns | Some p \<Rightarrow> snd (drop_entry (fst p) ns))"
  by (auto simp: evict_lru_def split: option.splits prod.splits)

lemma snd_remove_by_uuid: "snd (ns_remove_by_uuid u ns) =
    (case map_of (uuid_to_internal ns) u of None \<Rightarrow> ns | Some i \<Rightarrow> snd (drop_entry i ns))"
  by (auto simp: ns_remove_by_uuid_def split: option.splits prod.splits)

lemma snd_remove_internal: "snd (remove_internal i ns) = snd (drop_entry i ns)"
  by (auto simp: remove_internal_def split: prod.splits)

lemmas snd_removals = snd_evict_lru snd_remove_by_uuid snd_remove_internal

lemma ns_inv_evict_lru: "ns_inv ns \<Longrightarrow> ns_inv (snd (evict_lru model_id ns))"
  by (auto simp: snd_removals ns_inv_drop_entry split: option.splits)

lemma ns_inv_remove_by_uuid: "ns_inv ns \<Longrightarrow> ns_inv (snd (ns_remove_by_uuid u ns))"
  by (auto simp: snd_removals ns_inv_drop_entry split: option.splits)

lemma ns_inv_remove_internal: "ns_inv ns \<Longrightarrow> ns_inv (snd (remove_internal i ns))"
  by (simp add: snd_removals ns_inv_drop_entry)

lemma touch_simps [simp]:
  "ce_uuid (touch now e) = ce_uuid e" "ce_embedding (touch now e) = ce_embedding e"
  "ce_response (touch now e) = ce_response e" "ce_query_text (touch now e) = ce_query_text e"
  "ce_inserted_at (touch now e) = ce_inserted_at e" "ce_expires_at (touch now e) = ce_expires_at e"
  by (simp_all add: touch_def)

lemma ns_inv_record_access:
  assumes "ns_inv ns"
  shows "ns_inv (ns_record_access now i ns)"
proof (cases "map_of (entries ns) i")
  case None
  then show ?thesis using assms by (simp add: ns_record_access_def)
next
  case (Some e)
  note D = ns_invD [OF assms]
  show ?thesis
  proof (rule ns_invI, goal_cases)
    case (12 t u)
    then show ?case
      using D(12) [of t u] Some by (fastforce simp: ns_record_access_def)
  next
    case (6 u j)
    then show ?case
      using D(6) [of u j] Some by (auto simp: ns_record_access_def)
  next
    case (11 j e')
    then show ?case
      using D(11) [OF Some] D(11) [of j e'] Some by (auto simp: ns_record_access_def split: if_splits)
  qed (use D Some in \<open>auto simp: ns_record_access_def split: if_splits\<close>)
qed

section \<open>What a UUID resolves to\<close>

text \<open>
  \<open>get_by_uuid\<close> is the abstract view of a namespace: a finite map from UUIDs to entries. Each
  operation is an update of that map.
\<close>

lemma get_by_uuid_iff:
  assumes "ns_inv ns"
  shows "get_by_uuid ns u = Some e \<longleftrightarrow>
    (\<exists>i. map_of (uuid_to_internal ns) u = Some i \<and> map_of (entries ns) i = Some e \<and> ce_uuid e = u)"
  using ns_inv_uuid_entry [OF assms, of u] by (auto simp: get_by_uuid_def split: option.splits)

lemma get_by_uuid_entry:
  "ns_inv ns \<Longrightarrow> map_of (entries ns) i = Some e \<Longrightarrow> get_by_uuid ns (ce_uuid e) = Some e"
  by (auto simp: get_by_uuid_iff intro: ns_inv_entry_uuid)

lemma get_by_uuid_None_iff:
  "ns_inv ns \<Longrightarrow> get_by_uuid ns u = None \<longleftrightarrow> map_of (uuid_to_internal ns) u = None"
  using ns_inv_uuid_entry [of ns u] by (auto simp: get_by_uuid_def split: option.splits)

lemma get_by_uuid_insert_fresh:
  assumes "ns_inv ns" and "get_by_uuid ns (ce_uuid e) = None"
  shows "get_by_uuid (ns_insert_fresh e ns) = (get_by_uuid ns)(ce_uuid e \<mapsto> e)"
proof
  fix u
  have new: "map_of (entries ns) (next_id ns) = None"
    using ns_inv_ids [OF assms(1), of "next_id ns"] by auto
  then show "get_by_uuid (ns_insert_fresh e ns) u = ((get_by_uuid ns)(ce_uuid e \<mapsto> e)) u"
    using ns_inv_uuid_entry [OF assms(1), of u]
    by (auto simp: get_by_uuid_def ns_insert_fresh_def Let_def split: option.splits)
qed

text \<open>The result of \<open>insert_with_uuid\<close> on every branch.\<close>

definition ns_accepts :: "namespaced_index \<Rightarrow> f32 list \<Rightarrow> bool" where
  "ns_accepts ns emb \<longleftrightarrow> (case dimension ns of None \<Rightarrow> True | Some d \<Rightarrow> d = length emb)"

lemma get_by_uuid_set_dim [simp]: "get_by_uuid (ns\<lparr>dimension := d\<rparr>) = get_by_uuid ns"
  by (simp add: get_by_uuid_def fun_eq_iff split: option.split)

lemma insert_with_uuid_view:
  assumes "ns_inv ns"
  shows "fst (insert_with_uuid e ns) =
      (if ns_accepts ns (ce_embedding e) then Inr ()
       else Inl (DimensionMismatch (the (dimension ns)) (length (ce_embedding e))))"
    and "get_by_uuid (snd (insert_with_uuid e ns)) =
      (if ns_accepts ns (ce_embedding e) \<and> get_by_uuid ns (ce_uuid e) = None
       then (get_by_uuid ns)(ce_uuid e \<mapsto> e) else get_by_uuid ns)"
    and "ns_accepts ns (ce_embedding e) \<Longrightarrow>
      dimension (snd (insert_with_uuid e ns)) = Some (length (ce_embedding e))"
    and "\<not> ns_accepts ns (ce_embedding e) \<Longrightarrow> snd (insert_with_uuid e ns) = ns"
proof -
  let ?n = "length (ce_embedding e)"
  note none = get_by_uuid_None_iff [OF assms, of "ce_uuid e"]
  have d: "dimension ns = None \<Longrightarrow> ns_inv (ns\<lparr>dimension := Some ?n\<rparr>)"
    using assms by (rule ns_inv_set_dim)
  have fresh: "get_by_uuid ns (ce_uuid e) = None \<Longrightarrow> dimension ns = None \<Longrightarrow>
      get_by_uuid (ns_insert_fresh e (ns\<lparr>dimension := Some ?n\<rparr>)) = (get_by_uuid ns)(ce_uuid e \<mapsto> e)"
    using get_by_uuid_insert_fresh [OF d, of e] by simp
  show "fst (insert_with_uuid e ns) =
      (if ns_accepts ns (ce_embedding e) then Inr ()
       else Inl (DimensionMismatch (the (dimension ns)) ?n))"
    by (auto simp: insert_with_uuid_def Let_def ns_accepts_def split: option.splits)
  show "get_by_uuid (snd (insert_with_uuid e ns)) =
      (if ns_accepts ns (ce_embedding e) \<and> get_by_uuid ns (ce_uuid e) = None
       then (get_by_uuid ns)(ce_uuid e \<mapsto> e) else get_by_uuid ns)"
    using none fresh get_by_uuid_insert_fresh [OF assms, of e]
    by (auto simp: insert_with_uuid_def Let_def ns_accepts_def split: option.splits)
  show "dimension (snd (insert_with_uuid e ns)) = Some ?n" if "ns_accepts ns (ce_embedding e)"
    using that by (auto simp: insert_with_uuid_def Let_def ns_accepts_def ns_insert_fresh_def
        split: option.splits)
  show "snd (insert_with_uuid e ns) = ns" if "\<not> ns_accepts ns (ce_embedding e)"
    using that by (auto simp: insert_with_uuid_def Let_def ns_accepts_def split: option.splits)
qed

lemma drop_entry_view:
  assumes "ns_inv ns"
  shows "fst (drop_entry i ns) = map_of (entries ns) i"
    and "get_by_uuid (snd (drop_entry i ns)) =
      (case map_of (entries ns) i of None \<Rightarrow> get_by_uuid ns
       | Some e \<Rightarrow> (get_by_uuid ns)(ce_uuid e := None))"
    and "map_of (entries (snd (drop_entry i ns))) = (map_of (entries ns))(i := None)"
    and "dimension (snd (drop_entry i ns)) = dimension ns"
proof -
  show "fst (drop_entry i ns) = map_of (entries ns) i"
    "dimension (snd (drop_entry i ns)) = dimension ns"
    "map_of (entries (snd (drop_entry i ns))) = (map_of (entries ns))(i := None)"
    by (auto simp: drop_entry_def Let_def fun_eq_iff split: option.splits)
  show "get_by_uuid (snd (drop_entry i ns)) =
      (case map_of (entries ns) i of None \<Rightarrow> get_by_uuid ns
       | Some e \<Rightarrow> (get_by_uuid ns)(ce_uuid e := None))"
  proof (cases "map_of (entries ns) i")
    case None
    then show ?thesis by (simp add: drop_entry_def)
  next
    case (Some e)
    have "map_of (uuid_to_internal ns) u = Some i \<Longrightarrow> u = ce_uuid e" for u
      using ns_inv_uuid_entry [OF assms, of u i] Some by auto
    with Some show ?thesis
      by (auto simp: drop_entry_def Let_def get_by_uuid_def fun_eq_iff split: option.splits)
  qed
qed

lemma drop_ids_Cons:
  assumes "ns_inv ns"
  shows "drop_ids (i # ids) ns =
    ((case map_of (entries ns) i of None \<Rightarrow> [] | Some e \<Rightarrow> [(ce_uuid e, i)])
       @ fst (drop_ids ids (snd (drop_entry i ns))), snd (drop_ids ids (snd (drop_entry i ns))))"
  using drop_entry_view(1) [OF assms, of i]
  by (cases "drop_entry i ns") (auto split: option.splits prod.splits)

lemma drop_ids_view:
  assumes "ns_inv ns" and "distinct ids"
  shows "fst (drop_ids ids ns) =
      concat (map (\<lambda>i. case map_of (entries ns) i of None \<Rightarrow> [] | Some e \<Rightarrow> [(ce_uuid e, i)]) ids) \<and>
    map_of (entries (snd (drop_ids ids ns))) = map_of (entries ns) |` (- set ids) \<and>
    dimension (snd (drop_ids ids ns)) = dimension ns"
  using assms
proof (induction ids arbitrary: ns)
  case Nil
  show ?case by simp
next
  case (Cons i ids)
  let ?ns' = "snd (drop_entry i ns)"
  have inv: "ns_inv ns" "ns_inv ?ns'" "distinct ids" "i \<notin> set ids"
    using Cons.prems ns_inv_drop_entry by auto
  note V = drop_entry_view [OF inv(1), of i]
  have "map (\<lambda>j. case map_of (entries ?ns') j of None \<Rightarrow> [] | Some e \<Rightarrow> [(ce_uuid e, j)]) ids =
      map (\<lambda>j. case map_of (entries ns) j of None \<Rightarrow> [] | Some e \<Rightarrow> [(ce_uuid e, j)]) ids"
    using inv(4) V(3) by auto
  moreover have "map_of (entries ?ns') |` (- set ids) = map_of (entries ns) |` (- set (i # ids))"
    unfolding V(3) by (auto simp: restrict_map_def fun_eq_iff)
  ultimately show ?case
    using Cons.IH [OF inv(2,3)] V(4)
    unfolding drop_ids_Cons [OF inv(1)] by (simp only: fst_conv snd_conv list.map concat.simps)
qed

lemma view_of_entries:
  assumes "ns_inv ns" "ns_inv ns'" and sub: "map_of (entries ns') = map_of (entries ns) |` A"
  shows "get_by_uuid ns' u = (case get_by_uuid ns u of None \<Rightarrow> None
    | Some e \<Rightarrow> if the (map_of (uuid_to_internal ns) u) \<in> A then Some e else None)"
proof (cases "get_by_uuid ns' u")
  case (Some e)
  then obtain i where "map_of (entries ns') i = Some e" "ce_uuid e = u"
    unfolding get_by_uuid_iff [OF assms(2)] by blast
  then have "map_of (entries ns) i = Some e" "i \<in> A"
    using sub by (auto simp: restrict_map_def split: if_splits)
  with \<open>ce_uuid e = u\<close> Some show ?thesis
    using get_by_uuid_entry [OF assms(1)] ns_inv_entry_uuid [OF assms(1)] by auto
next
  case None
  have "the (map_of (uuid_to_internal ns) u) \<notin> A" if got: "get_by_uuid ns u = Some e" for e
  proof
    assume A: "the (map_of (uuid_to_internal ns) u) \<in> A"
    obtain i where i: "map_of (uuid_to_internal ns) u = Some i" "map_of (entries ns) i = Some e" "ce_uuid e = u"
      using got unfolding get_by_uuid_iff [OF assms(1)] by blast
    then have "map_of (entries ns') i = Some e" using sub A by simp
    from get_by_uuid_entry [OF assms(2) this] i None show False by simp
  qed
  then show ?thesis using None by (cases "get_by_uuid ns u") simp_all
qed

text \<open>Dropping exactly the ids whose entry satisfies a predicate.\<close>

lemma drop_pred_view:
  assumes "ns_inv ns" and dist: "distinct ids"
    and mem: "\<And>i. i \<in> set ids \<longleftrightarrow> (\<exists>e. map_of (entries ns) i = Some e \<and> P e)"
  shows "get_by_uuid (snd (drop_ids ids ns)) u =
      (case get_by_uuid ns u of None \<Rightarrow> None | Some e \<Rightarrow> if P e then None else Some e)"
    and "set (fst (drop_ids ids ns)) = {(ce_uuid e, i) | i e. map_of (entries ns) i = Some e \<and> P e}"
    and "dimension (snd (drop_ids ids ns)) = dimension ns"
proof -
  let ?ns' = "snd (drop_ids ids ns)"
  note V = drop_ids_view [OF assms(1) dist]
  show "dimension ?ns' = dimension ns" using V by blast
  have inv': "ns_inv ?ns'" by (rule ns_inv_drop_ids [OF assms(1)])
  have "the (map_of (uuid_to_internal ns) u) \<in> - set ids \<longleftrightarrow> \<not> P e"
    if "get_by_uuid ns u = Some e" for e
    using that unfolding get_by_uuid_iff [OF assms(1)] Compl_iff mem by auto
  then show "get_by_uuid ?ns' u =
      (case get_by_uuid ns u of None \<Rightarrow> None | Some e \<Rightarrow> if P e then None else Some e)"
    using view_of_entries [OF assms(1) inv' V [THEN conjunct2, THEN conjunct1], of u]
    by (cases "get_by_uuid ns u") simp_all
  have "(u, i) \<in> set (fst (drop_ids ids ns)) \<longleftrightarrow>
      i \<in> set ids \<and> (\<exists>e. map_of (entries ns) i = Some e \<and> u = ce_uuid e)" for u i
    unfolding V [THEN conjunct1] set_concat set_map [of _ ids] by (force split: option.splits)
  then show "set (fst (drop_ids ids ns)) = {(ce_uuid e, i) | i e. map_of (entries ns) i = Some e \<and> P e}"
    unfolding mem by auto
qed

lemma collect_expired_view:
  assumes "ns_inv ns"
  shows "get_by_uuid (snd (collect_expired_within now ns)) u =
      (case get_by_uuid ns u of None \<Rightarrow> None | Some e \<Rightarrow> if expired now e then None else Some e)"
    and "set (fst (collect_expired_within now ns)) =
      {(ce_uuid e, i) | i e. map_of (entries ns) i = Some e \<and> expired now e}"
    and "dimension (snd (collect_expired_within now ns)) = dimension ns"
proof -
  let ?ids = "map fst (filter (\<lambda>(_, e). expired now e) (entries ns))"
  note wf = ns_inv_wf(1) [OF assms]
  have "i \<in> set ?ids \<longleftrightarrow> (\<exists>e. map_of (entries ns) i = Some e \<and> expired now e)" for i
    using wf by (force simp: hm_in_iff [OF wf, symmetric] image_iff)
  note V = drop_pred_view [OF assms hm_wf_filter [OF wf] this, folded collect_expired_within_def]
  from V show "get_by_uuid (snd (collect_expired_within now ns)) u =
      (case get_by_uuid ns u of None \<Rightarrow> None | Some e \<Rightarrow> if expired now e then None else Some e)"
    "set (fst (collect_expired_within now ns)) =
      {(ce_uuid e, i) | i e. map_of (entries ns) i = Some e \<and> expired now e}"
    "dimension (snd (collect_expired_within now ns)) = dimension ns" by blast+
qed

lemma remove_by_uuid_view:
  assumes "ns_inv ns"
  shows "fst (ns_remove_by_uuid u ns) \<longleftrightarrow> get_by_uuid ns u \<noteq> None"
    and "get_by_uuid (snd (ns_remove_by_uuid u ns)) = (get_by_uuid ns)(u := None)"
    and "dimension (snd (ns_remove_by_uuid u ns)) = dimension ns"
proof -
  note U = ns_inv_uuid_entry [OF assms, of u]
  show "fst (ns_remove_by_uuid u ns) \<longleftrightarrow> get_by_uuid ns u \<noteq> None"
    by (simp add: ns_remove_by_uuid_def get_by_uuid_def case_prod_unfold drop_entry_view(1) [OF assms]
        split: option.splits)
  show "get_by_uuid (snd (ns_remove_by_uuid u ns)) = (get_by_uuid ns)(u := None)"
  proof (cases "map_of (uuid_to_internal ns) u")
    case None
    then show ?thesis by (auto simp: snd_removals get_by_uuid_def)
  next
    case (Some i)
    with U obtain e where "map_of (entries ns) i = Some e" "ce_uuid e = u" by blast
    with Some drop_entry_view(2) [OF assms, of i] show ?thesis by (simp add: snd_removals)
  qed
  show "dimension (snd (ns_remove_by_uuid u ns)) = dimension ns"
    using drop_entry_view(4) [OF assms] by (auto simp: snd_removals split: option.splits)
qed

lemma record_access_view:
  assumes "ns_inv ns"
  shows "get_by_uuid (ns_record_access now i ns) u =
    (case get_by_uuid ns u of None \<Rightarrow> None
     | Some e \<Rightarrow> if map_of (uuid_to_internal ns) u = Some i then Some (touch now e) else Some e)"
  by (auto simp: ns_record_access_def get_by_uuid_def split: option.splits)

section \<open>LRU eviction\<close>

lemma min_by_key_None [simp]: "min_by_key f xs = None \<longleftrightarrow> xs = []"
  by (cases xs) (auto split: option.splits)

lemma min_by_key_Some: "min_by_key f xs = Some x \<Longrightarrow> x \<in> set xs \<and> (\<forall>y \<in> set xs. f x \<le> f y)"
proof (induction xs arbitrary: x)
  case Nil
  then show ?case by simp
next
  case (Cons a xs)
  show ?case
  proof (cases "min_by_key f xs")
    case None
    with Cons.prems show ?thesis by simp
  next
    case (Some y)
    with Cons.IH [OF Some] Cons.prems show ?thesis
      by (cases "f a \<le> f y") (auto dest: order_trans)
  qed
qed

lemma evict_lru_view:
  assumes inv: "ns_inv ns" and ne: "entries ns \<noteq> []"
  obtains i e where "map_of (entries ns) i = Some e"
    and "\<And>j e'. map_of (entries ns) j = Some e' \<Longrightarrow> lru_key (i, e) \<le> lru_key (j, e')"
    and "fst (evict_lru m ns) = Some \<lparr> ee_uuid = ce_uuid e, ee_model_id = m \<rparr>"
    and "get_by_uuid (snd (evict_lru m ns)) = (get_by_uuid ns)(ce_uuid e := None)"
    and "snd (evict_lru m ns) = snd (drop_entry i ns)"
proof -
  note wf = ns_inv_wf(1) [OF inv]
  from ne obtain p where p: "min_by_key lru_key (entries ns) = Some p"
    by (cases "min_by_key lru_key (entries ns)") auto
  obtain i e where ie: "p = (i, e)" by (cases p)
  from min_by_key_Some [OF p] have E: "map_of (entries ns) i = Some e"
    and le: "\<forall>q \<in> set (entries ns). lru_key (i, e) \<le> lru_key q"
    by (auto simp: ie hm_in_iff [OF wf])
  show ?thesis
  proof (rule that [OF E])
    show "lru_key (i, e) \<le> lru_key (j, e')" if "map_of (entries ns) j = Some e'" for j e'
      using le that by (auto simp: hm_in_iff [OF wf, symmetric])
    show "fst (evict_lru m ns) = Some \<lparr> ee_uuid = ce_uuid e, ee_model_id = m \<rparr>"
      using p drop_entry_view(1) [OF inv, of i] E
      by (auto simp: evict_lru_def ie split: option.splits prod.splits)
    show "snd (evict_lru m ns) = snd (drop_entry i ns)" by (simp add: snd_removals p ie)
    then show "get_by_uuid (snd (evict_lru m ns)) = (get_by_uuid ns)(ce_uuid e := None)"
      using drop_entry_view(2) [OF inv, of i] E by simp
  qed
qed

lemma length_drop_entry:
  "ns_inv ns \<Longrightarrow> map_of (entries ns) i = Some e \<Longrightarrow>
     Suc (length (entries (snd (drop_entry i ns)))) = length (entries ns)"
  using hm_length_delete [OF ns_inv_wf(1), of ns i e] by (simp add: drop_entry_def Let_def)

lemma evict_lru_count:
  assumes "ns_inv ns" and "entries ns \<noteq> []"
  shows "Suc (ns_entry_count (snd (evict_lru m ns))) = ns_entry_count ns"
proof -
  from assms obtain i e where "map_of (entries ns) i = Some e"
      "snd (evict_lru m ns) = snd (drop_entry i ns)"
    by (rule evict_lru_view)
  with length_drop_entry [OF assms(1)] show ?thesis by (simp add: ns_entry_count_def)
qed

section \<open>Rebuilding the graph\<close>

lemma distinct_entry_uuids:
  assumes "ns_inv ns"
  shows "distinct (map (ce_uuid \<circ> snd) (entries ns))"
proof -
  note wf = ns_inv_wf(1) [OF assms]
  have "map fst (entries ns) =
      map (\<lambda>u. the (map_of (uuid_to_internal ns) u)) (map (ce_uuid \<circ> snd) (entries ns))"
    using ns_inv_entry_uuid [OF assms] by (auto simp: hm_in_iff [OF wf])
  with wf show ?thesis by (metis distinct_map)
qed

lemma fold_update_other:
  "k \<notin> f ` set ps \<Longrightarrow> map_of (fold (\<lambda>p. AList.update (f p) (g p)) ps m) k = map_of m k"
  by (induction ps arbitrary: m) auto

lemma fold_update_get:
  "distinct (map f ps) \<Longrightarrow> p \<in> set ps \<Longrightarrow>
     map_of (fold (\<lambda>p. AList.update (f p) (g p)) ps m) (f p) = Some (g p)"
proof (induction ps arbitrary: m)
  case Nil
  then show ?case by simp
next
  case (Cons q ps)
  then show ?case by (cases "p = q") (auto simp: fold_update_other)
qed

lemma fold_update_wf: "hm_wf m \<Longrightarrow> hm_wf (fold (\<lambda>p. AList.update (f p) (g p)) ps m)"
  by (induction ps arbitrary: m) auto

lemma map_of_zip_upt: "map_of (zip [0..<length xs] xs) i = (if i < length xs then Some (xs ! i) else None)"
proof (cases "i < length xs")
  case True
  then have "(i, xs ! i) \<in> set (zip [0..<length xs] xs)"
    by (force simp: set_zip)
  then show ?thesis using True by (simp add: hm_in_iff)
next
  case False
  then show ?thesis by (auto simp: map_of_eq_None_iff dest: set_zip_leftD)
qed

lemma rebuild_uuids:
  assumes inv: "ns_inv ns"
  shows "map_of (uuid_to_internal (rebuild ns)) u = Some i \<longleftrightarrow>
    i < length (entries ns) \<and> ce_uuid (snd (entries ns ! i)) = u"
proof -
  let ?live = "map snd (entries ns)"
  let ?ps = "zip [0..<length ?live] ?live"
  have ps: "map snd ?ps = ?live" by simp
  have dist: "distinct (map (ce_uuid \<circ> snd) ?ps)"
    using distinct_entry_uuids [OF inv] by (metis list.map_comp ps)
  have eq: "uuid_to_internal (rebuild ns) = fold (\<lambda>p. AList.update ((ce_uuid \<circ> snd) p) (fst p)) ?ps []"
    by (simp add: rebuild_def Let_def case_prod_unfold)
  have mem: "(j, e) \<in> set ?ps \<longleftrightarrow> j < length (entries ns) \<and> e = snd (entries ns ! j)" for j e
    by (auto simp: set_zip intro!: exI [of _ j])
  show ?thesis
  proof (cases "u \<in> (ce_uuid \<circ> snd) ` set ?ps")
    case True
    then obtain j e where p: "(j, e) \<in> set ?ps" "ce_uuid e = u" by auto
    from fold_update_get [OF dist p(1), of fst "[]"] p(2)
    have get: "map_of (uuid_to_internal (rebuild ns)) u = Some j" by (simp add: eq)
    have "j = k" if "k < length (entries ns)" "ce_uuid (snd (entries ns ! k)) = u" for k
      using that mem [THEN iffD1, OF p(1)] p(2) distinct_entry_uuids [OF inv]
      by (auto simp: distinct_conv_nth)
    with get mem [THEN iffD1, OF p(1)] p(2) show ?thesis by auto
  next
    case False
    then have "map_of (uuid_to_internal (rebuild ns)) u = None"
      using fold_update_other [of u "ce_uuid \<circ> snd" ?ps fst "[]"] by (simp add: eq)
    moreover have "ce_uuid (snd (entries ns ! i)) \<noteq> u" if "i < length (entries ns)"
      using False mem [of i "snd (entries ns ! i)"] that by (auto simp: image_iff)
    ultimately show ?thesis by auto
  qed
qed

lemma rebuild_entries:
  "map_of (entries (rebuild ns)) i = (if i < length (entries ns) then Some (snd (entries ns ! i)) else None)"
  using map_of_zip_upt [of "map snd (entries ns)" i] by (simp add: rebuild_def Let_def)

lemma rebuild_view:
  assumes "ns_inv ns"
  shows "get_by_uuid (rebuild ns) = get_by_uuid ns"
proof
  fix u
  note wf = ns_inv_wf(1) [OF assms]
  show "get_by_uuid (rebuild ns) u = get_by_uuid ns u"
  proof (cases "map_of (uuid_to_internal (rebuild ns)) u")
    case (Some i)
    then have i: "i < length (entries ns)" "ce_uuid (snd (entries ns ! i)) = u"
      using rebuild_uuids [OF assms] by auto
    then have "map_of (entries ns) (fst (entries ns ! i)) = Some (snd (entries ns ! i))"
      by (simp add: hm_in_iff [OF wf, symmetric])
    from get_by_uuid_entry [OF assms this] i Some show ?thesis
      by (simp add: get_by_uuid_def [of "rebuild ns"] rebuild_entries)
  next
    case None
    have "get_by_uuid ns u = None"
    proof (rule ccontr)
      assume "get_by_uuid ns u \<noteq> None"
      then obtain j e where "map_of (entries ns) j = Some e" "ce_uuid e = u"
        using get_by_uuid_iff [OF assms, of u] by auto
      then obtain k where "k < length (entries ns)" "entries ns ! k = (j, e)"
        using wf by (auto simp: hm_in_iff [OF wf, symmetric] in_set_conv_nth)
      with \<open>ce_uuid e = u\<close> rebuild_uuids [OF assms, of u k] None show False by simp
    qed
    with None show ?thesis by (simp add: get_by_uuid_def)
  qed
qed

lemma rebuild_simps [simp]:
  "exact_match_index (rebuild ns) = exact_match_index ns" "dimension (rebuild ns) = dimension ns"
  "evicted_ids (rebuild ns) = []" "next_id (rebuild ns) = length (entries ns)"
  "length (entries (rebuild ns)) = length (entries ns)" "ef_search (rebuild ns) = ef_search ns"
  "evicted_fraction_rebuild (rebuild ns) = evicted_fraction_rebuild ns"
  by (simp_all add: rebuild_def Let_def)

lemma ns_inv_rebuild:
  assumes inv: "ns_inv ns"
  shows "ns_inv (rebuild ns)"
proof (rule ns_invI, goal_cases)
  case 1
  show ?case by (simp add: rebuild_def Let_def)
next
  case 2
  show ?case
    using fold_update_wf [of "[]" "ce_uuid \<circ> snd" fst] by (simp add: rebuild_def Let_def case_prod_unfold)
next
  case (5 i e)
  then show ?case using rebuild_uuids [OF inv] by (auto simp: rebuild_entries split: if_splits)
next
  case (6 u i)
  then show ?case using rebuild_uuids [OF inv] by (auto simp: rebuild_entries)
next
  case (10 i e)
  then have "i < length (entries ns)" "e = snd (entries ns ! i)"
    by (auto simp: rebuild_entries split: if_splits)
  then show ?case by (simp add: rebuild_def Let_def)
next
  case (11 i e)
  then have "i < length (entries ns)" "e = snd (entries ns ! i)"
    by (auto simp: rebuild_entries split: if_splits)
  then have "map_of (entries ns) (fst (entries ns ! i)) = Some e"
    by (simp add: hm_in_iff [OF ns_inv_wf(1) [OF inv], symmetric])
  then show ?case using ns_inv_dim [OF inv] by simp
next
  case (12 t u)
  then have "map_of (exact_match_index ns) t = Some u" by simp
  from ns_inv_exact [OF inv this] obtain i e where t: "t \<noteq> []" "map_of (uuid_to_internal ns) u = Some i"
      "map_of (entries ns) i = Some e" "normalize_query_text (ce_query_text e) = t" by blast
  then have "get_by_uuid (rebuild ns) u = Some e"
    by (simp add: rebuild_view [OF inv] get_by_uuid_def)
  with t show ?case by (auto simp: get_by_uuid_def split: option.splits)
qed (use ns_inv_wf [OF inv] in \<open>auto simp: rebuild_entries rebuild_def Let_def split: if_splits\<close>)

end
