(* ===== verification/Ns_Query.thy ===== *)
theory Ns_Query
  imports Ns_Index_Correct
begin

text \<open>
  Correctness of the query path of one namespace: what a hit is, that the internal consistency
  error cannot occur, that ghosts cannot hide every live candidate while there are at most eight
  of them, and that an entry is found by its text as soon as it is inserted.
\<close>

section \<open>What the code relies on of the graph search\<close>

text \<open>The search returns only ids of points that were inserted, at most as many as asked for.\<close>

definition hnsw_sound :: "hnsw_search \<Rightarrow> bool" where
  "hnsw_sound search \<longleftrightarrow>
     (\<forall>g q k ef. (\<forall>(i, d) \<in> set (search g q k ef). i \<in> snd ` set g) \<and> length (search g q k ef) \<le> k)"

text \<open>
  A concrete search that satisfies it: every point of the graph, by ascending distance, cut after
  \<open>k\<close>; the distance is one minus the cosine similarity.
\<close>

fun insert_by_dist :: "nat \<times> flt \<Rightarrow> (nat \<times> flt) list \<Rightarrow> (nat \<times> flt) list" where
  "insert_by_dist p [] = [p]"
| "insert_by_dist p (q # qs) =
     (if flt_lt (snd p) (snd q) then p # q # qs else q # insert_by_dist p qs)"

definition linear_search :: hnsw_search where
  "linear_search g q k ef =
     take k (foldl (\<lambda>acc (v, i). insert_by_dist (i, flt_sub (Fin 1) (cosine_similarity q v)) acc) [] g)"

lemma set_insert_by_dist: "set (insert_by_dist p qs) = insert p (set qs)"
  by (induction p qs rule: insert_by_dist.induct) auto

lemma set_linear_fold:
  "fst ` set (foldl (\<lambda>acc (v, i). insert_by_dist (i, f v) acc) acc0 g) = fst ` set acc0 \<union> snd ` set g"
proof (induction g arbitrary: acc0)
  case Nil
  show ?case by simp
next
  case (Cons p g)
  then show ?case by (cases p) (auto simp: set_insert_by_dist)
qed

lemma linear_search_sound: "hnsw_sound linear_search"
proof -
  have "i \<in> snd ` set g" if "(i, d) \<in> set (linear_search g q k ef)" for g q k ef i d
  proof -
    let ?l = "foldl (\<lambda>acc (v, i). insert_by_dist (i, flt_sub (Fin 1) (cosine_similarity q v)) acc) [] g"
    have "(i, d) \<in> set ?l" using that by (auto simp: linear_search_def dest: in_set_takeD)
    then have "i \<in> fst ` set ?l" by force
    then show ?thesis by (simp add: set_linear_fold)
  qed
  then show ?thesis by (auto simp: hnsw_sound_def linear_search_def)
qed

section \<open>Hits\<close>

lemma exact_lookup_Some:
  assumes "exact_lookup t now ns = Some h"
  obtains u e where "map_of (exact_match_index ns) (normalize_query_text t) = Some u"
    "map_of (uuid_to_internal ns) u = Some (qh_internal_id h)"
    "qh_internal_id h \<notin> set (evicted_ids ns)" "map_of (entries ns) (qh_internal_id h) = Some e"
    "\<not> expired now e" "qh_id h = ce_uuid e" "qh_response h = ce_response e"
    "qh_similarity h = Fin 1" "qh_exact_match h"
  using assms by (auto simp: exact_lookup_def Let_def split: if_splits option.splits)

lemma scan_neighbours_Some:
  assumes "scan_neighbours ns th now nb = Inr (Some h)"
  shows "\<exists>d e. (qh_internal_id h, d) \<in> set nb \<and> qh_internal_id h \<notin> set (evicted_ids ns) \<and>
    map_of (entries ns) (qh_internal_id h) = Some e \<and> \<not> expired now e \<and>
    qh_id h = ce_uuid e \<and> qh_response h = ce_response e \<and>
    qh_similarity h = flt_sub (Fin 1) d \<and> \<not> flt_lt (qh_similarity h) th \<and> \<not> qh_exact_match h"
  using assms
proof (induction ns th now nb rule: scan_neighbours.induct)
  case (1 ns th now)
  then show ?case by simp
next
  case (2 ns th now i d rest)
  show ?case
  proof (cases "i \<in> set (evicted_ids ns)")
    case True
    with 2 show ?thesis by auto
  next
    case False
    with 2 show ?thesis
      by (auto simp: Let_def split: if_splits option.splits) blast+
  qed
qed

lemma scan_neighbours_no_error:
  assumes "\<And>i d. (i, d) \<in> set nb \<Longrightarrow> i \<notin> set (evicted_ids ns) \<Longrightarrow> map_of (entries ns) i \<noteq> None"
  shows "\<exists>r. scan_neighbours ns th now nb = Inr r"
  using assms
proof (induction ns th now nb rule: scan_neighbours.induct)
  case (1 ns th now)
  show ?case by simp
next
  case (2 ns th now i d rest)
  have prems: "\<And>j d'. (j, d') \<in> set rest \<Longrightarrow> j \<notin> set (evicted_ids ns) \<Longrightarrow> map_of (entries ns) j \<noteq> None"
    and here: "i \<notin> set (evicted_ids ns) \<Longrightarrow> \<exists>e. map_of (entries ns) i = Some e"
    using "2.prems" by (meson list.set_intros, fastforce)
  show ?case
  proof (cases "i \<in> set (evicted_ids ns)")
    case True
    with "2.IH"(1) prems show ?thesis by auto
  next
    case False
    with here obtain e where "map_of (entries ns) i = Some e" by blast
    with "2.IH"(2) [OF False refl _ this] False prems show ?thesis
      by (cases "flt_lt (flt_sub (Fin 1) d) th"; cases "expired now e") (auto simp: Let_def)
  qed
qed

text \<open>
  A hit is always a live entry: it is in the side-table under the id returned, its UUID resolves to
  it, it has not expired, and it was reached either through a text with the same normal form or
  through the graph with a similarity that is not below the threshold.
\<close>

definition is_answer ::
  "namespaced_index \<Rightarrow> flt \<Rightarrow> string option \<Rightarrow> u64 \<Rightarrow> query_hit \<Rightarrow> cache_entry \<Rightarrow> bool" where
  "is_answer ns threshold query_text now h e \<longleftrightarrow>
     map_of (entries ns) (qh_internal_id h) = Some e \<and>
     get_by_uuid ns (qh_id h) = Some e \<and>
     qh_response h = ce_response e \<and> \<not> expired now e \<and>
     (if qh_exact_match h
      then qh_similarity h = Fin 1 \<and>
        (\<exists>t. query_text = Some t \<and> normalize_query_text t = normalize_query_text (ce_query_text e))
      else \<not> flt_lt (qh_similarity h) threshold)"

lemma ns_query_hit_answer:
  assumes inv: "ns_inv ns"
    and hit: "ns_query_with_text search emb th txt now ns = Inr (Some h)"
  shows "\<exists>e. is_answer ns th txt now h e"
proof (cases "case txt of None \<Rightarrow> None | Some t \<Rightarrow> exact_lookup t now ns")
  case (Some h')
  then obtain t where t: "txt = Some t" "exact_lookup t now ns = Some h'"
    by (auto split: option.splits)
  have h: "h' = h" using hit Some by (simp add: ns_query_with_text_def)
  from t(2) obtain u e where l: "map_of (exact_match_index ns) (normalize_query_text t) = Some u"
    "map_of (uuid_to_internal ns) u = Some (qh_internal_id h')"
    "map_of (entries ns) (qh_internal_id h') = Some e" "\<not> expired now e" "qh_id h' = ce_uuid e"
    "qh_response h' = ce_response e" "qh_similarity h' = Fin 1" "qh_exact_match h'"
    by (rule exact_lookup_Some)
  have "normalize_query_text (ce_query_text e) = normalize_query_text t"
    using ns_inv_exact [OF inv l(1)] l(2,3) by auto
  with l t h get_by_uuid_entry [OF inv l(3)] show ?thesis
    by (auto simp: is_answer_def)
next
  case None
  with hit obtain d where
    "scan_neighbours ns th now (search (hnsw ns) emb (1 + min (length (evicted_ids ns)) MAX_EVICTION_OVERSCAN)
      (ef_search ns)) = Inr (Some h)"
    by (auto simp: ns_query_with_text_def Let_def split: option.splits if_splits)
  from scan_neighbours_Some [OF this] get_by_uuid_entry [OF inv] show ?thesis
    by (auto simp: is_answer_def)
qed

lemma live_point:
  assumes inv: "ns_inv ns" and snd: "hnsw_sound search"
    and nb: "(j, d) \<in> set (search (hnsw ns) emb k ef)" and live: "j \<notin> set (evicted_ids ns)"
  shows "map_of (entries ns) j \<noteq> None"
proof -
  from snd have "\<forall>(i, d) \<in> set (search (hnsw ns) emb k ef). i \<in> snd ` set (hnsw ns)"
    by (simp add: hnsw_sound_def)
  with nb have "j \<in> set (map snd (hnsw ns))" by auto
  then have "j < next_id ns" by (simp only: ns_inv_graph [OF inv]) simp
  with live show ?thesis using ns_inv_ids [OF inv] by auto
qed

lemma scan_search_Inr:
  assumes "ns_inv ns" and "hnsw_sound search"
  shows "\<exists>r. scan_neighbours ns th now (search (hnsw ns) emb k ef) = Inr r"
  by (rule scan_neighbours_no_error) (rule live_point [OF assms])

lemma ns_query_error:
  assumes "ns_inv ns" and "hnsw_sound search"
    and "ns_query_with_text search emb th txt now ns = Inl err"
  shows "\<exists>d. dimension ns = Some d \<and> d \<noteq> length emb \<and> err = DimensionMismatch d (length emb)"
proof -
  have "scan_neighbours ns th now (search (hnsw ns) emb k ef) \<noteq> Inl err" for k ef
    using scan_search_Inr [OF assms(1,2), of th now emb k ef] by auto
  then show ?thesis using assms(3)
    by (auto simp: ns_query_with_text_def Let_def split: option.splits if_splits)
qed

lemma ns_query_total:
  assumes "ns_inv ns" and "hnsw_sound search" and "ns_accepts ns emb"
  shows "\<exists>r. ns_query_with_text search emb th txt now ns = Inr r"
proof (cases "ns_query_with_text search emb th txt now ns")
  case (Inl err)
  from ns_query_error [OF assms(1,2) this] assms(3) show ?thesis by (auto simp: ns_accepts_def)
qed simp

text \<open>The scan stops at a live, unexpired neighbour when all are similar enough.\<close>

lemma scan_neighbours_hit:
  assumes "\<exists>(i, d) \<in> set nb. i \<notin> set (evicted_ids ns)"
    and "\<And>i d. (i, d) \<in> set nb \<Longrightarrow> \<not> flt_lt (flt_sub (Fin 1) d) th"
    and "\<And>i d. (i, d) \<in> set nb \<Longrightarrow> i \<notin> set (evicted_ids ns) \<Longrightarrow>
      \<exists>e. map_of (entries ns) i = Some e \<and> \<not> expired now e"
  shows "\<exists>h. scan_neighbours ns th now nb = Inr (Some h)"
  using assms
proof (induction nb)
  case (Cons p nb)
  obtain i d where p: "p = (i, d)" by fastforce
  show ?case
  proof (cases "i \<in> set (evicted_ids ns)")
    case True
    have "\<exists>h. scan_neighbours ns th now nb = Inr (Some h)"
    proof (rule Cons.IH)
      show "\<exists>(i, d) \<in> set nb. i \<notin> set (evicted_ids ns)" using Cons.prems(1) True p by auto
      show "\<not> flt_lt (flt_sub (Fin 1) d) th" if "(i, d) \<in> set nb" for i d
        using Cons.prems(2) [of i d] that by simp
      show "\<exists>e. map_of (entries ns) i = Some e \<and> \<not> expired now e"
        if "(i, d) \<in> set nb" "i \<notin> set (evicted_ids ns)" for i d
        using Cons.prems(3) [of i d] that by simp
    qed
    with True p show ?thesis by simp
  next
    case False
    then obtain e where "map_of (entries ns) i = Some e" "\<not> expired now e"
      using Cons.prems(3) [of i d] p by auto
    moreover have "\<not> flt_lt (flt_sub (Fin 1) d) th" using Cons.prems(2) [of i d] p by simp
    ultimately show ?thesis using False p by simp
  qed
qed simp

lemma ns_insert_exact_hit:
  assumes inv: "ns_inv ns" and acc: "ns_accepts ns (ce_embedding e)"
    and fresh: "get_by_uuid ns (ce_uuid e) = None"
    and tx: "normalize_query_text t = normalize_query_text (ce_query_text e)" "trim t \<noteq> []"
    and live: "\<not> expired now e"
  shows "ns_query_with_text search emb th (Some t) now (snd (insert_with_uuid e ns)) =
    Inr (Some \<lparr> qh_id = ce_uuid e, qh_response = ce_response e, qh_similarity = Fin 1,
                qh_internal_id = next_id ns, qh_exact_match = True \<rparr>)"
proof -
  have n: "normalize_query_text (ce_query_text e) \<noteq> []"
    using tx normalize_Nil_iff [of t] by simp
  have set_same: "dimension ns = Some d \<Longrightarrow> ns\<lparr>dimension := Some d\<rparr> = ns" for d
    by (cases ns) simp
  have "next_id ns \<notin> set (evicted_ids ns)"
    using ns_inv_ids [OF inv, of "next_id ns"] by auto
  moreover have "map_of (uuid_to_internal ns) (ce_uuid e) = None"
    using fresh get_by_uuid_None_iff [OF inv] by simp
  then have "snd (insert_with_uuid e ns) =
      ns_insert_fresh e (ns\<lparr>dimension := Some (length (ce_embedding e))\<rparr>)"
    using acc by (cases "dimension ns")
      (simp_all add: insert_with_uuid_def Let_def ns_accepts_def set_same)
  ultimately show ?thesis
    using n live tx(1)
    by (auto simp: ns_query_with_text_def exact_lookup_def ns_insert_fresh_def Let_def)
qed

section \<open>Ghosts do not hide the live candidates\<close>

lemma overscan_enough:
  assumes "length (evicted_ids ns) \<le> MAX_EVICTION_OVERSCAN"
    and "distinct (map fst nb)"
    and "length nb = 1 + min (length (evicted_ids ns)) MAX_EVICTION_OVERSCAN"
  shows "\<exists>(i, d) \<in> set nb. i \<notin> set (evicted_ids ns)"
proof (rule ccontr)
  assume "\<not> ?thesis"
  then have "set (map fst nb) \<subseteq> set (evicted_ids ns)" by auto
  then have "card (set (map fst nb)) \<le> card (set (evicted_ids ns))" by (intro card_mono) auto
  also have "\<dots> \<le> length (evicted_ids ns)" by (rule card_length)
  finally show False using assms distinct_card [OF assms(2)] by simp
qed

end
