(* ===== verification/Log_Entry.thy ===== *)
theory Log_Entry
  imports Rust_Float
begin

text \<open>
  The persisted forms of a cached entry: \<open>WalEntry\<close> of \<open>src/wal.rs\<close>, one line of the write-ahead log,
  and \<open>SnapshotEntry\<close> of \<open>src/snapshot.rs\<close>.
\<close>

record wal_entry =
  we_uuid :: string
  we_embedding :: "f32 list"
  we_response :: string
  we_query_text :: string
  we_model_id :: string
  we_sequence :: u64
  we_inserted_at :: u64
  we_tombstone :: bool
  we_expires_at :: "u64 option"

record snapshot_entry =
  se_uuid :: string
  se_embedding :: "f32 list"
  se_response :: string
  se_query_text :: string
  se_model_id :: string
  se_inserted_at :: u64
  se_last_accessed_at :: u64
  se_access_count :: u64
  se_tombstone :: bool
  se_expires_at :: "u64 option"

definition LEGACY_NAMESPACE :: string where
  "LEGACY_NAMESPACE = ''legacy::unknown''"

definition tombstone_entry :: "string \<Rightarrow> string \<Rightarrow> wal_entry" where
  "tombstone_entry uuid model_id =
     \<lparr> we_uuid = uuid, we_embedding = [], we_response = [], we_query_text = [],
       we_model_id = model_id, we_sequence = 0, we_inserted_at = 0, we_tombstone = True,
       we_expires_at = None \<rparr>"

end
