(* ===== verification/Semantic_Index.thy ===== *)
theory Semantic_Index
  imports Ns_Query Log_Entry
begin

text \<open>
  \<open>SemanticIndex\<close> of \<open>src/index.rs\<close>: one \<open>NamespacedIndex\<close> per namespace key and the reverse map from
  UUIDs to the namespace that owns them.
\<close>

record full_entry =
  fe_uuid :: string
  fe_embedding :: "f32 list"
  fe_response :: string
  fe_query_text :: string
  fe_model_id :: string
  fe_inserted_at :: u64
  fe_last_accessed_at :: u64
  fe_access_count :: u64
  fe_expires_at :: "u64 option"

record namespace_stats =
  st_entry_count :: nat
  st_dimension :: "nat option"
  st_oldest_entry_ts :: u64
  st_newest_entry_ts :: u64
  st_total_accesses :: u64
  st_evicted_ghost_count :: nat

record top_entry_summary =
  te_uuid :: string
  te_access_count :: u64
  te_last_accessed_at :: u64
  te_query_text_preview :: string

record semantic_index =
  namespaces :: "(string, namespaced_index) hmap"
  uuid_to_namespace :: "(string, string) hmap"
  si_hnsw_config :: hnsw_config

definition si_new :: "hnsw_config \<Rightarrow> semantic_index" where
  "si_new cfg = \<lparr> namespaces = [], uuid_to_namespace = [], si_hnsw_config = cfg \<rparr>"

section \<open>Insertion and replay\<close>

definition namespace_mut :: "string \<Rightarrow> semantic_index \<Rightarrow> namespaced_index \<times> semantic_index" where
  "namespace_mut model_id si =
     (case hm_get (namespaces si) model_id of
        Some ns \<Rightarrow> (ns, si)
      | None \<Rightarrow>
          (let ns = ns_new (si_hnsw_config si)
           in (ns, si\<lparr> namespaces := hm_insert model_id ns (namespaces si) \<rparr>)))"

definition record_uuid :: "string \<Rightarrow> string \<Rightarrow> semantic_index \<Rightarrow> semantic_index" where
  "record_uuid uuid model_id si =
     si\<lparr> uuid_to_namespace := hm_insert uuid model_id (uuid_to_namespace si) \<rparr>"

text \<open>
  The common tail of \<open>replay_entry\<close>, \<open>replay_snapshot_entry\<close> and the test-only \<open>insert\<close>:
  \<open>self.namespace_mut(m).insert_with_uuid(..)?; self.record_uuid(..); Ok(())\<close>.
\<close>

definition insert_into ::
  "string \<Rightarrow> cache_entry \<Rightarrow> semantic_index \<Rightarrow> (index_error + unit) \<times> semantic_index" where
  "insert_into model_id e si =
     (let (ns, si1) = namespace_mut model_id si;
          (r, ns') = insert_with_uuid e ns;
          si2 = si1\<lparr> namespaces := hm_insert model_id ns' (namespaces si1) \<rparr>
      in case r of
           Inl err \<Rightarrow> (Inl err, si2)
         | Inr _ \<Rightarrow> (Inr (), record_uuid (ce_uuid e) model_id si2))"

definition si_remove_by_uuid :: "string \<Rightarrow> semantic_index \<Rightarrow> bool \<times> semantic_index" where
  "si_remove_by_uuid uuid si =
     (case hm_get (uuid_to_namespace si) uuid of
        None \<Rightarrow> (False, si)
      | Some model_id \<Rightarrow>
          (let si1 = si\<lparr> uuid_to_namespace := hm_remove uuid (uuid_to_namespace si) \<rparr>
           in case hm_get (namespaces si1) model_id of
                None \<Rightarrow> (False, si1)
              | Some ns \<Rightarrow>
                  (let (removed, ns') = ns_remove_by_uuid uuid ns
                   in (removed, si1\<lparr> namespaces := hm_insert model_id ns' (namespaces si1) \<rparr>))))"

definition wal_to_cache :: "wal_entry \<Rightarrow> cache_entry" where
  "wal_to_cache w =
     \<lparr> ce_uuid = we_uuid w, ce_embedding = we_embedding w, ce_response = we_response w,
       ce_query_text = we_query_text w, ce_inserted_at = we_inserted_at w,
       ce_last_accessed_at = we_inserted_at w, ce_access_count = 0,
       ce_expires_at = we_expires_at w \<rparr>"

definition replay_entry :: "wal_entry \<Rightarrow> semantic_index \<Rightarrow> (index_error + unit) \<times> semantic_index" where
  "replay_entry entry si =
     (if we_tombstone entry
      then (let (_, si') = si_remove_by_uuid (we_uuid entry) si in (Inr (), si'))
      else insert_into (we_model_id entry) (wal_to_cache entry) si)"

definition snap_to_cache :: "snapshot_entry \<Rightarrow> cache_entry" where
  "snap_to_cache s =
     \<lparr> ce_uuid = se_uuid s, ce_embedding = se_embedding s, ce_response = se_response s,
       ce_query_text = se_query_text s, ce_inserted_at = se_inserted_at s,
       ce_last_accessed_at = se_last_accessed_at s, ce_access_count = se_access_count s,
       ce_expires_at = se_expires_at s \<rparr>"

definition replay_snapshot_entry ::
  "snapshot_entry \<Rightarrow> semantic_index \<Rightarrow> (index_error + unit) \<times> semantic_index" where
  "replay_snapshot_entry entry si = insert_into (se_model_id entry) (snap_to_cache entry) si"

section \<open>Lookup and bookkeeping\<close>

definition to_full :: "string \<Rightarrow> cache_entry \<Rightarrow> full_entry" where
  "to_full model_id e =
     \<lparr> fe_uuid = ce_uuid e, fe_embedding = ce_embedding e, fe_response = ce_response e,
       fe_query_text = ce_query_text e, fe_model_id = model_id, fe_inserted_at = ce_inserted_at e,
       fe_last_accessed_at = ce_last_accessed_at e, fe_access_count = ce_access_count e,
       fe_expires_at = ce_expires_at e \<rparr>"

definition get_entry_by_uuid :: "semantic_index \<Rightarrow> string \<Rightarrow> full_entry option" where
  "get_entry_by_uuid si uuid =
     (case hm_get (uuid_to_namespace si) uuid of
        None \<Rightarrow> None
      | Some model_id \<Rightarrow>
          (case hm_get (namespaces si) model_id of
             None \<Rightarrow> None
           | Some ns \<Rightarrow> map_option (to_full model_id) (get_by_uuid ns uuid)))"

definition si_record_access :: "u64 \<Rightarrow> string \<Rightarrow> nat \<Rightarrow> semantic_index \<Rightarrow> semantic_index" where
  "si_record_access now model_id internal_id si =
     (case hm_get (namespaces si) model_id of
        None \<Rightarrow> si
      | Some ns \<Rightarrow>
          si\<lparr> namespaces := hm_insert model_id (ns_record_access now internal_id ns) (namespaces si) \<rparr>)"

definition namespace_for :: "semantic_index \<Rightarrow> string \<Rightarrow> string option" where
  "namespace_for si uuid = hm_get (uuid_to_namespace si) uuid"

section \<open>Removal\<close>

lemma alist_delete_shrinks:
  "k \<in> fst ` set xs \<Longrightarrow> length (AList.delete k xs) < length xs"
  by (force simp: AList.delete_eq intro!: length_filter_less)

lemma evict_lru_shrinks:
  "evict_lru m ns = (Some x, ns') \<Longrightarrow> length (entries ns') < length (entries ns)"
proof -
  assume ev: "evict_lru m ns = (Some x, ns')"
  then obtain i e e' where "min_by_key lru_key (entries ns) = Some (i, e)"
      and d: "drop_entry i ns = (Some e', ns')"
    by (auto simp: evict_lru_def split: option.splits prod.splits)
  then have "(i, e) \<in> set (entries ns)" using min_by_key_Some by fastforce
  then have "i \<in> fst ` set (entries ns)" by force
  then have "length (AList.delete i (entries ns)) < length (entries ns)"
    by (rule alist_delete_shrinks)
  with d show ?thesis by (auto simp: drop_entry_def Let_def split: option.splits)
qed

text \<open>\<open>while ns.entry_count() > max_entries { let Some(e) = ns.evict_lru(m) else { break }; .. }\<close>\<close>

function evict_ns :: "nat \<Rightarrow> string \<Rightarrow> namespaced_index \<Rightarrow> evicted_entry list \<times> namespaced_index" where
  "evict_ns max_entries model_id ns =
     (if ns_entry_count ns > max_entries
      then case evict_lru model_id ns of
             (None, ns') \<Rightarrow> ([], ns')
           | (Some e, ns') \<Rightarrow>
               (let (es, ns'') = evict_ns max_entries model_id ns' in (e # es, ns''))
      else ([], ns))"
  by pat_completeness auto
termination
  by (relation "measure (\<lambda>(_, _, ns). length (entries ns))") (auto dest: evict_lru_shrinks sym)

declare evict_ns.simps [simp del]

definition evict_to_cap :: "nat \<Rightarrow> semantic_index \<Rightarrow> evicted_entry list \<times> semantic_index" where
  "evict_to_cap max_entries si =
     (let evicted = concat (map (\<lambda>(m, ns). fst (evict_ns max_entries m ns)) (namespaces si))
      in (evicted,
          si\<lparr> namespaces := AList.map_ran (\<lambda>m ns. snd (evict_ns max_entries m ns)) (namespaces si),
              uuid_to_namespace := fold hm_remove (map ee_uuid evicted) (uuid_to_namespace si) \<rparr>))"

definition rebuild_dirty_namespaces :: "semantic_index \<Rightarrow> string list \<times> semantic_index" where
  "rebuild_dirty_namespaces si =
     (map fst (filter (\<lambda>(_, ns). needs_rebuild ns) (namespaces si)),
      si\<lparr> namespaces :=
            AList.map_ran (\<lambda>_ ns. if needs_rebuild ns then rebuild ns else ns) (namespaces si) \<rparr>)"

definition collect_expired :: "u64 \<Rightarrow> semantic_index \<Rightarrow> (string \<times> string) list \<times> semantic_index" where
  "collect_expired now si =
     (let out = concat (map (\<lambda>(m, ns). map (\<lambda>(uuid, _). (uuid, m)) (fst (collect_expired_within now ns)))
                         (namespaces si))
      in (out,
          si\<lparr> namespaces := AList.map_ran (\<lambda>_ ns. snd (collect_expired_within now ns)) (namespaces si),
              uuid_to_namespace := fold hm_remove (map fst out) (uuid_to_namespace si) \<rparr>))"

definition prunable :: "string \<times> namespaced_index \<Rightarrow> bool" where
  "prunable p \<longleftrightarrow>
     contains_str (fst p) ''::conv_'' \<and> entries (snd p) = [] \<and> evicted_ids (snd p) = []"

definition prune_empty_namespaces :: "semantic_index \<Rightarrow> string list \<times> semantic_index" where
  "prune_empty_namespaces si =
     (let to_drop = map fst (filter prunable (namespaces si))
      in (to_drop, si\<lparr> namespaces := fold hm_remove to_drop (namespaces si) \<rparr>))"

definition si_find_similar ::
  "f32 list \<Rightarrow> flt \<Rightarrow> string \<Rightarrow> u64 \<Rightarrow> semantic_index \<Rightarrow> (nat \<times> string) list" where
  "si_find_similar embedding threshold model_id now si =
     (case hm_get (namespaces si) model_id of
        Some ns \<Rightarrow> ns_find_similar embedding threshold now ns
      | None \<Rightarrow> [])"

definition invalidate_similar ::
  "f32 list \<Rightarrow> flt \<Rightarrow> string \<Rightarrow> u64 \<Rightarrow> semantic_index \<Rightarrow> string list \<times> semantic_index" where
  "invalidate_similar embedding threshold model_id now si =
     (case hm_get (namespaces si) model_id of
        None \<Rightarrow> ([], si)
      | Some ns \<Rightarrow>
          (let (removed, ns') = drop_ids (map fst (ns_find_similar embedding threshold now ns)) ns
           in (map fst removed,
               si\<lparr> namespaces := hm_insert model_id ns' (namespaces si),
                   uuid_to_namespace := fold hm_remove (map fst removed) (uuid_to_namespace si) \<rparr>)))"

section \<open>Snapshots and queries\<close>

definition cache_to_snap :: "string \<Rightarrow> cache_entry \<Rightarrow> snapshot_entry" where
  "cache_to_snap model_id e =
     \<lparr> se_uuid = ce_uuid e, se_embedding = ce_embedding e, se_response = ce_response e,
       se_query_text = ce_query_text e, se_model_id = model_id, se_inserted_at = ce_inserted_at e,
       se_last_accessed_at = ce_last_accessed_at e, se_access_count = ce_access_count e,
       se_tombstone = False, se_expires_at = ce_expires_at e \<rparr>"

definition snapshot_entries :: "semantic_index \<Rightarrow> snapshot_entry list" where
  "snapshot_entries si =
     concat (map (\<lambda>(m, ns). map (\<lambda>(_, e). cache_to_snap m e) (entries ns)) (namespaces si))"

definition si_query_with_text ::
  "hnsw_search \<Rightarrow> f32 list \<Rightarrow> flt \<Rightarrow> string \<Rightarrow> string option \<Rightarrow> u64 \<Rightarrow> semantic_index \<Rightarrow>
   index_error + query_hit option" where
  "si_query_with_text search embedding threshold model_id query_text now si =
     (case hm_get (namespaces si) model_id of
        Some ns \<Rightarrow> ns_query_with_text search embedding threshold query_text now ns
      | None \<Rightarrow> Inr None)"

definition si_query ::
  "hnsw_search \<Rightarrow> f32 list \<Rightarrow> flt \<Rightarrow> string \<Rightarrow> u64 \<Rightarrow> semantic_index \<Rightarrow>
   index_error + query_hit option" where
  "si_query search embedding threshold model_id now si =
     si_query_with_text search embedding threshold model_id None now si"

datatype hit_scope = Conversation | Global

definition query_base ::
  "hnsw_search \<Rightarrow> f32 list \<Rightarrow> flt \<Rightarrow> string \<Rightarrow> string option \<Rightarrow> u64 \<Rightarrow> semantic_index \<Rightarrow>
   index_error + query_hit option \<times> string \<times> hit_scope option" where
  "query_base search embedding threshold base_ns query_text now si =
     (case hm_get (namespaces si) base_ns of
        Some ns \<Rightarrow>
          (case ns_query_with_text search embedding threshold query_text now ns of
             Inl err \<Rightarrow> Inl err
           | Inr hit \<Rightarrow> Inr (hit, base_ns, if hit \<noteq> None then Some Global else None))
      | None \<Rightarrow> Inr (None, base_ns, None))"

definition query_two_level ::
  "hnsw_search \<Rightarrow> f32 list \<Rightarrow> flt \<Rightarrow> string \<Rightarrow> string \<Rightarrow> string option \<Rightarrow> u64 \<Rightarrow> semantic_index \<Rightarrow>
   index_error + query_hit option \<times> string \<times> hit_scope option" where
  "query_two_level search embedding threshold conv_ns base_ns query_text now si =
     (case hm_get (namespaces si) conv_ns of
        Some ns \<Rightarrow>
          (case ns_query_with_text search embedding threshold query_text now ns of
             Inl err \<Rightarrow> Inl err
           | Inr (Some hit) \<Rightarrow> Inr (Some hit, conv_ns, Some Conversation)
           | Inr None \<Rightarrow> query_base search embedding threshold base_ns query_text now si)
      | None \<Rightarrow> query_base search embedding threshold base_ns query_text now si)"

section \<open>Statistics\<close>

definition si_entry_count :: "semantic_index \<Rightarrow> nat" where
  "si_entry_count si = sum_list (map (\<lambda>(_, ns). ns_entry_count ns) (namespaces si))"

definition stats_of :: "namespaced_index \<Rightarrow> namespace_stats" where
  "stats_of ns =
     (let es = map snd (entries ns);
          (oldest, newest, total) =
            foldl (\<lambda>(oldest, newest, total) e.
                (if ce_inserted_at e < oldest then ce_inserted_at e else oldest,
                 if ce_inserted_at e > newest then ce_inserted_at e else newest,
                 saturating_add total (ce_access_count e)))
              (- 1, 0, 0) es
      in \<lparr> st_entry_count = ns_entry_count ns, st_dimension = dimension ns,
           st_oldest_entry_ts = (if es \<noteq> [] then oldest else 0),
           st_newest_entry_ts = newest, st_total_accesses = total,
           st_evicted_ghost_count = evicted_ghost_count ns \<rparr>)"

definition si_namespace_stats :: "semantic_index \<Rightarrow> (string, namespace_stats) hmap" where
  "si_namespace_stats si = AList.map_ran (\<lambda>_ ns. stats_of ns) (namespaces si)"

text \<open>\<open>chars()\<close> of a UTF-8 string: a character starts at every byte that is not 10xxxxxx.\<close>

definition is_char_start :: "char \<Rightarrow> bool" where
  "is_char_start c \<longleftrightarrow> (let n = (of_char c :: nat) in \<not> (128 \<le> n \<and> n < 192))"

definition chars_count :: "string \<Rightarrow> nat" where
  "chars_count s = length (filter is_char_start s)"

fun chars_take :: "nat \<Rightarrow> string \<Rightarrow> string" where
  "chars_take n [] = []"
| "chars_take n (c # s) =
     (if is_char_start c then (if n = 0 then [] else c # chars_take (n - 1) s)
      else c # chars_take n s)"

definition preview_query_text :: "string \<Rightarrow> string" where
  "preview_query_text s =
     (if chars_count s \<le> 50 then s else chars_take 50 s @ ''...'')"

text \<open>\<open>sort_by_key(|b| Reverse(b.access_count))\<close> is stable, as is \<^const>\<open>sort_key\<close>.\<close>

definition top_entries :: "nat \<Rightarrow> namespaced_index \<Rightarrow> top_entry_summary list" where
  "top_entries limit ns =
     map (\<lambda>e. \<lparr> te_uuid = ce_uuid e, te_access_count = ce_access_count e,
                te_last_accessed_at = ce_last_accessed_at e,
                te_query_text_preview = preview_query_text (ce_query_text e) \<rparr>)
       (take limit (sort_key (\<lambda>e. - int (unat (ce_access_count e))) (map snd (entries ns))))"

definition top_entries_per_namespace ::
  "nat \<Rightarrow> semantic_index \<Rightarrow> (string, top_entry_summary list) hmap" where
  "top_entries_per_namespace limit si = AList.map_ran (\<lambda>_ ns. top_entries limit ns) (namespaces si)"

definition si_dimension :: "semantic_index \<Rightarrow> nat option" where
  "si_dimension si =
     (case filter (\<lambda>d. d \<noteq> None) (map (\<lambda>(_, ns). dimension ns) (namespaces si)) of
        [] \<Rightarrow> None
      | d # _ \<Rightarrow> d)"

end
