(* ===== verification/Semantic_Index_Correct.thy ===== *)
theory Semantic_Index_Correct
  imports Semantic_Index
begin

text \<open>
  Correctness of \<open>SemanticIndex\<close>. The abstract state is what a client can observe: the entry each
  namespace holds for a UUID, the namespace that owns a UUID and the dimension a namespace is
  locked to. Every operation refines a short function on that state, for every index that satisfies
  the invariant \<open>si_wf\<close>, which all operations preserve. The stronger \<open>si_inv\<close> also says that the
  reverse map misses no entry; it needs a UUID not to be reused across namespaces.
\<close>

section \<open>The abstract state\<close>

definition contents :: "semantic_index \<Rightarrow> string \<Rightarrow> string \<Rightarrow> cache_entry option" where
  "contents si m = (case hm_get (namespaces si) m of None \<Rightarrow> Map.empty | Some ns \<Rightarrow> get_by_uuid ns)"

definition locked_dim :: "semantic_index \<Rightarrow> string \<Rightarrow> nat option" where
  "locked_dim si m = (case hm_get (namespaces si) m of None \<Rightarrow> None | Some ns \<Rightarrow> dimension ns)"

record cache_spec =
  sp_content :: "string \<Rightarrow> string \<Rightarrow> cache_entry option"
  sp_owner :: "string \<Rightarrow> string option"
  sp_dim :: "string \<Rightarrow> nat option"

definition si_abs :: "semantic_index \<Rightarrow> cache_spec" where
  "si_abs si = \<lparr> sp_content = contents si, sp_owner = hm_get (uuid_to_namespace si),
                 sp_dim = locked_dim si \<rparr>"

definition sp_empty :: cache_spec where
  "sp_empty = \<lparr> sp_content = (\<lambda>_ _. None), sp_owner = Map.empty, sp_dim = Map.empty \<rparr>"

definition sp_accepts :: "string \<Rightarrow> cache_entry \<Rightarrow> cache_spec \<Rightarrow> bool" where
  "sp_accepts m e s \<longleftrightarrow> sp_dim s m = None \<or> sp_dim s m = Some (length (ce_embedding e))"

definition sp_insert :: "string \<Rightarrow> cache_entry \<Rightarrow> cache_spec \<Rightarrow> (index_error + unit) \<times> cache_spec" where
  "sp_insert m e s =
     (if sp_accepts m e s
      then (Inr (),
            s\<lparr> sp_content := (sp_content s)(m :=
                 (if sp_content s m (ce_uuid e) = None then (sp_content s m)(ce_uuid e \<mapsto> e)
                  else sp_content s m)),
               sp_owner := (sp_owner s)(ce_uuid e \<mapsto> m),
               sp_dim := (sp_dim s)(m \<mapsto> length (ce_embedding e)) \<rparr>)
      else (Inl (DimensionMismatch (the (sp_dim s m)) (length (ce_embedding e))), s))"

definition sp_remove :: "string \<Rightarrow> cache_spec \<Rightarrow> bool \<times> cache_spec" where
  "sp_remove u s =
     (case sp_owner s u of
        None \<Rightarrow> (False, s)
      | Some m \<Rightarrow>
          (True, s\<lparr> sp_content := (sp_content s)(m := (sp_content s m)(u := None)),
                    sp_owner := (sp_owner s)(u := None) \<rparr>))"

text \<open>Dropping every entry that satisfies a predicate, together with the ownership of its UUID.\<close>

definition sp_drop :: "(string \<Rightarrow> string \<Rightarrow> cache_entry \<Rightarrow> bool) \<Rightarrow> cache_spec \<Rightarrow> cache_spec" where
  "sp_drop P s =
     s\<lparr> sp_content := (\<lambda>m u. case sp_content s m u of None \<Rightarrow> None
                              | Some e \<Rightarrow> if P m u e then None else Some e),
        sp_owner := (\<lambda>u. if \<exists>m e. sp_content s m u = Some e \<and> P m u e then None else sp_owner s u) \<rparr>"

section \<open>The invariant\<close>

definition si_struct :: "semantic_index \<Rightarrow> bool" where
  "si_struct si \<longleftrightarrow> hm_wf (namespaces si) \<and> hm_wf (uuid_to_namespace si) \<and>
     (\<forall>(m, ns) \<in> set (namespaces si). ns_inv ns)"

text \<open>An owner holds the entry; and, for \<open>sp_complete\<close>, whoever holds an entry is its owner.\<close>

definition sp_sound :: "cache_spec \<Rightarrow> bool" where
  "sp_sound s \<longleftrightarrow> (\<forall>u m. sp_owner s u = Some m \<longrightarrow> sp_content s m u \<noteq> None)"

definition sp_complete :: "cache_spec \<Rightarrow> bool" where
  "sp_complete s \<longleftrightarrow> (\<forall>m u. sp_content s m u \<noteq> None \<longrightarrow> sp_owner s u = Some m)"

text \<open>Every entry is filed under its own UUID and has the dimension of its namespace.\<close>

definition sp_keyed :: "cache_spec \<Rightarrow> bool" where
  "sp_keyed s \<longleftrightarrow> (\<forall>m u e. sp_content s m u = Some e \<longrightarrow>
     ce_uuid e = u \<and> sp_dim s m = Some (length (ce_embedding e)))"

definition si_wf :: "semantic_index \<Rightarrow> bool" where
  "si_wf si \<longleftrightarrow> si_struct si \<and> sp_sound (si_abs si)"

definition si_inv :: "semantic_index \<Rightarrow> bool" where
  "si_inv si \<longleftrightarrow> si_wf si \<and> sp_complete (si_abs si)"

lemmas sp_defs = sp_sound_def sp_complete_def sp_insert_def sp_remove_def sp_drop_def sp_accepts_def

lemma si_structD:
  assumes "si_struct si"
  shows "hm_wf (namespaces si)" "hm_wf (uuid_to_namespace si)"
    and "map_of (namespaces si) m = Some ns \<Longrightarrow> ns_inv ns"
  using assms by (auto simp: si_struct_def dest: map_of_SomeD)

lemma si_structI:
  assumes "hm_wf (namespaces si)" "hm_wf (uuid_to_namespace si)"
    and "\<And>m ns. map_of (namespaces si) m = Some ns \<Longrightarrow> ns_inv ns"
  shows "si_struct si"
  using assms by (auto simp: si_struct_def hm_in_iff)

lemma si_wf_struct: "si_wf si \<Longrightarrow> si_struct si"
  by (simp add: si_wf_def)

lemma si_inv_wf: "si_inv si \<Longrightarrow> si_wf si"
  by (simp add: si_inv_def)

lemma si_abs_sel [simp]:
  "sp_content (si_abs si) = contents si" "sp_owner (si_abs si) = map_of (uuid_to_namespace si)"
  "sp_dim (si_abs si) = locked_dim si"
  by (simp_all add: si_abs_def)

lemma si_abs_keyed:
  assumes "si_struct si"
  shows "sp_keyed (si_abs si)"
  unfolding sp_keyed_def
proof (intro allI impI)
  fix m u e
  assume "sp_content (si_abs si) m u = Some e"
  then obtain ns where ns: "map_of (namespaces si) m = Some ns" "get_by_uuid ns u = Some e"
    by (auto simp: contents_def split: option.splits)
  note inv = si_structD(3) [OF assms ns(1)]
  show "ce_uuid e = u \<and> sp_dim (si_abs si) m = Some (length (ce_embedding e))"
    using ns ns_inv_dim [OF inv] by (auto simp: get_by_uuid_iff [OF inv] locked_dim_def)
qed

lemma si_wf_owned:
  assumes "si_wf si" and "namespace_for si u = Some m"
  obtains e where "contents si m u = Some e" "ce_uuid e = u"
proof -
  obtain e where e: "contents si m u = Some e"
    using assms by (fastforce simp: si_wf_def sp_sound_def namespace_for_def)
  then have "ce_uuid e = u" using si_abs_keyed [OF si_wf_struct [OF assms(1)]] by (simp add: sp_keyed_def)
  with e show thesis by (rule that)
qed

lemma si_inv_owner_iff:
  assumes "si_inv si"
  shows "namespace_for si u = Some m \<longleftrightarrow> contents si m u \<noteq> None"
proof
  show "contents si m u \<noteq> None" if "namespace_for si u = Some m"
    using assms that unfolding si_inv_def si_wf_def sp_sound_def namespace_for_def si_abs_sel by blast
  show "namespace_for si u = Some m" if "contents si m u \<noteq> None"
    using assms that unfolding si_inv_def sp_complete_def namespace_for_def si_abs_sel by blast
qed

lemma si_abs_new: "si_abs (si_new cfg) = sp_empty"
  by (auto simp: si_abs_def si_new_def sp_empty_def contents_def locked_dim_def)

lemma si_inv_new: "si_inv (si_new cfg)"
  by (auto simp: si_inv_def si_wf_def si_abs_new sp_empty_def sp_defs) (simp add: si_new_def si_struct_def)

text \<open>Two ways an operation changes the namespaces: one of them, or each of them.\<close>

lemma contents_update:
  "contents (si\<lparr> namespaces := AList.update m ns' nss \<rparr>) =
     (contents (si\<lparr> namespaces := nss \<rparr>))(m := get_by_uuid ns')"
  by (auto simp: contents_def fun_eq_iff)

lemma locked_dim_update:
  "locked_dim (si\<lparr> namespaces := AList.update m ns' nss \<rparr>) =
     (locked_dim (si\<lparr> namespaces := nss \<rparr>))(m := dimension ns')"
  by (auto simp: locked_dim_def fun_eq_iff)

lemma contents_map_ran:
  "contents (si\<lparr> namespaces := AList.map_ran f (namespaces si') \<rparr>) m =
     (case map_of (namespaces si') m of None \<Rightarrow> Map.empty | Some ns \<Rightarrow> get_by_uuid (f m ns))"
  by (auto simp: contents_def split: option.splits)

lemma locked_dim_map_ran:
  "locked_dim (si\<lparr> namespaces := AList.map_ran f (namespaces si') \<rparr>) m =
     (case map_of (namespaces si') m of None \<Rightarrow> None | Some ns \<Rightarrow> dimension (f m ns))"
  by (auto simp: locked_dim_def split: option.splits)

lemma view_owner_upd [simp]:
  "contents (si\<lparr> uuid_to_namespace := o' \<rparr>) = contents si"
  "locked_dim (si\<lparr> uuid_to_namespace := o' \<rparr>) = locked_dim si"
  by (simp_all add: contents_def locked_dim_def fun_eq_iff)

lemma si_upd_same [simp]: "si\<lparr> namespaces := namespaces si \<rparr> = si"
  by simp

lemma cache_spec_eqI:
  "sp_content s = sp_content (t :: cache_spec) \<Longrightarrow> sp_owner s = sp_owner t \<Longrightarrow> sp_dim s = sp_dim t \<Longrightarrow> s = t"
  by simp

section \<open>Insertion\<close>

lemma namespace_mut_facts:
  assumes "si_struct si"
  shows "ns_inv (fst (namespace_mut m si))"
    and "get_by_uuid (fst (namespace_mut m si)) = contents si m"
    and "dimension (fst (namespace_mut m si)) = locked_dim si m"
    and "hm_wf (namespaces (snd (namespace_mut m si)))"
    and "uuid_to_namespace (snd (namespace_mut m si)) = uuid_to_namespace si"
    and "k \<noteq> m \<Longrightarrow> map_of (namespaces (snd (namespace_mut m si))) k = map_of (namespaces si) k"
proof -
  have nn: "get_by_uuid (ns_new c) = Map.empty" "dimension (ns_new c) = None" for c
    by (auto simp: ns_new_def get_by_uuid_def)
  note D = si_structD [OF assms]
  show "ns_inv (fst (namespace_mut m si))" "get_by_uuid (fst (namespace_mut m si)) = contents si m"
    "dimension (fst (namespace_mut m si)) = locked_dim si m"
    "hm_wf (namespaces (snd (namespace_mut m si)))"
    "uuid_to_namespace (snd (namespace_mut m si)) = uuid_to_namespace si"
    "k \<noteq> m \<Longrightarrow> map_of (namespaces (snd (namespace_mut m si))) k = map_of (namespaces si) k"
    using D(1,3) nn ns_inv_new
    by (auto simp: namespace_mut_def contents_def locked_dim_def Let_def split: option.split)
qed

lemma insert_into_eq:
  "insert_into m e si =
     (let ns' = snd (insert_with_uuid e (fst (namespace_mut m si)));
          si1 = snd (namespace_mut m si);
          si2 = si1\<lparr> namespaces := AList.update m ns' (namespaces si1) \<rparr>;
          r = fst (insert_with_uuid e (fst (namespace_mut m si)))
      in (r, if isl r then si2 else record_uuid (ce_uuid e) m si2))"
  by (simp add: insert_into_def Let_def split_beta split: sum.splits)

lemma view_cong:
  assumes "\<And>k. k \<noteq> m \<Longrightarrow> map_of nss' k = map_of nss k"
  shows "(contents (si'\<lparr> namespaces := nss' \<rparr>))(m := x) = (contents (si\<lparr> namespaces := nss \<rparr>))(m := x)"
    and "(locked_dim (si'\<lparr> namespaces := nss' \<rparr>))(m := y) = (locked_dim (si\<lparr> namespaces := nss \<rparr>))(m := y)"
  using assms by (auto simp: contents_def locked_dim_def fun_eq_iff)

lemma insert_into_abs:
  assumes wf: "si_struct si"
  shows "fst (insert_into m e si) = fst (sp_insert m e (si_abs si))"
    and "si_abs (snd (insert_into m e si)) = snd (sp_insert m e (si_abs si))"
proof -
  let ?ns = "fst (namespace_mut m si)" and ?si1 = "snd (namespace_mut m si)"
  note M = namespace_mut_facts [OF wf]
  note V = insert_with_uuid_view [OF M(1) [of m], of e, unfolded M(2,3)]
  have acc: "ns_accepts ?ns (ce_embedding e) \<longleftrightarrow> sp_accepts m e (si_abs si)"
    by (auto simp: ns_accepts_def sp_accepts_def M(3) split: option.splits)
  show "fst (insert_into m e si) = fst (sp_insert m e (si_abs si))"
    by (simp add: insert_into_eq Let_def V(1) acc sp_insert_def)
  have c: "contents (?si1\<lparr>namespaces := AList.update m x (namespaces ?si1)\<rparr>) = (contents si)(m := get_by_uuid x)"
    and d: "locked_dim (?si1\<lparr>namespaces := AList.update m x (namespaces ?si1)\<rparr>) = (locked_dim si)(m := dimension x)" for x
    unfolding contents_update locked_dim_update
    using view_cong [of m "namespaces ?si1" "namespaces si" ?si1 _ si] M(6) by auto
  show "si_abs (snd (insert_into m e si)) = snd (sp_insert m e (si_abs si))"
  proof (cases "sp_accepts m e (si_abs si)")
    case True
    then show ?thesis
      by (intro cache_spec_eqI)
        (auto simp: insert_into_eq Let_def V acc sp_insert_def record_uuid_def c d M(5))
  next
    case False
    then show ?thesis
      by (intro cache_spec_eqI)
        (auto simp: insert_into_eq Let_def V acc sp_insert_def c d M(2,3,5) fun_eq_iff)
  qed
qed

lemma si_struct_insert_into:
  assumes "si_struct si"
  shows "si_struct (snd (insert_into m e si))"
proof (rule si_structI)
  note M = namespace_mut_facts [OF assms] and D = si_structD [OF assms]
  show "hm_wf (namespaces (snd (insert_into m e si)))"
    "hm_wf (uuid_to_namespace (snd (insert_into m e si)))"
    using D M by (auto simp: insert_into_eq Let_def record_uuid_def)
  fix k ns
  assume "map_of (namespaces (snd (insert_into m e si))) k = Some ns"
  then show "ns_inv ns"
    using ns_inv_insert_with_uuid [OF M(1), of e m] M(6) [of k m] D(3) [of k ns]
    by (cases "k = m") (auto simp: insert_into_eq Let_def record_uuid_def split: if_splits)
qed

lemma sp_sound_insert: "sp_sound s \<Longrightarrow> sp_sound (snd (sp_insert m e s))"
  by (auto simp: sp_defs)

lemma sp_complete_insert:
  "sp_complete s \<Longrightarrow> sp_owner s (ce_uuid e) = None \<or> sp_owner s (ce_uuid e) = Some m \<Longrightarrow>
     sp_complete (snd (sp_insert m e s))"
  by (auto simp: sp_defs split: if_splits) (metis not_None_eq option.inject)+

lemma si_wf_insert_into: "si_wf si \<Longrightarrow> si_wf (snd (insert_into m e si))"
  by (simp add: si_wf_def si_struct_insert_into insert_into_abs sp_sound_insert)

lemma si_inv_insert_into:
  "si_inv si \<Longrightarrow> namespace_for si (ce_uuid e) \<in> {None, Some m} \<Longrightarrow> si_inv (snd (insert_into m e si))"
  by (simp add: si_inv_def si_wf_insert_into insert_into_abs(2) [OF si_wf_struct] sp_complete_insert
      namespace_for_def)

section \<open>Removal by UUID\<close>

lemma si_remove_eq:
  assumes "si_wf si"
  obtains (absent) "map_of (uuid_to_namespace si) u = None" "si_remove_by_uuid u si = (False, si)"
  | (present) m ns where "map_of (uuid_to_namespace si) u = Some m"
      "map_of (namespaces si) m = Some ns" "ns_inv ns" "get_by_uuid ns u \<noteq> None"
      "si_remove_by_uuid u si = (True, si\<lparr> uuid_to_namespace := AList.delete u (uuid_to_namespace si),
         namespaces := AList.update m (snd (ns_remove_by_uuid u ns)) (namespaces si) \<rparr>)"
proof (cases "map_of (uuid_to_namespace si) u")
  case None
  then show thesis by (intro absent) (auto simp: si_remove_by_uuid_def)
next
  case (Some m)
  then have "contents si m u \<noteq> None" using assms by (simp add: si_wf_def sp_sound_def)
  then obtain ns where ns: "map_of (namespaces si) m = Some ns" "get_by_uuid ns u \<noteq> None"
    by (auto simp: contents_def split: option.splits)
  have inv: "ns_inv ns" using ns(1) si_structD(3) [OF si_wf_struct [OF assms]] by blast
  then have "fst (ns_remove_by_uuid u ns)" using ns(2) remove_by_uuid_view(1) [OF inv] by simp
  with Some ns inv show thesis
    by (intro present) (auto simp: si_remove_by_uuid_def split_beta)
qed

lemma si_remove_abs:
  assumes "si_wf si"
  shows "fst (si_remove_by_uuid u si) = fst (sp_remove u (si_abs si)) \<and>
    si_abs (snd (si_remove_by_uuid u si)) = snd (sp_remove u (si_abs si))"
  using assms
proof (cases rule: si_remove_eq [where u = u])
  case absent
  then show ?thesis by (simp add: sp_remove_def)
next
  case (present m ns)
  note V = remove_by_uuid_view [OF present(3), of u]
  have "contents si m = get_by_uuid ns" "locked_dim si m = dimension ns"
    using present(2) by (auto simp: contents_def locked_dim_def)
  with present V show ?thesis
    by (auto simp: sp_remove_def contents_update locked_dim_update si_abs_def fun_eq_iff)
qed

lemma si_wf_remove:
  assumes "si_wf si"
  shows "si_wf (snd (si_remove_by_uuid u si))"
proof -
  note D = si_structD [OF si_wf_struct [OF assms]]
  have "si_struct (snd (si_remove_by_uuid u si))"
    using assms
  proof (cases rule: si_remove_eq [where u = u])
    case absent
    then show ?thesis using si_wf_struct [OF assms] by simp
  next
    case (present m ns)
    then show ?thesis
      using D ns_inv_remove_by_uuid [OF present(3), of u] by (intro si_structI) (auto split: if_splits)
  qed
  moreover have "sp_sound (snd (sp_remove u s))" if "sp_sound s" for s
    using that by (auto simp: sp_defs split: option.splits)
  ultimately show ?thesis using assms si_remove_abs [OF assms] by (simp add: si_wf_def)
qed

lemma sp_complete_remove: "sp_complete s \<Longrightarrow> sp_complete (snd (sp_remove u s))"
  by (auto simp: sp_defs split: option.splits if_splits) (metis not_None_eq option.inject)+

lemma si_inv_remove: "si_inv si \<Longrightarrow> si_inv (snd (si_remove_by_uuid u si))"
  by (simp add: si_inv_def si_wf_remove si_remove_abs sp_complete_remove)

section \<open>Recording a hit\<close>

lemma record_access_dim [simp]: "dimension (ns_record_access now i ns) = dimension ns"
  by (simp add: ns_record_access_def split: option.split)

text \<open>The entry behind the internal id of a hit is touched, and nothing else.\<close>

definition sp_touch :: "u64 \<Rightarrow> string \<Rightarrow> string \<Rightarrow> cache_spec \<Rightarrow> cache_spec" where
  "sp_touch now m u s =
     s\<lparr> sp_content := (sp_content s)(m := (sp_content s m)(u := map_option (touch now) (sp_content s m u))) \<rparr>"

lemma record_access_abs:
  assumes "si_struct si" and ns: "map_of (namespaces si) m = Some ns"
    and i: "map_of (entries ns) i = Some e"
  shows "si_abs (si_record_access now m i si) = sp_touch now m (ce_uuid e) (si_abs si)"
proof -
  note inv = si_structD(3) [OF assms(1) ns]
  note u = ns_inv_entry_uuid [OF inv i]
  have inj: "v = ce_uuid e" if "map_of (uuid_to_internal ns) v = Some i" for v
    using ns_inv_uuid_entry [OF inv that] i by auto
  have "get_by_uuid (ns_record_access now i ns) =
      (get_by_uuid ns)(ce_uuid e := map_option (touch now) (get_by_uuid ns (ce_uuid e)))"
  proof
    fix v
    show "get_by_uuid (ns_record_access now i ns) v =
        ((get_by_uuid ns)(ce_uuid e := map_option (touch now) (get_by_uuid ns (ce_uuid e)))) v"
      using u inj [of v]
      by (cases "v = ce_uuid e") (auto simp: record_access_view [OF inv] split: option.split)
  qed
  moreover have "contents si m = get_by_uuid ns" "locked_dim si m = dimension ns"
    using ns by (auto simp: contents_def locked_dim_def)
  ultimately show ?thesis using ns
    by (auto simp: si_record_access_def sp_touch_def contents_update locked_dim_update si_abs_def
        fun_eq_iff)
qed

lemma record_access_none:
  "map_of (namespaces si) m = None \<Longrightarrow> si_record_access now m i si = si"
  by (simp add: si_record_access_def)

lemma record_access_gone:
  "map_of (namespaces si) m = Some ns \<Longrightarrow> map_of (entries ns) i = None \<Longrightarrow>
     si_abs (si_record_access now m i si) = si_abs si"
  by (auto simp: si_record_access_def ns_record_access_def si_abs_def contents_update locked_dim_update
      contents_def locked_dim_def fun_eq_iff)

lemma si_struct_record_access: "si_struct si \<Longrightarrow> si_struct (si_record_access now m i si)"
  by (rule si_structI)
    (auto simp: si_record_access_def dest: si_structD intro: ns_inv_record_access
      split: option.splits if_splits)

lemma record_access_cases:
  assumes "si_struct si"
  shows "si_abs (si_record_access now m i si) = si_abs si \<or>
    (\<exists>u. si_abs (si_record_access now m i si) = sp_touch now m u (si_abs si))"
proof (cases "map_of (namespaces si) m")
  case None
  then show ?thesis by (simp add: record_access_none)
next
  case (Some ns)
  then show ?thesis
    using record_access_abs [OF assms Some, of i] record_access_gone [OF Some, of i]
    by (cases "map_of (entries ns) i") auto
qed

lemma sp_touch_keeps:
  "sp_sound (sp_touch now m u s) = sp_sound s" "sp_complete (sp_touch now m u s) = sp_complete s"
  by (auto simp: sp_defs sp_touch_def)

lemma si_wf_record_access: "si_wf si \<Longrightarrow> si_wf (si_record_access now m i si)"
  using record_access_cases [of si now m i]
  by (auto simp: si_wf_def si_struct_record_access sp_touch_keeps)

lemma si_inv_record_access: "si_inv si \<Longrightarrow> si_inv (si_record_access now m i si)"
  using record_access_cases [OF si_wf_struct [OF si_inv_wf], of si now m i]
  by (auto simp: si_inv_def si_wf_record_access sp_touch_keeps)

section \<open>Dropping many entries\<close>

lemma sp_drop_sel:
  "sp_content (sp_drop P s) m u = Some e \<longleftrightarrow> sp_content s m u = Some e \<and> \<not> P m u e"
  "sp_owner (sp_drop P s) u = Some m \<longleftrightarrow>
     sp_owner s u = Some m \<and> (\<forall>k e. sp_content s k u = Some e \<longrightarrow> \<not> P k u e)"
  "sp_dim (sp_drop P s) = sp_dim s"
  by (auto simp: sp_drop_def split: option.splits)

lemma sp_drop_sound:
  assumes "sp_sound s"
  shows "sp_sound (sp_drop P s)"
  unfolding sp_sound_def
proof (intro allI impI)
  fix u m
  assume o: "sp_owner (sp_drop P s) u = Some m"
  then have "sp_content s m u \<noteq> None" using assms unfolding sp_sound_def sp_drop_sel by blast
  then obtain e where e: "sp_content s m u = Some e" by blast
  then have "sp_content (sp_drop P s) m u = Some e" using o by (auto simp: sp_drop_sel)
  then show "sp_content (sp_drop P s) m u \<noteq> None" by simp
qed

text \<open>In a complete state a UUID is held once, so dropping other entries leaves its owner alone.\<close>

lemma sp_drop_complete:
  assumes "sp_complete s"
  shows "sp_complete (sp_drop P s)"
  unfolding sp_complete_def
proof (intro allI impI)
  fix m u
  assume "sp_content (sp_drop P s) m u \<noteq> None"
  then obtain e where e: "sp_content s m u = Some e" "\<not> P m u e" by (auto simp: sp_drop_sel)
  have own: "sp_owner s u = Some k" if "sp_content s k u = Some e'" for k e'
    using assms that by (auto simp: sp_complete_def)
  show "sp_owner (sp_drop P s) u = Some m"
    unfolding sp_drop_sel
  proof (intro conjI allI impI)
    show "sp_owner s u = Some m" using own e by blast
    fix k e'
    assume e': "sp_content s k u = Some e'"
    with own [OF this] own [OF e(1)] e show "\<not> P k u e'" by auto
  qed
qed

lemmas sp_drop_keeps = sp_drop_sound sp_drop_complete

text \<open>
  The shape shared by expiry, eviction and invalidation: every namespace loses the entries that
  satisfy a predicate, and the reverse map loses their UUIDs.
\<close>

lemma bulk_drop:
  assumes "si_struct si"
    and nss: "hm_wf nss'" "\<And>m. map_of nss' m = map_option (f m) (map_of (namespaces si) m)"
    and f: "\<And>m ns. map_of (namespaces si) m = Some ns \<Longrightarrow> ns_inv (f m ns)"
      "\<And>m ns. map_of (namespaces si) m = Some ns \<Longrightarrow> dimension (f m ns) = dimension ns"
      "\<And>m ns u. map_of (namespaces si) m = Some ns \<Longrightarrow> get_by_uuid (f m ns) u =
         (case get_by_uuid ns u of None \<Rightarrow> None | Some e \<Rightarrow> if P m u e then None else Some e)"
    and us: "\<And>u. u \<in> set us \<longleftrightarrow> (\<exists>m e. contents si m u = Some e \<and> P m u e)"
  defines "si' \<equiv> si\<lparr> namespaces := nss', uuid_to_namespace := fold hm_remove us (uuid_to_namespace si) \<rparr>"
  shows "si_struct si'" and "si_abs si' = sp_drop P (si_abs si)"
proof -
  note D = si_structD [OF assms(1)]
  show "si_struct si'"
    using D nss f(1) by (intro si_structI) (auto simp: si'_def hm.wf_del_all)
  show "si_abs si' = sp_drop P (si_abs si)"
  proof (intro cache_spec_eqI ext)
    fix m u
    show "sp_content (si_abs si') m u = sp_content (sp_drop P (si_abs si)) m u"
      using f(3) [of m _ u] nss(2) [of m]
      by (cases "map_of (namespaces si) m") (auto simp: si'_def sp_drop_def contents_def)
  next
    fix u
    show "sp_owner (si_abs si') u = sp_owner (sp_drop P (si_abs si)) u"
      unfolding sp_drop_def si'_def using us [of u] by (auto simp: hm.get_del_all [OF D(2)])
  next
    fix m
    show "sp_dim (si_abs si') m = sp_dim (sp_drop P (si_abs si)) m"
      using f(2) [of m] nss(2) [of m]
      by (cases "map_of (namespaces si) m") (auto simp: si'_def sp_drop_def locked_dim_def)
  qed
qed

lemma hm_wf_map_ran [simp]: "hm_wf (AList.map_ran f m) = hm_wf m"
  by (simp add: AList.map_ran_def split_beta comp_def)

lemma contents_Some_iff:
  "contents si m u = Some e \<longleftrightarrow> (\<exists>ns. map_of (namespaces si) m = Some ns \<and> get_by_uuid ns u = Some e)"
  by (auto simp: contents_def split: option.splits)

lemma keeps_of_drop:
  assumes "si_struct si'" "si_abs si' = sp_drop P (si_abs si)"
  shows "si_wf si \<Longrightarrow> si_wf si'" "si_inv si \<Longrightarrow> si_inv si'"
  using assms by (auto simp: si_wf_def si_inv_def sp_drop_keeps)

subsection \<open>Expiry\<close>

lemma ex_entry_iff:
  assumes "ns_inv ns"
  shows "(\<exists>i e. map_of (entries ns) i = Some e \<and> P e \<and> u = ce_uuid e) \<longleftrightarrow>
    (\<exists>e. get_by_uuid ns u = Some e \<and> P e)"
proof
  assume "\<exists>i e. map_of (entries ns) i = Some e \<and> P e \<and> u = ce_uuid e"
  then show "\<exists>e. get_by_uuid ns u = Some e \<and> P e" using get_by_uuid_entry [OF assms] by blast
next
  assume "\<exists>e. get_by_uuid ns u = Some e \<and> P e"
  then show "\<exists>i e. map_of (entries ns) i = Some e \<and> P e \<and> u = ce_uuid e"
    by (auto simp: get_by_uuid_iff [OF assms])
qed

lemma collect_expired_uuids:
  assumes "ns_inv ns"
  shows "u \<in> fst ` set (fst (collect_expired_within now ns)) \<longleftrightarrow>
    (\<exists>e. get_by_uuid ns u = Some e \<and> expired now e)"
  unfolding ex_entry_iff [OF assms, symmetric] by (force simp: collect_expired_view(2) [OF assms])

lemma collect_expired_set:
  assumes "si_struct si"
  shows "(u, m) \<in> set (fst (collect_expired now si)) \<longleftrightarrow>
    (\<exists>e. contents si m u = Some e \<and> expired now e)"
proof -
  note D = si_structD [OF assms]
  have "(u, m) \<in> set (fst (collect_expired now si)) \<longleftrightarrow>
      (\<exists>ns. map_of (namespaces si) m = Some ns \<and> u \<in> fst ` set (fst (collect_expired_within now ns)))"
    by (force simp: collect_expired_def Let_def hm_in_iff [OF D(1), symmetric])
  also have "\<dots> \<longleftrightarrow> (\<exists>e. contents si m u = Some e \<and> expired now e)"
    unfolding contents_Some_iff using collect_expired_uuids [OF D(3)] by (metis (no_types, lifting))
  finally show ?thesis .
qed

lemma collect_expired_abs:
  assumes "si_struct si"
  shows "si_struct (snd (collect_expired now si))"
    and "si_abs (snd (collect_expired now si)) = sp_drop (\<lambda>_ _. expired now) (si_abs si)"
proof -
  note D = si_structD [OF assms]
  let ?nss = "AList.map_ran (\<lambda>_ ns. snd (collect_expired_within now ns)) (namespaces si)"
  let ?us = "map fst (fst (collect_expired now si))"
  have us: "u \<in> set ?us \<longleftrightarrow> (\<exists>m e. contents si m u = Some e \<and> expired now e)" for u
    using collect_expired_set [OF assms, of u] by force
  have eq: "snd (collect_expired now si) = si\<lparr> namespaces := ?nss,
      uuid_to_namespace := fold hm_remove ?us (uuid_to_namespace si) \<rparr>"
    by (simp add: collect_expired_def Let_def)
  note B = bulk_drop [OF assms, of ?nss "\<lambda>_ ns. snd (collect_expired_within now ns)" "\<lambda>_ _. expired now" ?us,
      folded eq]
  show "si_struct (snd (collect_expired now si))"
    "si_abs (snd (collect_expired now si)) = sp_drop (\<lambda>_ _. expired now) (si_abs si)"
    by (rule B; simp add: D us [simplified] ns_inv_collect_expired collect_expired_view)+
qed

lemmas collect_expired_keeps = keeps_of_drop [OF collect_expired_abs]

subsection \<open>LRU eviction\<close>

lemma evict_ns_done: "ns_entry_count ns \<le> n \<Longrightarrow> evict_ns n m ns = ([], ns)"
  by (simp add: evict_ns.simps)

lemma evict_ns_step:
  assumes inv: "ns_inv ns" and more: "n < ns_entry_count ns"
  obtains i e ns1 where "map_of (entries ns) i = Some e"
    and "\<And>j e'. map_of (entries ns) j = Some e' \<Longrightarrow> lru_key (i, e) \<le> lru_key (j, e')"
    and "evict_ns n m ns = (\<lparr> ee_uuid = ce_uuid e, ee_model_id = m \<rparr> # fst (evict_ns n m ns1), snd (evict_ns n m ns1))"
    and "ns_inv ns1" and "Suc (ns_entry_count ns1) = ns_entry_count ns"
    and "get_by_uuid ns1 = (get_by_uuid ns)(ce_uuid e := None)"
    and "map_of (entries ns1) = (map_of (entries ns))(i := None)" and "dimension ns1 = dimension ns"
proof -
  from more have ne: "entries ns \<noteq> []" by (auto simp: ns_entry_count_def)
  obtain i e where i: "map_of (entries ns) i = Some e"
      "\<And>j e'. map_of (entries ns) j = Some e' \<Longrightarrow> lru_key (i, e) \<le> lru_key (j, e')"
      "fst (evict_lru m ns) = Some \<lparr> ee_uuid = ce_uuid e, ee_model_id = m \<rparr>"
      "get_by_uuid (snd (evict_lru m ns)) = (get_by_uuid ns)(ce_uuid e := None)"
      "snd (evict_lru m ns) = snd (drop_entry i ns)"
    using evict_lru_view [OF inv ne, of m] by metis
  have ev: "evict_lru m ns = (Some \<lparr> ee_uuid = ce_uuid e, ee_model_id = m \<rparr>, snd (evict_lru m ns))"
    using i(3) by (metis prod.collapse)
  have "evict_ns n m ns = (\<lparr> ee_uuid = ce_uuid e, ee_model_id = m \<rparr> # fst (evict_ns n m (snd (evict_lru m ns))),
      snd (evict_ns n m (snd (evict_lru m ns))))"
    using more by (subst evict_ns.simps, subst ev) (simp add: split_beta)
  moreover have "Suc (ns_entry_count (snd (evict_lru m ns))) = ns_entry_count ns"
    using evict_lru_count [OF inv ne, of m] by (simp add: ns_entry_count_def)
  ultimately show thesis
    using that [of i e "snd (evict_lru m ns)"] i ns_inv_evict_lru [OF inv, of m] drop_entry_view [OF inv, of i]
    by simp
qed

lemma evict_ns_facts:
  assumes "ns_inv ns"
  shows "ns_inv (snd (evict_ns n m ns)) \<and> dimension (snd (evict_ns n m ns)) = dimension ns \<and>
    ns_entry_count (snd (evict_ns n m ns)) = min n (ns_entry_count ns) \<and>
    get_by_uuid (snd (evict_ns n m ns)) = get_by_uuid ns |` (- ee_uuid ` set (fst (evict_ns n m ns))) \<and>
    map_of (entries (snd (evict_ns n m ns))) \<subseteq>\<^sub>m map_of (entries ns) \<and>
    length (fst (evict_ns n m ns)) = ns_entry_count ns - n \<and>
    (\<forall>x \<in> set (fst (evict_ns n m ns)). ee_model_id x = m \<and> get_by_uuid ns (ee_uuid x) \<noteq> None)"
  using assms
proof (induction "ns_entry_count ns - n" arbitrary: ns)
  case 0
  then show ?case by (simp add: evict_ns_done)
next
  case (Suc k)
  then have "n < ns_entry_count ns" by simp
  then obtain i e ns1 where E: "map_of (entries ns) i = Some e"
      "evict_ns n m ns = (\<lparr> ee_uuid = ce_uuid e, ee_model_id = m \<rparr> # fst (evict_ns n m ns1), snd (evict_ns n m ns1))"
      "ns_inv ns1" "Suc (ns_entry_count ns1) = ns_entry_count ns"
      "get_by_uuid ns1 = (get_by_uuid ns)(ce_uuid e := None)"
      "map_of (entries ns1) = (map_of (entries ns))(i := None)" "dimension ns1 = dimension ns"
    using evict_ns_step [OF Suc.prems, of n m] by metis
  have k: "k = ns_entry_count ns1 - n" using Suc.hyps(2) E(4) by linarith
  note IH = Suc.hyps(1) [OF k E(3)]
  have u: "get_by_uuid ns (ce_uuid e) = Some e" by (rule get_by_uuid_entry [OF Suc.prems E(1)])
  have "map_of (entries (snd (evict_ns n m ns))) \<subseteq>\<^sub>m map_of (entries ns)"
    using IH E(2) map_le_trans [OF _ upd_None_map_le [of "map_of (entries ns)" i, folded E(6)]] by simp
  moreover have "get_by_uuid (snd (evict_ns n m ns)) =
      get_by_uuid ns |` (- ee_uuid ` set (fst (evict_ns n m ns)))"
    using IH E(2,5) by (auto simp: restrict_map_def fun_eq_iff)
  moreover have "ns_entry_count (snd (evict_ns n m ns)) = min n (ns_entry_count ns)"
    using IH E(2,4) \<open>n < ns_entry_count ns\<close> by simp
  moreover have "length (fst (evict_ns n m ns)) = ns_entry_count ns - n"
    using IH E(2,4) \<open>n < ns_entry_count ns\<close> by simp
  moreover have "\<forall>x \<in> set (fst (evict_ns n m ns)). ee_model_id x = m \<and> get_by_uuid ns (ee_uuid x) \<noteq> None"
    using IH E(2,5) u by (auto split: if_splits)
  ultimately show ?case using IH E(2,7) by simp
qed

text \<open>What is evicted was used no later than anything that stays.\<close>

lemma evict_ns_lru:
  assumes "ns_inv ns" and "map_of (entries ns) i = Some e" and "map_of (entries ns) j = Some e'"
    and "ce_uuid e \<in> ee_uuid ` set (fst (evict_ns n m ns))"
    and "ce_uuid e' \<notin> ee_uuid ` set (fst (evict_ns n m ns))"
  shows "lru_key (i, e) \<le> lru_key (j, e')"
  using assms
proof (induction "ns_entry_count ns - n" arbitrary: ns)
  case 0
  then show ?case by (simp add: evict_ns_done)
next
  case (Suc k)
  then have "n < ns_entry_count ns" by simp
  then obtain v ev ns1 where E: "map_of (entries ns) v = Some ev"
      "\<And>j e'. map_of (entries ns) j = Some e' \<Longrightarrow> lru_key (v, ev) \<le> lru_key (j, e')"
      "evict_ns n m ns = (\<lparr> ee_uuid = ce_uuid ev, ee_model_id = m \<rparr> # fst (evict_ns n m ns1), snd (evict_ns n m ns1))"
      "ns_inv ns1" "Suc (ns_entry_count ns1) = ns_entry_count ns"
      "map_of (entries ns1) = (map_of (entries ns))(v := None)"
    using evict_ns_step [OF Suc.prems(1), of n m] by metis
  have k: "k = ns_entry_count ns1 - n" using Suc.hyps(2) E(5) by linarith
  note uniq = ns_inv_entry_uuid [OF Suc.prems(1)]
  show ?case
  proof (cases "i = v")
    case True
    then show ?thesis using E(1,2) Suc.prems(2,3) by simp
  next
    case False
    then have "ce_uuid e \<noteq> ce_uuid ev" using uniq [OF E(1)] uniq [OF Suc.prems(2)] by auto
    moreover have "j \<noteq> v" using Suc.prems(3,5) E(1,3) by auto
    ultimately show ?thesis
      using Suc.hyps(1) [OF k E(4)] False Suc.prems(2-5) E(3,6) by auto
  qed
qed

text \<open>\<open>evict_to_cap\<close> drops the UUIDs it reports, from the namespace it reports them for.\<close>

definition evicted_from :: "nat \<Rightarrow> semantic_index \<Rightarrow> string \<Rightarrow> string set" where
  "evicted_from n si m = ee_uuid ` {x \<in> set (fst (evict_to_cap n si)). ee_model_id x = m}"

lemma evicted_from_eq:
  assumes "si_struct si"
  shows "evicted_from n si m =
    (case map_of (namespaces si) m of None \<Rightarrow> {} | Some ns \<Rightarrow> ee_uuid ` set (fst (evict_ns n m ns)))"
proof -
  note D = si_structD [OF assms]
  have "x \<in> set (fst (evict_to_cap n si)) \<and> ee_model_id x = m \<longleftrightarrow>
      (\<exists>ns. map_of (namespaces si) m = Some ns \<and> x \<in> set (fst (evict_ns n m ns)))" for x
  proof -
    have "ee_model_id x = k" if "map_of (namespaces si) k = Some ns" "x \<in> set (fst (evict_ns n k ns))" for k ns
      using evict_ns_facts [OF D(3) [OF that(1)], of n k] that(2) by blast
    moreover have "x \<in> set (fst (evict_to_cap n si)) \<longleftrightarrow>
        (\<exists>k ns. map_of (namespaces si) k = Some ns \<and> x \<in> set (fst (evict_ns n k ns)))"
      by (force simp: evict_to_cap_def Let_def hm_in_iff [OF D(1), symmetric])
    ultimately show ?thesis by blast
  qed
  then have "{x \<in> set (fst (evict_to_cap n si)). ee_model_id x = m} =
      {x. \<exists>ns. map_of (namespaces si) m = Some ns \<and> x \<in> set (fst (evict_ns n m ns))}" by blast
  then show ?thesis by (auto simp: evicted_from_def split: option.split)
qed

lemma evict_to_cap_uuids:
  assumes "si_struct si"
  shows "u \<in> ee_uuid ` set (fst (evict_to_cap n si)) \<longleftrightarrow>
    (\<exists>m e. contents si m u = Some e \<and> u \<in> evicted_from n si m)"
proof
  assume "u \<in> ee_uuid ` set (fst (evict_to_cap n si))"
  then obtain m where m: "u \<in> evicted_from n si m" by (auto simp: evicted_from_def)
  then obtain ns where ns: "map_of (namespaces si) m = Some ns" "u \<in> ee_uuid ` set (fst (evict_ns n m ns))"
    by (auto simp: evicted_from_eq [OF assms] split: option.splits)
  then have "get_by_uuid ns u \<noteq> None"
    using evict_ns_facts [OF si_structD(3) [OF assms ns(1)], of n m] by blast
  with ns(1) m show "\<exists>m e. contents si m u = Some e \<and> u \<in> evicted_from n si m"
    by (auto simp: contents_Some_iff)
qed (auto simp: evicted_from_def)

lemma evict_to_cap_abs:
  assumes "si_struct si"
  shows "si_struct (snd (evict_to_cap n si))"
    and "si_abs (snd (evict_to_cap n si)) = sp_drop (\<lambda>m u _. u \<in> evicted_from n si m) (si_abs si)"
proof -
  note D = si_structD [OF assms]
  let ?nss = "AList.map_ran (\<lambda>m ns. snd (evict_ns n m ns)) (namespaces si)"
  let ?us = "map ee_uuid (fst (evict_to_cap n si))"
  have us: "u \<in> set ?us \<longleftrightarrow> (\<exists>m e. contents si m u = Some e \<and> u \<in> evicted_from n si m)" for u
    using evict_to_cap_uuids [OF assms, of u n] by simp
  have eq: "snd (evict_to_cap n si) = si\<lparr> namespaces := ?nss,
      uuid_to_namespace := fold hm_remove ?us (uuid_to_namespace si) \<rparr>"
    by (simp add: evict_to_cap_def Let_def)
  note F = evict_ns_facts [OF D(3), of _ _ n]
  note B = bulk_drop [OF assms, of ?nss "\<lambda>m ns. snd (evict_ns n m ns)" "\<lambda>m u _. u \<in> evicted_from n si m" ?us,
      folded eq]
  show "si_struct (snd (evict_to_cap n si))"
    "si_abs (snd (evict_to_cap n si)) = sp_drop (\<lambda>m u _. u \<in> evicted_from n si m) (si_abs si)"
    by (rule B; simp add: D us [simplified] F evicted_from_eq [OF assms] restrict_map_def split: option.split)+
qed

lemmas evict_to_cap_keeps = keeps_of_drop [OF evict_to_cap_abs]

lemma evict_to_cap_count:
  assumes "si_struct si" and "map_of (namespaces (snd (evict_to_cap n si))) m = Some ns'"
  obtains ns where "map_of (namespaces si) m = Some ns" "ns_entry_count ns' = min n (ns_entry_count ns)"
proof -
  from assms(2) obtain ns where ns: "map_of (namespaces si) m = Some ns" "ns' = snd (evict_ns n m ns)"
    by (auto simp: evict_to_cap_def Let_def)
  with evict_ns_facts [OF si_structD(3) [OF assms(1) ns(1)], of n m] that show thesis by blast
qed

lemma evict_to_cap_namespace:
  assumes "si_struct si" and "map_of (namespaces si) m = Some ns"
  shows "\<exists>ns'. map_of (namespaces (snd (evict_to_cap n si))) m = Some ns' \<and>
    ns_entry_count ns' = min n (ns_entry_count ns)"
  using assms evict_ns_facts [OF si_structD(3) [OF assms], of n m] by (simp add: evict_to_cap_def Let_def)

text \<open>Least recently used, and on a tie inserted first, goes first.\<close>

lemma evicted_before_kept:
  assumes st: "si_struct si" and "contents si m u = Some e" "u \<in> evicted_from n si m"
    and "contents si m u' = Some e'" "u' \<notin> evicted_from n si m"
  shows "(ce_last_accessed_at e, ce_inserted_at e) \<le> (ce_last_accessed_at e', ce_inserted_at e')"
proof -
  obtain ns where ns: "map_of (namespaces si) m = Some ns"
      "get_by_uuid ns u = Some e" "get_by_uuid ns u' = Some e'"
    using assms(2,4) by (auto simp: contents_Some_iff)
  note inv = si_structD(3) [OF st ns(1)]
  from ns(2,3) obtain i j where "map_of (entries ns) i = Some e" "map_of (entries ns) j = Some e'"
      "ce_uuid e = u" "ce_uuid e' = u'" by (auto simp: get_by_uuid_iff [OF inv])
  with evict_ns_lru [OF inv, of i e j e' n m] have "lru_key (i, e) \<le> lru_key (j, e')"
    using assms(3,5) ns(1) by (simp add: evicted_from_eq [OF st])
  then show ?thesis by (auto simp: lru_key_def)
qed

subsection \<open>Invalidation by similarity\<close>

definition similar_to :: "f32 list \<Rightarrow> flt \<Rightarrow> u64 \<Rightarrow> cache_entry \<Rightarrow> bool" where
  "similar_to emb th now e \<longleftrightarrow>
     \<not> expired now e \<and> flt_le th (cosine_similarity emb (ce_embedding e))"

lemma find_similar_ids:
  assumes "ns_inv ns"
  shows "i \<in> fst ` set (ns_find_similar emb th now ns) \<longleftrightarrow>
    (\<exists>e. map_of (entries ns) i = Some e \<and> similar_to emb th now e)"
proof -
  note D = ns_invD [OF assms]
  have "(i, e) \<in> set (entries ns) \<and> i \<notin> set (evicted_ids ns) \<longleftrightarrow> map_of (entries ns) i = Some e" for e
    using ns_inv_ghost [OF assms, of i] by (auto simp: hm_in_iff [OF ns_inv_wf(1) [OF assms]])
  then show ?thesis
    by (fastforce simp: ns_find_similar_def similar_to_def image_iff)
qed

lemma distinct_similar_ids: "ns_inv ns \<Longrightarrow> distinct (map fst (ns_find_similar emb th now ns))"
  using hm_wf_filter [OF ns_inv_wf(1) [of ns]] by (simp add: ns_find_similar_def comp_def split_beta)

lemma invalidate_eq:
  fixes emb th now
  assumes "si_struct si" and ns: "map_of (namespaces si) m = Some ns"
  defines "removed \<equiv> fst (drop_ids (map fst (ns_find_similar emb th now ns)) ns)"
  shows "invalidate_similar emb th m now si = (map fst removed,
      si\<lparr> namespaces := AList.update m (snd (drop_ids (map fst (ns_find_similar emb th now ns)) ns)) (namespaces si),
          uuid_to_namespace := fold hm_remove (map fst removed) (uuid_to_namespace si) \<rparr>)"
    and "u \<in> fst ` set removed \<longleftrightarrow> (\<exists>e. get_by_uuid ns u = Some e \<and> similar_to emb th now e)"
proof -
  note inv = si_structD(3) [OF assms(1) ns]
  let ?ids = "map fst (ns_find_similar emb th now ns)"
  show "invalidate_similar emb th m now si = (map fst removed,
      si\<lparr> namespaces := AList.update m (snd (drop_ids (map fst (ns_find_similar emb th now ns)) ns)) (namespaces si),
          uuid_to_namespace := fold hm_remove (map fst removed) (uuid_to_namespace si) \<rparr>)"
    using ns by (simp add: invalidate_similar_def removed_def split_beta)
  have "set removed = {(ce_uuid e, i) | i e. map_of (entries ns) i = Some e \<and> similar_to emb th now e}"
    using drop_pred_view(2) [OF inv distinct_similar_ids [OF inv]] find_similar_ids [OF inv]
    by (simp add: removed_def)
  then show "u \<in> fst ` set removed \<longleftrightarrow> (\<exists>e. get_by_uuid ns u = Some e \<and> similar_to emb th now e)"
    unfolding ex_entry_iff [OF inv, symmetric] by (simp add: image_iff) blast
qed

lemma invalidate_similar_set:
  assumes "si_struct si"
  shows "u \<in> set (fst (invalidate_similar emb th m now si)) \<longleftrightarrow>
    (\<exists>e. contents si m u = Some e \<and> similar_to emb th now e)"
proof (cases "map_of (namespaces si) m")
  case None
  then show ?thesis by (simp add: invalidate_similar_def contents_def)
next
  case (Some ns)
  then show ?thesis using invalidate_eq [OF assms Some, where emb = emb and th = th and now = now]
    by (simp add: contents_def)
qed

lemma invalidate_similar_abs:
  assumes "si_struct si"
  shows "si_struct (snd (invalidate_similar emb th m now si))"
    and "si_abs (snd (invalidate_similar emb th m now si)) =
      sp_drop (\<lambda>k _ e. k = m \<and> similar_to emb th now e) (si_abs si)"
proof (atomize (full), cases "map_of (namespaces si) m")
  case None
  then have "sp_drop (\<lambda>k _ e. k = m \<and> similar_to emb th now e) (si_abs si) = si_abs si"
    by (intro cache_spec_eqI)
      (auto simp: sp_drop_def contents_def fun_eq_iff split: option.splits)
  with None assms show "si_struct (snd (invalidate_similar emb th m now si)) \<and>
      si_abs (snd (invalidate_similar emb th m now si)) =
        sp_drop (\<lambda>k _ e. k = m \<and> similar_to emb th now e) (si_abs si)"
    by (simp add: invalidate_similar_def)
next
  case (Some ns)
  note D = si_structD [OF assms] and inv = si_structD(3) [OF assms Some]
  let ?ids = "map fst (ns_find_similar emb th now ns)"
  let ?P = "\<lambda>k (_ :: string) e. k = m \<and> similar_to emb th now e"
  let ?f = "\<lambda>k ns'. if k = m then snd (drop_ids ?ids ns) else ns'"
  let ?nss = "AList.update m (snd (drop_ids ?ids ns)) (namespaces si)"
  let ?us = "fst (invalidate_similar emb th m now si)"
  have us: "u \<in> set ?us \<longleftrightarrow> (\<exists>k e. contents si k u = Some e \<and> ?P k u e)" for u
    using invalidate_similar_set [OF assms] by blast
  have eq: "snd (invalidate_similar emb th m now si) = si\<lparr> namespaces := ?nss,
      uuid_to_namespace := fold hm_remove ?us (uuid_to_namespace si) \<rparr>"
    using invalidate_eq(1) [OF assms Some] by simp
  note V = drop_pred_view [OF inv distinct_similar_ids [OF inv, of emb th now],
      of "similar_to emb th now", simplified, OF find_similar_ids [OF inv, of _ emb th now, simplified]]
  have "hm_wf ?nss" using D(1) by simp
  moreover have "map_of ?nss k = map_option (?f k) (map_of (namespaces si) k)" for k
    using Some by (cases "map_of (namespaces si) k") auto
  moreover have "ns_inv (?f k n')" "dimension (?f k n') = dimension n'" and
      "get_by_uuid (?f k n') u = (case get_by_uuid n' u of None \<Rightarrow> None | Some e \<Rightarrow> if ?P k u e then None else Some e)"
    if "map_of (namespaces si) k = Some n'" for k n' u
    using that Some D(3) ns_inv_drop_ids [OF inv] V by (auto split: option.split)
  ultimately show "si_struct (snd (invalidate_similar emb th m now si)) \<and>
      si_abs (snd (invalidate_similar emb th m now si)) = sp_drop ?P (si_abs si)"
    unfolding eq using bulk_drop [OF assms, of ?nss ?f ?P ?us] us by blast
qed

lemmas invalidate_similar_keeps = keeps_of_drop [OF invalidate_similar_abs]

section \<open>Rebuild, prune and snapshots\<close>

lemma rebuild_dirty_abs:
  assumes "si_struct si"
  shows "si_struct (snd (rebuild_dirty_namespaces si))"
    and "si_abs (snd (rebuild_dirty_namespaces si)) = si_abs si"
proof -
  note D = si_structD [OF assms]
  let ?f = "\<lambda>(m::string) ns. if needs_rebuild ns then rebuild ns else ns"
  have f: "ns_inv (?f m ns)" "get_by_uuid (?f m ns) = get_by_uuid ns" "dimension (?f m ns) = dimension ns"
    if "map_of (namespaces si) m = Some ns" for m ns
    using D(3) [OF that] by (auto simp: ns_inv_rebuild rebuild_view)
  show "si_struct (snd (rebuild_dirty_namespaces si))"
    using D f(1) by (intro si_structI) (auto simp: rebuild_dirty_namespaces_def)
  show "si_abs (snd (rebuild_dirty_namespaces si)) = si_abs si"
  proof (intro cache_spec_eqI ext)
    fix m u
    show "sp_content (si_abs (snd (rebuild_dirty_namespaces si))) m u = sp_content (si_abs si) m u"
      using f(2) [of m] by (cases "map_of (namespaces si) m")
        (auto simp: rebuild_dirty_namespaces_def contents_map_ran contents_def)
    show "sp_dim (si_abs (snd (rebuild_dirty_namespaces si))) m = sp_dim (si_abs si) m"
      by (cases "map_of (namespaces si) m")
        (auto simp: rebuild_dirty_namespaces_def locked_dim_map_ran locked_dim_def)
  qed (simp add: rebuild_dirty_namespaces_def)
qed

lemma rebuild_dirty_keeps:
  "si_wf si \<Longrightarrow> si_wf (snd (rebuild_dirty_namespaces si))"
  "si_inv si \<Longrightarrow> si_inv (snd (rebuild_dirty_namespaces si))"
  by (auto simp: si_inv_def si_wf_def rebuild_dirty_abs)

lemma prune_names:
  assumes "si_struct si"
  shows "m \<in> set (fst (prune_empty_namespaces si)) \<longleftrightarrow>
    (\<exists>ns. map_of (namespaces si) m = Some ns \<and> prunable (m, ns))"
  by (force simp: prune_empty_namespaces_def Let_def hm_in_iff [OF si_structD(1) [OF assms], symmetric])

lemma prune_namespaces:
  assumes "si_struct si"
  shows "map_of (namespaces (snd (prune_empty_namespaces si))) m =
    (if m \<in> set (fst (prune_empty_namespaces si)) then None else map_of (namespaces si) m)"
  by (simp add: prune_empty_namespaces_def Let_def hm.get_del_all [OF si_structD(1) [OF assms]])

lemma prune_abs:
  assumes "si_struct si"
  shows "si_struct (snd (prune_empty_namespaces si))"
    and "si_abs (snd (prune_empty_namespaces si)) =
      (si_abs si)\<lparr> sp_dim := locked_dim si |` (- set (fst (prune_empty_namespaces si))) \<rparr>"
proof -
  note D = si_structD [OF assms]
  let ?si = "snd (prune_empty_namespaces si)"
  have un: "uuid_to_namespace ?si = uuid_to_namespace si" by (simp add: prune_empty_namespaces_def Let_def)
  have "hm_wf (namespaces ?si)" by (simp add: prune_empty_namespaces_def Let_def hm.wf_del_all D(1))
  then show "si_struct ?si"
    using D un by (intro si_structI) (auto simp: prune_namespaces [OF assms] split: if_splits)
  have "contents si m = Map.empty" if "m \<in> set (fst (prune_empty_namespaces si))" for m
    using that by (auto simp: prune_names [OF assms] prunable_def contents_def get_by_uuid_def
        fun_eq_iff split: option.split)
  then have "contents ?si m = contents si m" for m
    by (cases "m \<in> set (fst (prune_empty_namespaces si))")
      (simp_all add: contents_def [of ?si] prune_namespaces [OF assms], simp add: contents_def)
  then show "si_abs ?si = (si_abs si)\<lparr> sp_dim := locked_dim si |` (- set (fst (prune_empty_namespaces si))) \<rparr>"
    by (intro cache_spec_eqI ext)
      (auto simp: un locked_dim_def prune_namespaces [OF assms] restrict_map_def)
qed

lemma sp_keeps_dim [simp]:
  "sp_sound (s\<lparr> sp_dim := d \<rparr>) = sp_sound s" "sp_complete (s\<lparr> sp_dim := d \<rparr>) = sp_complete s"
  by (simp_all add: sp_sound_def sp_complete_def)

lemma prune_keeps:
  "si_wf si \<Longrightarrow> si_wf (snd (prune_empty_namespaces si))"
  "si_inv si \<Longrightarrow> si_inv (snd (prune_empty_namespaces si))"
  by (simp_all add: si_inv_def si_wf_def prune_abs)

lemma get_entry_by_uuid_eq:
  assumes "si_wf si"
  shows "get_entry_by_uuid si u =
    (case namespace_for si u of None \<Rightarrow> None | Some m \<Rightarrow> map_option (to_full m) (contents si m u))"
  by (simp add: get_entry_by_uuid_def namespace_for_def contents_def split: option.split)

subsection \<open>Filling an index\<close>

definition sp_fill :: "(string \<times> cache_entry) list \<Rightarrow> cache_spec \<Rightarrow> cache_spec" where
  "sp_fill = fold (\<lambda>(m, e) s. snd (sp_insert m e s))"

lemma sp_fill_simps [simp]:
  "sp_fill [] s = s" "sp_fill ((m, e) # ps) s = sp_fill ps (snd (sp_insert m e s))"
  by (simp_all add: sp_fill_def)

text \<open>
  Inserting entries with new, different UUIDs, whose lengths agree with the dimensions \<open>d\<close> of their
  namespaces, accepts and keeps every one of them.
\<close>

lemma sp_fill_all:
  assumes "sp_sound s" "sp_complete s" "distinct (map (ce_uuid \<circ> snd) ps)"
    and "\<And>m e. (m, e) \<in> set ps \<Longrightarrow> sp_owner s (ce_uuid e) = None"
    and "\<And>m e. (m, e) \<in> set ps \<Longrightarrow> length (ce_embedding e) = d m"
    and "\<And>m. m \<in> fst ` set ps \<Longrightarrow> sp_dim s m = None \<or> sp_dim s m = Some (d m)"
  shows "sp_sound (sp_fill ps s) \<and> sp_complete (sp_fill ps s) \<and>
    (\<forall>m u e. sp_content (sp_fill ps s) m u = Some e \<longleftrightarrow>
       sp_content s m u = Some e \<or> (m, e) \<in> set ps \<and> ce_uuid e = u) \<and>
    (\<forall>m. sp_dim (sp_fill ps s) m = (if m \<in> fst ` set ps then Some (d m) else sp_dim s m))"
  using assms
proof (induction ps arbitrary: s)
  case Nil
  then show ?case by simp
next
  case (Cons p ps)
  obtain m e where p: "p = (m, e)" by (cases p)
  let ?s = "snd (sp_insert m e s)"
  have own: "sp_owner s (ce_uuid e) = None" and len: "length (ce_embedding e) = d m"
    and dim: "sp_dim s m = None \<or> sp_dim s m = Some (d m)"
    using Cons.prems(4,5,6) [of m] Cons.prems(4,5) [of m e] by (auto simp: p)
  have none: "sp_content s k (ce_uuid e) = None" for k
    using Cons.prems(2) own unfolding sp_complete_def by fastforce
  have acc: "sp_accepts m e s" using dim len by (auto simp: sp_accepts_def)
  have s': "?s = s\<lparr> sp_content := (sp_content s)(m := (sp_content s m)(ce_uuid e \<mapsto> e)),
      sp_owner := (sp_owner s)(ce_uuid e \<mapsto> m), sp_dim := (sp_dim s)(m \<mapsto> d m) \<rparr>"
    using acc none len by (simp add: sp_insert_def)
  have ih: "sp_sound (sp_fill ps ?s) \<and> sp_complete (sp_fill ps ?s) \<and>
    (\<forall>m u e. sp_content (sp_fill ps ?s) m u = Some e \<longleftrightarrow>
       sp_content ?s m u = Some e \<or> (m, e) \<in> set ps \<and> ce_uuid e = u) \<and>
    (\<forall>m. sp_dim (sp_fill ps ?s) m = (if m \<in> fst ` set ps then Some (d m) else sp_dim ?s m))"
  proof (rule Cons.IH)
    show "sp_sound ?s" "sp_complete ?s"
      using Cons.prems(1,2) own sp_sound_insert sp_complete_insert by auto
    show "distinct (map (ce_uuid \<circ> snd) ps)" using Cons.prems(3) by (simp add: comp_def)
    show "length (ce_embedding e') = d m'" if "(m', e') \<in> set ps" for m' e'
      using Cons.prems(5) that by simp
    show "sp_owner ?s (ce_uuid e') = None" if "(m', e') \<in> set ps" for m' e'
      using Cons.prems(3,4) that by (force simp: s' p)
    show "sp_dim ?s k = None \<or> sp_dim ?s k = Some (d k)" if "k \<in> fst ` set ps" for k
      using Cons.prems(6) [of k] that by (auto simp: s')
  qed
  have c: "sp_content ?s k u = Some x \<longleftrightarrow> sp_content s k u = Some x \<or> k = m \<and> x = e \<and> u = ce_uuid e" for k u x
    using none [of m] by (auto simp: s')
  have "(\<forall>k u x. sp_content (sp_fill (p # ps) s) k u = Some x \<longleftrightarrow>
       sp_content s k u = Some x \<or> (k, x) \<in> set (p # ps) \<and> ce_uuid x = u)"
    using ih unfolding c p sp_fill_simps set_simps insert_iff prod.inject by blast
  moreover have "\<forall>k. sp_dim (sp_fill (p # ps) s) k = (if k \<in> fst ` set (p # ps) then Some (d k) else sp_dim s k)"
    using ih by (auto simp: p s')
  ultimately show ?case using ih by (simp add: p)
qed

section \<open>Replaying operations\<close>

text \<open>
  A component that replays a log only needs each operation to keep an invariant and to commute
  with the abstraction; then the whole replay does.
\<close>

locale functional_refinement =
  fixes inv :: "'s \<Rightarrow> bool" and abs :: "'s \<Rightarrow> 'a"
    and cstep :: "'op \<Rightarrow> 's \<Rightarrow> 's" and astep :: "'op \<Rightarrow> 'a \<Rightarrow> 'a"
  assumes step_inv: "inv s \<Longrightarrow> inv (cstep op s)"
    and step_abs: "inv s \<Longrightarrow> abs (cstep op s) = astep op (abs s)"
begin

lemma replay_inv: "inv s \<Longrightarrow> inv (fold cstep ops s)"
  by (induction ops arbitrary: s) (auto simp: step_inv)

lemma replay_abs: "inv s \<Longrightarrow> abs (fold cstep ops s) = fold astep ops (abs s)"
  by (induction ops arbitrary: s) (auto simp: step_inv step_abs)

lemma replay_append: "fold cstep (ops @ ops') s = fold cstep ops' (fold cstep ops s)"
  by simp

end

definition sp_replay :: "wal_entry \<Rightarrow> cache_spec \<Rightarrow> cache_spec" where
  "sp_replay w s = (if we_tombstone w then snd (sp_remove (we_uuid w) s)
     else snd (sp_insert (we_model_id w) (wal_to_cache w) s))"

definition sp_replay_snapshot :: "snapshot_entry \<Rightarrow> cache_spec \<Rightarrow> cache_spec" where
  "sp_replay_snapshot r s = snd (sp_insert (se_model_id r) (snap_to_cache r) s)"

interpretation wal_replay: functional_refinement si_wf si_abs "\<lambda>w. snd \<circ> replay_entry w" sp_replay
  by unfold_locales
    (auto simp: replay_entry_def sp_replay_def si_wf_remove si_wf_insert_into si_remove_abs
      insert_into_abs si_wf_struct split_beta)

interpretation snapshot_replay: functional_refinement si_wf si_abs
    "\<lambda>r. snd \<circ> replay_snapshot_entry r" sp_replay_snapshot
  by unfold_locales
    (auto simp: replay_snapshot_entry_def sp_replay_snapshot_def si_wf_insert_into insert_into_abs
      si_wf_struct)

lemma replay_entry_result:
  assumes "si_wf si"
  shows "fst (replay_entry w si) =
    (if we_tombstone w then Inr () else fst (sp_insert (we_model_id w) (wal_to_cache w) (si_abs si)))"
  using insert_into_abs(1) [OF si_wf_struct [OF assms]] by (simp add: replay_entry_def split_beta)

text \<open>The snapshot lists every live entry once, with its namespace.\<close>

definition live_pairs :: "semantic_index \<Rightarrow> (string \<times> cache_entry) list" where
  "live_pairs si = concat (map (\<lambda>(m, ns). map (\<lambda>(_, e). (m, e)) (entries ns)) (namespaces si))"

lemma snapshot_entries_eq: "snapshot_entries si = map (\<lambda>(m, e). cache_to_snap m e) (live_pairs si)"
  by (simp add: snapshot_entries_def live_pairs_def map_concat comp_def case_prod_unfold)

lemma snap_to_cache_to_snap [simp]: "snap_to_cache (cache_to_snap m e) = e"
  by (simp add: snap_to_cache_def cache_to_snap_def)

lemma se_model_id_cache_to_snap: "se_model_id (cache_to_snap m e) = m"
  by (simp add: cache_to_snap_def)

lemma set_live_pairs:
  assumes "si_struct si"
  shows "(m, e) \<in> set (live_pairs si) \<longleftrightarrow> contents si m (ce_uuid e) = Some e"
proof -
  note D = si_structD [OF assms]
  have "(m, e) \<in> set (live_pairs si) \<longleftrightarrow>
      (\<exists>ns i. map_of (namespaces si) m = Some ns \<and> (i, e) \<in> set (entries ns))"
    by (force simp: live_pairs_def hm_in_iff [OF D(1), symmetric])
  also have "\<dots> \<longleftrightarrow> (\<exists>ns. map_of (namespaces si) m = Some ns \<and> get_by_uuid ns (ce_uuid e) = Some e)"
  proof (intro ex_cong1)
    fix ns
    show "(\<exists>i. map_of (namespaces si) m = Some ns \<and> (i, e) \<in> set (entries ns)) \<longleftrightarrow>
        (map_of (namespaces si) m = Some ns \<and> get_by_uuid ns (ce_uuid e) = Some e)"
    proof (cases "map_of (namespaces si) m = Some ns")
      case True
      note inv = D(3) [OF True]
      show ?thesis using True ns_inv_entry_uuid [OF inv]
        by (auto simp: get_by_uuid_iff [OF inv] hm_in_iff [OF ns_inv_wf(1) [OF inv]])
    qed simp
  qed
  finally show ?thesis by (simp add: contents_Some_iff)
qed

lemma distinct_live_uuids:
  assumes "si_inv si"
  shows "distinct (map (ce_uuid \<circ> snd) (live_pairs si))"
proof -
  note st = si_wf_struct [OF si_inv_wf [OF assms]]
  note D = si_structD [OF st]
  have own: "map_of (uuid_to_namespace si) (ce_uuid e) = Some m"
    if "map_of (namespaces si) m = Some ns" "(i, e) \<in> set (entries ns)" for m ns i e
  proof -
    note inv = D(3) [OF that(1)]
    have "contents si m (ce_uuid e) = Some e"
      using that get_by_uuid_entry [OF inv, of i e]
      by (simp add: contents_def hm_in_iff [OF ns_inv_wf(1) [OF inv]])
    then show ?thesis using assms unfolding si_inv_def sp_complete_def by auto
  qed
  have "distinct (map (ce_uuid \<circ> snd) (concat (map (\<lambda>(m, ns). map (\<lambda>(_, e). (m, e)) (entries ns)) nss)))"
    if "set nss \<subseteq> set (namespaces si)" "hm_wf nss" for nss
    using that
  proof (induction nss)
    case Nil
    then show ?case by simp
  next
    case (Cons p nss)
    obtain m ns where p: "p = (m, ns)" by (cases p)
    have ns: "map_of (namespaces si) m = Some ns" using Cons.prems(1) p D(1) by (simp add: hm_in_iff)
    have "ce_uuid e \<noteq> ce_uuid e'" if "(i, e) \<in> set (entries ns)" "(k, ns') \<in> set nss" "(j, e') \<in> set (entries ns')"
      for i e k ns' j e'
    proof -
      have "k \<noteq> m" using Cons.prems(2) that(2) p by force
      moreover have "map_of (namespaces si) k = Some ns'" using Cons.prems(1) that(2) D(1) by (auto simp: hm_in_iff)
      ultimately show ?thesis using own [OF ns that(1)] own [of k ns' j e'] that(3) by auto
    qed
    moreover have "distinct (map (ce_uuid \<circ> snd) (entries ns))"
      using distinct_entry_uuids [OF D(3) [OF ns]] .
    ultimately show ?case using Cons
      by (auto simp: p comp_def split_beta image_iff disjoint_iff)
  qed
  then show ?thesis using D(1) by (simp add: live_pairs_def)
qed

lemma fold_snapshot_fill:
  "fold sp_replay_snapshot (map (\<lambda>(m, e). cache_to_snap m e) ps) s = sp_fill ps s"
  by (induction ps arbitrary: s) (auto simp: sp_replay_snapshot_def se_model_id_cache_to_snap)

text \<open>
  Loading what \<open>snapshot_entries\<close> wrote into an empty index gives back every entry and every
  owner; a namespace keeps its dimension when it holds an entry.
\<close>

lemma snapshot_reload:
  fixes cfg
  assumes "si_inv si"
  defines "si' \<equiv> fold (\<lambda>r. snd \<circ> replay_snapshot_entry r) (snapshot_entries si) (si_new cfg)"
  shows "contents si' = contents si" "namespace_for si' = namespace_for si"
    "locked_dim si' m = (if contents si m = Map.empty then None else locked_dim si m)" "si_inv si'"
proof -
  note wf = si_inv_wf [OF assms(1)]
  note st = si_wf_struct [OF wf]
  let ?s = "sp_fill (live_pairs si) sp_empty"
  have wf': "si_wf si'"
    unfolding si'_def using si_inv_wf [OF si_inv_new] by (rule snapshot_replay.replay_inv)
  have abs: "si_abs si' = ?s"
    unfolding si'_def snapshot_replay.replay_abs [OF si_inv_wf [OF si_inv_new]] si_abs_new
      snapshot_entries_eq fold_snapshot_fill ..
  have live: "(m, e) \<in> set (live_pairs si) \<longleftrightarrow> contents si m (ce_uuid e) = Some e" for m e
    by (rule set_live_pairs [OF st])
  have dim: "length (ce_embedding e) = the (locked_dim si m)" if "(m, e) \<in> set (live_pairs si)" for m e
    using that si_abs_keyed [OF st] by (auto simp: live sp_keyed_def)
  have "sp_sound sp_empty" "sp_complete sp_empty"
    by (simp_all add: sp_empty_def sp_sound_def sp_complete_def)
  note F = sp_fill_all [OF this distinct_live_uuids [OF assms(1)], of "the \<circ> locked_dim si"]
  have F': "sp_complete ?s" "sp_content ?s m u = Some e \<longleftrightarrow> (m, e) \<in> set (live_pairs si) \<and> ce_uuid e = u"
    "sp_dim ?s m = (if m \<in> fst ` set (live_pairs si) then Some (the (locked_dim si m)) else None)" for m u e
    using F dim by (auto simp: sp_empty_def)
  have keyed: "contents si m u = Some e \<Longrightarrow> ce_uuid e = u \<and> locked_dim si m = Some (length (ce_embedding e))" for m u e
    using si_abs_keyed [OF st] by (simp add: sp_keyed_def)
  have "contents si' m u = Some e \<longleftrightarrow> contents si m u = Some e" for m u e
    using F'(2) [of m u e] keyed [of m u e] by (auto simp: abs [symmetric] live)
  then show c: "contents si' = contents si" by (intro ext) (metis not_None_eq)
  show inv': "si_inv si'" using wf' F'(1) by (simp add: si_inv_def abs)
  note own = si_inv_owner_iff
  have "namespace_for si' u = Some m \<longleftrightarrow> namespace_for si u = Some m" for m u
    by (simp only: own [OF inv'] own [OF assms(1)] c)
  then show "namespace_for si' = namespace_for si" by (intro ext) (metis not_None_eq)
  have "m \<in> fst ` set (live_pairs si) \<longleftrightarrow> contents si m \<noteq> Map.empty"
  proof
    assume "m \<in> fst ` set (live_pairs si)"
    then show "contents si m \<noteq> Map.empty" by (auto simp: live)
  next
    assume "contents si m \<noteq> Map.empty"
    then obtain u e where e: "contents si m u = Some e" by (auto simp: fun_eq_iff)
    with keyed [OF e] have "(m, e) \<in> set (live_pairs si)" by (simp add: live)
    then show "m \<in> fst ` set (live_pairs si)" by force
  qed
  moreover have "locked_dim si m \<noteq> None" if "contents si m \<noteq> Map.empty"
    using that keyed [of m] by (auto simp: fun_eq_iff)
  ultimately show "locked_dim si' m = (if contents si m = Map.empty then None else locked_dim si m)"
    using F'(3) [of m] by (auto simp: abs [symmetric])
qed

section \<open>Queries\<close>

lemma si_query_hit:
  assumes "si_struct si" and "si_query_with_text search emb th m txt now si = Inr (Some h)"
  obtains ns e where "hm_get (namespaces si) m = Some ns" "contents si m (qh_id h) = Some e"
    "qh_response h = ce_response e" "\<not> expired now e" "map_of (entries ns) (qh_internal_id h) = Some e"
    "if qh_exact_match h
     then qh_similarity h = Fin 1 \<and>
       (\<exists>t. txt = Some t \<and> normalize_query_text t = normalize_query_text (ce_query_text e))
     else \<not> flt_lt (qh_similarity h) th"
proof -
  obtain ns where ns: "hm_get (namespaces si) m = Some ns"
    and hit: "ns_query_with_text search emb th txt now ns = Inr (Some h)"
    using assms(2) by (auto simp: si_query_with_text_def split: option.splits)
  from ns_query_hit_answer [OF si_structD(3) [OF assms(1) ns] hit] obtain e where "is_answer ns th txt now h e" ..
  with ns show thesis by (intro that [of ns e]) (simp_all add: is_answer_def contents_def)
qed

lemma query_two_level_eq:
  "query_two_level search emb th conv base txt now si =
     (case si_query_with_text search emb th conv txt now si of
        Inl err \<Rightarrow> Inl err
      | Inr (Some h) \<Rightarrow> Inr (Some h, conv, Some Conversation)
      | Inr None \<Rightarrow>
          (case si_query_with_text search emb th base txt now si of
             Inl err \<Rightarrow> Inl err
           | Inr (Some h) \<Rightarrow> Inr (Some h, base, Some Global)
           | Inr None \<Rightarrow> Inr (None, base, None)))"
  by (auto simp: query_two_level_def query_base_def si_query_with_text_def split: option.splits sum.splits)

lemma invalidate_spec:
  assumes "si_wf si"
  shows "set (fst (invalidate_similar emb th m now si)) =
      {u. \<exists>e. contents si m u = Some e \<and> \<not> expired now e \<and> flt_le th (cosine_similarity emb (ce_embedding e))} \<and>
    (\<forall>k u e. contents (snd (invalidate_similar emb th m now si)) k u = Some e \<longleftrightarrow>
       contents si k u = Some e \<and>
       \<not> (k = m \<and> \<not> expired now e \<and> flt_le th (cosine_similarity emb (ce_embedding e))))"
proof -
  note st = si_wf_struct [OF assms]
  have "contents (snd (invalidate_similar emb th m now si)) k u = Some e \<longleftrightarrow>
      contents si k u = Some e \<and> \<not> (k = m \<and> similar_to emb th now e)" for k u e
    using arg_cong [OF invalidate_similar_abs(2) [OF st, of emb th m now], of sp_content]
      sp_drop_sel(1) [of "\<lambda>k _ e. k = m \<and> similar_to emb th now e" "si_abs si" k u e] by simp
  then show ?thesis
    using invalidate_similar_set [OF st, of _ emb th m now] by (auto simp: similar_to_def)
qed

lemma si_insert_exact_hit:
  assumes "si_wf si" and "fst (insert_into m e si) = Inr ()" and "contents si m (ce_uuid e) = None"
    and "normalize_query_text t = normalize_query_text (ce_query_text e)" and "trim t \<noteq> []"
    and "\<not> expired now e"
  shows "\<exists>h. si_query_with_text search emb th m (Some t) now (snd (insert_into m e si)) = Inr (Some h) \<and>
    qh_id h = ce_uuid e \<and> qh_response h = ce_response e \<and> qh_similarity h = Fin 1 \<and> qh_exact_match h"
proof -
  let ?ns = "fst (namespace_mut m si)"
  note F = namespace_mut_facts [OF si_wf_struct [OF assms(1)], of m]
  have acc: "ns_accepts ?ns (ce_embedding e)"
    using assms(2) insert_into_abs(1) [OF si_wf_struct [OF assms(1)], of m e] F(3)
    by (auto simp: ns_accepts_def sp_insert_def sp_accepts_def split: if_splits)
  have "hm_get (namespaces (snd (insert_into m e si))) m = Some (snd (insert_with_uuid e ?ns))"
    by (simp add: insert_into_eq Let_def record_uuid_def)
  moreover have "get_by_uuid ?ns (ce_uuid e) = None" using F(2) assms(3) by simp
  ultimately show ?thesis
    using ns_insert_exact_hit [OF F(1) acc _ assms(4-6)] by (simp add: si_query_with_text_def)
qed

end
