(* ===== verification/Index_Machine.thy ===== *)
theory Index_Machine
  imports Semantic_Index_Correct Machines
begin

text \<open>
  The index as a state machine. Handlers, the flush task and the TTL reaper each take the write lock
  of the one \<open>SemanticIndex\<close> and run one operation, so every execution is a sequence of the steps
  below. A \<open>HashMap\<close> iterates in an order of its own that may differ between two traversals; the
  \<open>rehash\<close> step lets every hash table of the index change its order at any time.
\<close>

section \<open>Iteration order\<close>

definition ns_rehash :: "namespaced_index \<Rightarrow> namespaced_index \<Rightarrow> bool" where
  "ns_rehash ns ns' \<longleftrightarrow>
     mset (entries ns') = mset (entries ns) \<and> mset (uuid_to_internal ns') = mset (uuid_to_internal ns) \<and>
     mset (exact_match_index ns') = mset (exact_match_index ns) \<and>
     mset (evicted_ids ns') = mset (evicted_ids ns) \<and>
     hnsw ns' = hnsw ns \<and> next_id ns' = next_id ns \<and> dimension ns' = dimension ns \<and>
     ef_search ns' = ef_search ns \<and> evicted_fraction_rebuild ns' = evicted_fraction_rebuild ns"

text \<open>The namespaces may change their order too: \<open>nss\<close> is the reordered table with the old values.\<close>

definition si_rehash :: "semantic_index \<Rightarrow> semantic_index \<Rightarrow> bool" where
  "si_rehash si si' \<longleftrightarrow>
     (\<exists>nss. mset nss = mset (namespaces si) \<and>
        list_all2 (\<lambda>(m, ns) (m', ns'). m' = m \<and> ns_rehash ns ns') nss (namespaces si')) \<and>
     mset (uuid_to_namespace si') = mset (uuid_to_namespace si) \<and>
     si_hnsw_config si' = si_hnsw_config si"

lemma hm_wf_mset: "mset m' = mset m \<Longrightarrow> hm_wf m' = hm_wf m"
  by (metis mset_map distinct_count_atmost_1 mset_eq_imp_distinct_iff)

lemma map_of_mset:
  assumes "mset m' = mset m" and "hm_wf m"
  shows "map_of m' = map_of m"
proof
  fix k
  have "map_of m' k = Some v \<longleftrightarrow> map_of m k = Some v" for v
    using assms hm_in_iff [of m k v] hm_in_iff [of m' k v] hm_wf_mset [OF assms(1)] mset_eq_setD [OF assms(1)]
    by simp
  then show "map_of m' k = map_of m k" by (metis not_None_eq)
qed

lemma ns_rehash_facts:
  assumes "ns_inv ns" and "ns_rehash ns ns'"
  shows "ns_inv ns'" "get_by_uuid ns' = get_by_uuid ns" "dimension ns' = dimension ns"
proof -
  note W = ns_inv_wf [OF assms(1)]
  have m: "map_of (entries ns') = map_of (entries ns)"
    "map_of (uuid_to_internal ns') = map_of (uuid_to_internal ns)"
    "map_of (exact_match_index ns') = map_of (exact_match_index ns)"
    and s: "set (evicted_ids ns') = set (evicted_ids ns)" "distinct (evicted_ids ns')"
      "hm_wf (entries ns')" "hm_wf (uuid_to_internal ns')" "hm_wf (exact_match_index ns')"
  proof -
    have e: "mset (entries ns') = mset (entries ns)" "mset (uuid_to_internal ns') = mset (uuid_to_internal ns)"
      "mset (exact_match_index ns') = mset (exact_match_index ns)" "mset (evicted_ids ns') = mset (evicted_ids ns)"
      using assms(2) unfolding ns_rehash_def by blast+
    show "map_of (entries ns') = map_of (entries ns)"
      "map_of (uuid_to_internal ns') = map_of (uuid_to_internal ns)"
      "map_of (exact_match_index ns') = map_of (exact_match_index ns)"
      using W(1-3) e(1-3) by (blast intro: map_of_mset)+
    show "set (evicted_ids ns') = set (evicted_ids ns)" "distinct (evicted_ids ns')"
      using W(4) mset_eq_setD [OF e(4)] mset_eq_imp_distinct_iff [OF e(4)] by simp_all
    show "hm_wf (entries ns')" "hm_wf (uuid_to_internal ns')" "hm_wf (exact_match_index ns')"
      using W(1-3) hm_wf_mset [OF e(1)] hm_wf_mset [OF e(2)] hm_wf_mset [OF e(3)] by simp_all
  qed
  have keys: "set (entries ns') = set (entries ns)" "set (uuid_to_internal ns') = set (uuid_to_internal ns)"
    "set (exact_match_index ns') = set (exact_match_index ns)"
    using assms(2) by (auto simp: ns_rehash_def dest: mset_eq_setD)
  show g: "get_by_uuid ns' = get_by_uuid ns" by (simp add: get_by_uuid_def m fun_eq_iff split: option.split)
  show "dimension ns' = dimension ns" using assms(2) by (simp add: ns_rehash_def)
  show "ns_inv ns'"
    using assms s by (simp add: ns_inv_defs m keys g ns_rehash_def)
qed

lemma si_rehash_lookup:
  assumes "si_struct si" and "si_rehash si si'"
  shows "hm_wf (namespaces si')" "hm_wf (uuid_to_namespace si')"
    "map_of (uuid_to_namespace si') = map_of (uuid_to_namespace si)"
    "rel_option ns_rehash (map_of (namespaces si) m) (map_of (namespaces si') m)"
proof -
  note D = si_structD [OF assms(1)]
  from assms(2) obtain nss where nss: "mset nss = mset (namespaces si)"
      "list_all2 (\<lambda>(m, ns) (m', ns'). m' = m \<and> ns_rehash ns ns') nss (namespaces si')"
    and u: "mset (uuid_to_namespace si') = mset (uuid_to_namespace si)"
    by (auto simp: si_rehash_def)
  show "hm_wf (uuid_to_namespace si')" "map_of (uuid_to_namespace si') = map_of (uuid_to_namespace si)"
    using D(2) hm_wf_mset [OF u] map_of_mset [OF u D(2)] by simp_all
  have fst_eq: "map fst nss = map fst (namespaces si')"
    using nss(2) by (induction rule: list_all2_induct) auto
  have "hm_wf nss" using D(1) hm_wf_mset [OF nss(1)] by simp
  then show "hm_wf (namespaces si')" using fst_eq by simp
  have "rel_option ns_rehash (map_of nss m) (map_of (namespaces si') m)"
    using nss(2) by (induction rule: list_all2_induct) auto
  then show "rel_option ns_rehash (map_of (namespaces si) m) (map_of (namespaces si') m)"
    by (simp add: map_of_mset [OF nss(1) D(1)])
qed

lemma si_rehash_abs:
  assumes "si_struct si" and "si_rehash si si'"
  shows "si_struct si'" "si_abs si' = si_abs si"
proof -
  note D = si_structD [OF assms(1)] and L = si_rehash_lookup [OF assms]
  have ns: "ns_inv ns'" "get_by_uuid ns' = get_by_uuid ns" "dimension ns' = dimension ns"
    if "map_of (namespaces si) m = Some ns" "map_of (namespaces si') m = Some ns'" for m ns ns'
    using L(4) [of m] ns_rehash_facts [OF D(3) [OF that(1)]] that by auto
  have none: "map_of (namespaces si') m = None \<longleftrightarrow> map_of (namespaces si) m = None" for m
    using L(4) [of m] by (cases "map_of (namespaces si) m"; cases "map_of (namespaces si') m") auto
  show "si_struct si'"
  proof (rule si_structI [OF L(1,2)])
    fix m ns'
    assume m: "map_of (namespaces si') m = Some ns'"
    then obtain ns where "map_of (namespaces si) m = Some ns" using none [of m] by force
    then show "ns_inv ns'" using m by (rule ns(1))
  qed
  have "contents si' m = contents si m \<and> locked_dim si' m = locked_dim si m" for m
  proof (cases "map_of (namespaces si) m")
    case None
    then show ?thesis using none [of m] by (simp add: contents_def locked_dim_def)
  next
    case (Some x)
    then obtain x' where "map_of (namespaces si') m = Some x'" using none [of m] by force
    with ns(2,3) [OF Some this] Some show ?thesis by (simp add: contents_def locked_dim_def)
  qed
  then show "si_abs si' = si_abs si" by (intro cache_spec_eqI ext) (simp_all add: L(3))
qed

section \<open>The rebuild threshold\<close>

text \<open>Every namespace is created with the default threshold and no operation changes it.\<close>

definition fraction_ok :: "semantic_index \<Rightarrow> bool" where
  "fraction_ok si \<longleftrightarrow>
     (\<forall>m ns. hm_get (namespaces si) m = Some ns \<longrightarrow>
        evicted_fraction_rebuild ns = DEFAULT_EVICTED_FRACTION_REBUILD)"

lemma fraction_insert_with_uuid:
  "evicted_fraction_rebuild (snd (insert_with_uuid e ns)) = evicted_fraction_rebuild ns"
  by (simp add: insert_with_uuid_def ns_insert_fresh_def Let_def split: option.split)

lemma fraction_drop_entry:
  "evicted_fraction_rebuild (snd (drop_entry i ns)) = evicted_fraction_rebuild ns"
  by (simp add: drop_entry_def Let_def split: option.split)

lemma fraction_drop_ids:
  "evicted_fraction_rebuild (snd (drop_ids ids ns)) = evicted_fraction_rebuild ns"
proof (induction ids arbitrary: ns)
  case (Cons i ids)
  then show ?case using fraction_drop_entry [of i ns]
    by (cases "drop_entry i ns") (auto simp: split_beta split: option.split)
qed simp

lemma fraction_remove_by_uuid:
  "evicted_fraction_rebuild (snd (ns_remove_by_uuid u ns)) = evicted_fraction_rebuild ns"
  by (simp add: snd_removals fraction_drop_entry split: option.split)

lemma fraction_evict_ns:
  "evicted_fraction_rebuild (snd (evict_ns n m ns)) = evicted_fraction_rebuild ns"
proof (induction n m ns rule: evict_ns.induct)
  case (1 n m ns)
  have "evicted_fraction_rebuild (snd (evict_lru m ns)) = evicted_fraction_rebuild ns"
    by (simp add: snd_removals fraction_drop_entry split: option.split)
  moreover have "evicted_fraction_rebuild (snd (evict_ns n m ns')) = evicted_fraction_rebuild ns'"
    if "n < ns_entry_count ns" "evict_lru m ns = (Some x, ns')" for x ns'
    using "1.IH" [OF that(1) that(2) [symmetric] refl] .
  ultimately show ?case
    by (subst evict_ns.simps, cases "evict_lru m ns") (auto simp: split_beta split: option.split)
qed

lemma fraction_record_access:
  "evicted_fraction_rebuild (ns_record_access now i ns) = evicted_fraction_rebuild ns"
  by (simp add: ns_record_access_def split: option.split)

lemmas fraction_simps = fraction_insert_with_uuid fraction_drop_ids fraction_remove_by_uuid
  fraction_evict_ns fraction_record_access collect_expired_within_def

lemma fraction_ns_new: "evicted_fraction_rebuild (ns_new cfg) = DEFAULT_EVICTED_FRACTION_REBUILD"
  by (simp add: ns_new_def)

lemma fraction_insert_into: "fraction_ok si \<Longrightarrow> fraction_ok (snd (insert_into m e si))"
  by (auto simp: fraction_ok_def insert_into_eq Let_def record_uuid_def namespace_mut_def fraction_simps
      fraction_ns_new split: option.splits if_splits)

lemma fraction_remove: "fraction_ok si \<Longrightarrow> fraction_ok (snd (si_remove_by_uuid u si))"
  by (auto simp: fraction_ok_def si_remove_by_uuid_def Let_def split_beta fraction_simps
      split: option.splits if_splits)

lemma fraction_access: "fraction_ok si \<Longrightarrow> fraction_ok (si_record_access now m i si)"
  by (auto simp: fraction_ok_def si_record_access_def fraction_simps split: option.splits if_splits)

lemma fraction_map_ran:
  "fraction_ok si \<Longrightarrow> (\<And>m ns. evicted_fraction_rebuild (f m ns) = evicted_fraction_rebuild ns) \<Longrightarrow>
     fraction_ok (si'\<lparr> namespaces := AList.map_ran f (namespaces si) \<rparr>)"
  by (auto simp: fraction_ok_def)

lemma fraction_owner_upd [simp]: "fraction_ok (si\<lparr> uuid_to_namespace := o' \<rparr>) = fraction_ok si"
  by (simp add: fraction_ok_def)

lemma fraction_bulk:
  assumes "fraction_ok si"
  shows "fraction_ok (snd (collect_expired now si))" "fraction_ok (snd (evict_to_cap n si))"
    "fraction_ok (snd (rebuild_dirty_namespaces si))"
  using fraction_map_ran [OF assms]
  by (auto simp: collect_expired_def evict_to_cap_def rebuild_dirty_namespaces_def Let_def fraction_simps)

lemma fraction_invalidate: "fraction_ok si \<Longrightarrow> fraction_ok (snd (invalidate_similar emb th m now si))"
  by (auto simp: fraction_ok_def invalidate_similar_def split_beta fraction_simps
      split: option.splits if_splits)

lemma fraction_prune: "si_struct si \<Longrightarrow> fraction_ok si \<Longrightarrow> fraction_ok (snd (prune_empty_namespaces si))"
  by (auto simp: fraction_ok_def prune_namespaces split: if_splits)

lemma fraction_rehash:
  assumes "si_struct si" "si_rehash si si'" "fraction_ok si"
  shows "fraction_ok si'"
  unfolding fraction_ok_def
proof (intro allI impI)
  fix m ns'
  assume "map_of (namespaces si') m = Some ns'"
  with si_rehash_lookup(4) [OF assms(1,2), of m] obtain ns
    where "map_of (namespaces si) m = Some ns" "ns_rehash ns ns'"
    by (cases "map_of (namespaces si) m") auto
  with assms(3) show "evicted_fraction_rebuild ns' = DEFAULT_EVICTED_FRACTION_REBUILD"
    by (auto simp: fraction_ok_def ns_rehash_def)
qed

section \<open>The step relation\<close>

text \<open>\<open>G si m e\<close> restricts which insertions are considered.\<close>

inductive si_step :: "(semantic_index \<Rightarrow> string \<Rightarrow> cache_entry \<Rightarrow> bool) \<Rightarrow>
    semantic_index \<Rightarrow> semantic_index \<Rightarrow> bool"
  for G :: "semantic_index \<Rightarrow> string \<Rightarrow> cache_entry \<Rightarrow> bool" where
  step_insert: "G si m e \<Longrightarrow> si_step G si (snd (insert_into m e si))"
| step_remove: "si_step G si (snd (si_remove_by_uuid u si))"
| step_access: "si_step G si (si_record_access now m i si)"
| step_expire: "si_step G si (snd (collect_expired now si))"
| step_evict: "si_step G si (snd (evict_to_cap n si))"
| step_invalidate: "si_step G si (snd (invalidate_similar emb th m now si))"
| step_rebuild: "si_step G si (snd (rebuild_dirty_namespaces si))"
| step_prune: "si_step G si (snd (prune_empty_namespaces si))"
| step_rehash: "si_rehash si si' \<Longrightarrow> si_step G si si'"

inductive_cases si_stepE: "si_step G si si'"

definition si_init :: "semantic_index \<Rightarrow> bool" where
  "si_init si \<longleftrightarrow> (\<exists>cfg. si = si_new cfg)"

lemma si_step_wf:
  assumes "si_step G si si'" "si_wf si" "fraction_ok si"
  shows "si_wf si' \<and> fraction_ok si'"
  using assms
proof (induction rule: si_step.induct)
  case (step_rehash si si')
  then show ?case using si_rehash_abs [OF si_wf_struct, of si si'] fraction_rehash [OF si_wf_struct, of si si']
    by (simp add: si_wf_def)
qed (simp_all add: si_wf_insert_into si_wf_remove si_wf_record_access collect_expired_keeps
    evict_to_cap_keeps invalidate_similar_keeps rebuild_dirty_keeps prune_keeps si_wf_struct
    fraction_insert_into fraction_remove fraction_access fraction_bulk fraction_invalidate fraction_prune)

definition any_uuid :: "semantic_index \<Rightarrow> string \<Rightarrow> cache_entry \<Rightarrow> bool" where
  "any_uuid si m e = True"

text \<open>No entry is inserted under a UUID that another namespace owns.\<close>

definition fresh_uuid :: "semantic_index \<Rightarrow> string \<Rightarrow> cache_entry \<Rightarrow> bool" where
  "fresh_uuid si m e \<longleftrightarrow> namespace_for si (ce_uuid e) \<in> {None, Some m}"

interpretation any_index: step_invariant si_init "si_step any_uuid" "\<lambda>si. si_wf si \<and> fraction_ok si"
proof
  show "si_wf si \<and> fraction_ok si" if "si_init si" for si
    using that si_inv_wf [OF si_inv_new] by (auto simp: si_init_def fraction_ok_def si_new_def)
qed (use si_step_wf in blast)

lemma si_step_inv:
  assumes "si_step fresh_uuid si si'" "si_inv si"
  shows "si_inv si'"
  using assms
proof (induction rule: si_step.induct)
  case (step_rehash si si')
  then show ?case using si_rehash_abs [OF si_wf_struct [OF si_inv_wf], of si si']
    by (simp add: si_inv_def si_wf_def)
qed (simp_all add: si_inv_insert_into si_inv_remove si_inv_record_access collect_expired_keeps
    evict_to_cap_keeps invalidate_similar_keeps rebuild_dirty_keeps prune_keeps si_wf_struct
    si_inv_wf fresh_uuid_def)

interpretation fresh_index: step_invariant si_init "si_step fresh_uuid" si_inv
proof
  show "si_inv si" if "si_init si" for si using that si_inv_new by (auto simp: si_init_def)
qed (use si_step_inv in blast)

section \<open>The TTL reaper\<close>

text \<open>
  The part of one tick of \<open>expiry_reaper_loop\<close> (\<open>src/main.rs\<close>) that runs under the write lock:
  the expired entries, the names of the pruned namespaces and the new index.
\<close>

definition reaper_index_step ::
  "u64 \<Rightarrow> semantic_index \<Rightarrow> (string \<times> string) list \<times> string list \<times> semantic_index" where
  "reaper_index_step now si =
     (let (expired_pairs, si1) = collect_expired now si;
          (_, si2) = rebuild_dirty_namespaces si1;
          (pruned, si3) = prune_empty_namespaces si2
      in (expired_pairs, pruned, si3))"

text \<open>The tombstones it then sends to the flush task, in order.\<close>

definition reaper_tombstones :: "(string \<times> string) list \<Rightarrow> wal_entry list" where
  "reaper_tombstones = map (\<lambda>(uuid, model_id). tombstone_entry uuid model_id)"

lemma reaper_index_step_eq:
  "reaper_index_step now si =
     (fst (collect_expired now si),
      fst (prune_empty_namespaces (snd (rebuild_dirty_namespaces (snd (collect_expired now si))))),
      snd (prune_empty_namespaces (snd (rebuild_dirty_namespaces (snd (collect_expired now si))))))"
  by (simp add: reaper_index_step_def split_beta)

lemma rebuilt_clean:
  assumes "0 \<le> evicted_fraction_rebuild ns"
  shows "\<not> needs_rebuild (rebuild ns)"
  using assms by (simp add: needs_rebuild_def rebuild_def Let_def)

text \<open>A namespace that lost its last entry is always rebuilt, as all of it is ghosts.\<close>

lemma rebuilt_empty:
  assumes "entries ns = []" "evicted_fraction_rebuild ns = DEFAULT_EVICTED_FRACTION_REBUILD"
  shows "evicted_ids (if needs_rebuild ns then rebuild ns else ns) = []"
  using assms by (auto simp: needs_rebuild_def DEFAULT_EVICTED_FRACTION_REBUILD_def)

lemma get_by_uuid_empty_iff:
  assumes "ns_inv ns"
  shows "get_by_uuid ns = Map.empty \<longleftrightarrow> entries ns = []"
proof
  assume e: "get_by_uuid ns = Map.empty"
  show "entries ns = []"
  proof (rule ccontr)
    assume "entries ns \<noteq> []"
    then obtain i x where "(i, x) \<in> set (entries ns)" by (cases "entries ns") auto
    then have "map_of (entries ns) i = Some x" by (simp add: hm_in_iff ns_inv_wf [OF assms])
    from get_by_uuid_entry [OF assms this] e show False by simp
  qed
qed (auto simp: get_by_uuid_def fun_eq_iff split: option.split)

lemma reaper_leaves_no_empty_conversation:
  assumes "si_wf si" "fraction_ok si"
    and "map_of (namespaces (snd (snd (reaper_index_step now si)))) m = Some ns"
    and "contains_str m ''::conv_''"
  shows "\<exists>u e. get_by_uuid ns u = Some e \<and> \<not> expired now e"
proof -
  let ?si1 = "snd (collect_expired now si)"
  let ?si2 = "snd (rebuild_dirty_namespaces ?si1)"
  have st1: "si_struct ?si1" using collect_expired_abs(1) [OF si_wf_struct [OF assms(1)]] .
  have st2: "si_struct ?si2" by (rule rebuild_dirty_abs(1) [OF st1])
  have ns: "map_of (namespaces ?si2) m = Some ns" "m \<notin> set (fst (prune_empty_namespaces ?si2))"
    using assms(3) by (auto simp: reaper_index_step_eq prune_namespaces [OF st2] split: if_splits)
  then have np: "\<not> prunable (m, ns)" by (auto simp: prune_names [OF st2])
  from ns(1) obtain ns1 where ns1: "map_of (namespaces ?si1) m = Some ns1"
      "ns = (if needs_rebuild ns1 then rebuild ns1 else ns1)"
    by (auto simp: rebuild_dirty_namespaces_def)
  have fr: "evicted_fraction_rebuild ns1 = DEFAULT_EVICTED_FRACTION_REBUILD"
    using fraction_bulk(1) [OF assms(2), of now] ns1(1) by (simp add: fraction_ok_def)
  have inv1: "ns_inv ns1" by (rule si_structD(3) [OF st1 ns1(1)])
  have ne: "entries ns \<noteq> []"
  proof
    assume e: "entries ns = []"
    then have "entries ns1 = []" using ns1(2) rebuild_simps(5) [of ns1] length_0_conv by (metis (full_types))
    then have "evicted_ids ns = []" using rebuilt_empty fr ns1(2) by simp
    with e np assms(4) show False by (simp add: prunable_def)
  qed
  then obtain u e where u: "get_by_uuid ns u = Some e"
    using get_by_uuid_empty_iff [OF si_structD(3) [OF st2 ns(1)]] by (auto simp: fun_eq_iff)
  have "contents ?si1 m u = Some e"
    using u ns1 rebuild_view [OF inv1] by (auto simp: contents_def split: if_splits)
  then have "\<not> expired now e"
    using collect_expired_abs(2) [OF si_wf_struct [OF assms(1)], of now]
    by (metis si_abs_sel(1) sp_drop_sel(1))
  with u show ?thesis by blast
qed

end
