(* ===== verification/Samples.thy ===== *)
theory Samples
  imports Index_Machine
begin

text \<open>
  Concrete values for the witnesses: a cached entry, an index that holds it, and an index whose
  conversation namespace holds an entry with a deadline.
\<close>

definition cfg0 :: hnsw_config where "cfg0 = default_hnsw_config"

definition entry_a :: cache_entry where
  "entry_a = \<lparr> ce_uuid = ''u1'', ce_embedding = [f32_one], ce_response = ''hi'',
     ce_query_text = ''Hello'', ce_inserted_at = 5, ce_last_accessed_at = 5, ce_access_count = 0,
     ce_expires_at = None \<rparr>"

definition entry_b :: cache_entry where
  "entry_b = \<lparr> ce_uuid = ''u2'', ce_embedding = [f32_one], ce_response = ''bye'',
     ce_query_text = ''Bye'', ce_inserted_at = 6, ce_last_accessed_at = 6, ce_access_count = 0,
     ce_expires_at = Some 10 \<rparr>"

definition si_a :: semantic_index where "si_a = snd (insert_into ''m'' entry_a (si_new cfg0))"

definition si_ab :: semantic_index where "si_ab = snd (insert_into ''m'' entry_b si_a)"

lemmas sample_defs = entry_a_def entry_b_def

lemma norm_samples [simp]:
  "normalize_query_text ''Hello'' = ''hello''" "normalize_query_text ''Bye'' = ''bye''"
  "normalize_query_text '' HELLO '' = ''hello''" "normalize_query_text ''BYE'' = ''bye''"
  by code_simp+

lemmas ns_evals = insert_with_uuid_def ns_insert_fresh_def ns_remove_by_uuid_def drop_entry_def
  sample_defs ns_new_def cfg0_def Let_def

lemmas si_evals = insert_into_def namespace_mut_def record_uuid_def si_new_def si_a_def ns_evals

lemma owner_si_new [simp]: "namespace_for (si_new cfg) u = None"
  by (simp add: namespace_for_def si_new_def)

lemma si_inv_a: "si_inv si_a"
  unfolding si_a_def by (rule si_inv_insert_into [OF si_inv_new]) simp

lemma abs_a: "si_abs si_a = snd (sp_insert ''m'' entry_a sp_empty)"
  unfolding si_a_def by (simp add: insert_into_abs(2) si_wf_struct si_inv_wf si_inv_new si_abs_new)

lemma contents_a: "contents si_a = (\<lambda>_ _. None)(''m'' := [''u1'' \<mapsto> entry_a])"
  and owner_a: "namespace_for si_a = [''u1'' \<mapsto> ''m'']"
  and dim_a: "locked_dim si_a = [''m'' \<mapsto> 1]"
proof -
  show "contents si_a = (\<lambda>_ _. None)(''m'' := [''u1'' \<mapsto> entry_a])"
    using arg_cong [OF abs_a, of sp_content] by (simp add: sp_defs sp_empty_def sample_defs)
  have "sp_owner (si_abs si_a) = [''u1'' \<mapsto> ''m'']" unfolding abs_a
    by (simp add: sp_defs sp_empty_def sample_defs)
  then show "namespace_for si_a = [''u1'' \<mapsto> ''m'']" by (simp add: fun_eq_iff namespace_for_def)
  show "locked_dim si_a = [''m'' \<mapsto> 1]"
    using arg_cong [OF abs_a, of sp_dim] by (simp add: sp_defs sp_empty_def sample_defs)
qed

lemma si_inv_ab: "si_inv si_ab"
  unfolding si_ab_def by (rule si_inv_insert_into [OF si_inv_a]) (simp add: owner_a sample_defs)

lemma abs_ab: "si_abs si_ab = snd (sp_insert ''m'' entry_b (si_abs si_a))"
  unfolding si_ab_def by (simp add: insert_into_abs(2) si_wf_struct si_inv_wf si_inv_a)

lemma contents_ab: "contents si_ab = (\<lambda>_ _. None)(''m'' := [''u1'' \<mapsto> entry_a, ''u2'' \<mapsto> entry_b])"
  using arg_cong [OF abs_ab, of sp_content] by (simp add: sp_defs contents_a dim_a sample_defs)

lemma reachable_a:
  "reachable si_init (si_step fresh_uuid) si_a" "reachable si_init (si_step any_uuid) si_a"
proof -
  have 0: "reachable si_init st (si_new cfg0)" for st by (rule reachable_init) (auto simp: si_init_def)
  show "reachable si_init (si_step fresh_uuid) si_a"
    unfolding si_a_def by (rule reachable_step [OF 0], rule step_insert) (simp add: fresh_uuid_def)
  show "reachable si_init (si_step any_uuid) si_a"
    unfolding si_a_def by (rule reachable_step [OF 0], rule step_insert) (simp add: any_uuid_def)
qed

text \<open>A search that returns the points of the graph in insertion order, all at distance 0.\<close>

definition flat_search :: hnsw_search where
  "flat_search g q k ef = take k (map (\<lambda>(v, i). (i, Fin 0)) g)"

lemma flat_search_sound: "hnsw_sound flat_search"
  by (force simp: hnsw_sound_def flat_search_def dest: in_set_takeD)

text \<open>An index with one conversation, which a pass of the reaper before the deadline keeps.\<close>

definition si_conv :: semantic_index where "si_conv = snd (insert_into ''m::conv_c'' entry_b (si_new cfg0))"

lemma si_inv_conv: "si_inv si_conv"
  unfolding si_conv_def by (rule si_inv_insert_into [OF si_inv_new]) simp

lemma reachable_conv: "reachable si_init (si_step any_uuid) si_conv"
  unfolding si_conv_def
  by (rule reachable_step [OF reachable_init], (force simp: si_init_def)?, rule step_insert)
    (simp add: any_uuid_def)

lemma contents_conv: "contents si_conv = (\<lambda>_ _. None)(''m::conv_c'' := [''u2'' \<mapsto> entry_b])"
proof -
  have "si_abs si_conv = snd (sp_insert ''m::conv_c'' entry_b sp_empty)"
    unfolding si_conv_def by (simp add: insert_into_abs(2) si_wf_struct si_inv_wf si_inv_new si_abs_new)
  from arg_cong [OF this, of sp_content] show ?thesis by (simp add: sp_defs sp_empty_def sample_defs)
qed

lemma reaped_conv: "contents (snd (snd (reaper_index_step 7 si_conv))) ''m::conv_c'' ''u2'' \<noteq> None"
proof -
  let ?s1 = "snd (collect_expired 7 si_conv)" and ?s2 = "snd (rebuild_dirty_namespaces (snd (collect_expired 7 si_conv)))"
  have st: "si_struct si_conv" "si_struct ?s1" "si_struct ?s2"
    using si_wf_struct [OF si_inv_wf [OF si_inv_conv]] by (simp_all add: collect_expired_abs(1) rebuild_dirty_abs(1))
  have "contents (snd (prune_empty_namespaces ?s2)) = contents ?s1"
    using arg_cong [OF prune_abs(2) [OF st(3)], of sp_content] arg_cong [OF rebuild_dirty_abs(2) [OF st(2)], of sp_content]
    by simp
  moreover have "contents ?s1 ''m::conv_c'' ''u2'' = Some entry_b"
    using arg_cong [OF collect_expired_abs(2) [OF st(1), of 7], of sp_content]
    by (simp add: sp_drop_def contents_conv expired_def entry_b_def)
  ultimately show ?thesis by (simp add: reaper_index_step_eq)
qed

end
