(* ===== verification/Index_Properties.thy ===== *)
theory Index_Properties
  imports Samples
begin

text \<open>
  What the semantic index promises, over \<open>Ns_Index\<close>, \<open>Semantic_Index\<close> and their correctness theories.
\<close>

section \<open>The invariant\<close>

text \<open>C9. In every reachable state of the index, under any interleaving of inserts, removals,
  accesses, expiry, eviction, invalidation, rebuilds, pruning and reordering of its hash tables, the
  side-tables of every namespace agree with each other and with the HNSW graph, and the owner the
  reverse map gives for a UUID holds an entry with that UUID.\<close>

theorem index_reachable_wf:
  assumes "reachable si_init (si_step any_uuid) si"
  shows "(\<forall>m ns. hm_get (namespaces si) m = Some ns \<longrightarrow> ns_inv ns) \<and>
    (\<forall>u m. namespace_for si u = Some m \<longrightarrow>
       (\<exists>e. get_entry_by_uuid si u = Some (to_full m e) \<and> ce_uuid e = u))"
proof -
  have wf: "si_wf si" using any_index.reachable_inv [OF assms] by simp
  have "\<exists>e. get_entry_by_uuid si u = Some (to_full m e) \<and> ce_uuid e = u" if "namespace_for si u = Some m" for u m
    using that by (rule si_wf_owned [OF wf]) (auto simp: that get_entry_by_uuid_eq [OF wf])
  then show ?thesis using si_structD(3) [OF si_wf_struct [OF wf]] by auto
qed

theorem index_reachable_wf_witness:
  "\<exists>e. get_entry_by_uuid si_a ''u1'' = Some (to_full ''m'' e) \<and> ce_uuid e = ''u1''"
  using index_reachable_wf [OF reachable_a(2)] by (simp add: owner_a)

text \<open>C10. As long as no entry is inserted under a UUID that another namespace owns, the reverse map is
  exact: a namespace owns a UUID if and only if it holds an entry with that UUID. So a UUID has
  one entry in the whole cache, and everything that can be hit can be deleted.\<close>

theorem index_reachable_owner_iff:
  assumes "reachable si_init (si_step fresh_uuid) si"
  shows "namespace_for si u = Some m \<longleftrightarrow> contents si m u \<noteq> None"
  using si_inv_owner_iff [OF fresh_index.reachable_inv [OF assms]] .

theorem index_reachable_owner_iff_witness:
  "namespace_for si_a ''u1'' = Some ''m'' \<longleftrightarrow> contents si_a ''m'' ''u1'' \<noteq> None"
  by (rule index_reachable_owner_iff [OF reachable_a(1)])

section \<open>Refinement of the abstract cache\<close>

text \<open>C8. Replaying any list of log entries refines the abstract cache: the live entries, the owners
  and the locked dimensions of the index are those of the specification, which inserts an entry
  unless its dimension is wrong or its UUID is present, and removes the owned entry on a tombstone.\<close>

theorem replay_refines:
  assumes "si_wf si"
  shows "si_abs (fold (\<lambda>w. snd \<circ> replay_entry w) ws si) = fold sp_replay ws (si_abs si)"
  by (rule wal_replay.replay_abs [OF assms])

theorem replay_refines_witness:
  "si_abs (fold (\<lambda>w. snd \<circ> replay_entry w) [tombstone_entry ''u1'' ''m''] si_a) =
     fold sp_replay [tombstone_entry ''u1'' ''m''] (si_abs si_a)"
  by (rule replay_refines [OF si_inv_wf [OF si_inv_a]])

text \<open>An insert answers \<open>Ok\<close> exactly when the namespace has no locked dimension or the embedding
  has it; a rejected insert reports the two dimensions and changes no entry, owner or dimension.\<close>

lemma insert_accepts_iff:
  assumes "si_wf si"
  shows "(fst (insert_into m e si) = Inr () \<longleftrightarrow> locked_dim si m \<in> {None, Some (length (ce_embedding e))}) \<and>
    (fst (insert_into m e si) \<noteq> Inr () \<longrightarrow>
       fst (insert_into m e si) = Inl (DimensionMismatch (the (locked_dim si m)) (length (ce_embedding e))) \<and>
       si_abs (snd (insert_into m e si)) = si_abs si)"
  using insert_into_abs [OF si_wf_struct [OF assms], of m e] by (auto simp: sp_insert_def sp_accepts_def)

section \<open>Queries\<close>

text \<open>C11. A hit is always a live answer: the entry it names is in the namespace that was asked, its UUID
  resolves to it, its response is the one returned, its deadline has not passed, and it was found
  either by a text with the same normal form, with similarity 1, or through the graph with a
  similarity that is not below the threshold.\<close>

theorem query_hit_is_live:
  assumes "reachable si_init (si_step any_uuid) si"
    and "si_query_with_text search emb th m txt now si = Inr (Some h)"
  shows "\<exists>e. contents si m (qh_id h) = Some e \<and>
    qh_response h = ce_response e \<and> \<not> expired now e \<and>
    (if qh_exact_match h
     then qh_similarity h = Fin 1 \<and>
       (\<exists>t. txt = Some t \<and> normalize_query_text t = normalize_query_text (ce_query_text e))
     else \<not> flt_lt (qh_similarity h) th)"
proof -
  have "si_struct si" using any_index.reachable_inv [OF assms(1)] by (simp add: si_wf_struct)
  from this assms(2) show ?thesis by (rule si_query_hit) blast
qed

theorem query_hit_is_live_witness:
  "\<exists>e. contents si_a ''m'' ''u1'' = Some e \<and> ce_response e = ''hi'' \<and> \<not> expired 7 e"
proof -
  have "si_query_with_text linear_search [f32_one] (Fin 1) ''m'' (Some '' HELLO '') 7 si_a =
    Inr (Some \<lparr> qh_id = ''u1'', qh_response = ''hi'', qh_similarity = Fin 1, qh_internal_id = 0,
                qh_exact_match = True \<rparr>)"
    by (simp add: si_evals si_query_with_text_def ns_query_with_text_def exact_lookup_def expired_def)
  from query_hit_is_live [OF reachable_a(2) this] show ?thesis by auto
qed

text \<open>C36. A query never fails on an index the program built: if the search returns points of the graph
  only, every neighbour that is not a ghost is in the side-table. The one error left is a query
  vector of the wrong length.\<close>

theorem query_errors_only_on_dimension:
  assumes "reachable si_init (si_step any_uuid) si" and "hnsw_sound search"
    and "si_query_with_text search emb th m txt now si = Inl err"
  shows "\<exists>d. locked_dim si m = Some d \<and> d \<noteq> length emb \<and> err = DimensionMismatch d (length emb)"
proof -
  obtain ns where ns: "hm_get (namespaces si) m = Some ns"
    and q: "ns_query_with_text search emb th txt now ns = Inl err"
    using assms(3) by (auto simp: si_query_with_text_def split: option.splits)
  have "ns_inv ns" using si_structD(3) any_index.reachable_inv [OF assms(1)] ns by (auto intro: si_wf_struct)
  from ns_query_error [OF this assms(2) q] ns show ?thesis by (simp add: locked_dim_def)
qed

theorem query_errors_only_on_dimension_witness:
  "\<exists>d. locked_dim si_a ''m'' = Some d \<and> d \<noteq> 0 \<and> DimensionMismatch 1 0 = DimensionMismatch d 0"
proof -
  have "si_query_with_text linear_search [] (Fin 1) ''m'' None 7 si_a = Inl (DimensionMismatch 1 0)"
    by (simp add: si_evals si_query_with_text_def ns_query_with_text_def)
  from query_errors_only_on_dimension [OF reachable_a(2) linear_search_sound this] show ?thesis by simp
qed

text \<open>Ghosts do not hide live entries. While a namespace has at most eight ghosts, none of its
  entries has expired, and the graph answers with as many distinct points as the query asks for,
  all similar enough, the query is a hit.\<close>

lemma ghosts_do_not_mask:
  assumes "ns_inv ns" and "hnsw_sound search"
    and "dimension ns = Some (length emb)" and "length (evicted_ids ns) \<le> MAX_EVICTION_OVERSCAN"
    and "\<And>i e. hm_get (entries ns) i = Some e \<Longrightarrow> \<not> expired now e"
    and nb: "search (hnsw ns) emb (1 + length (evicted_ids ns)) (ef_search ns) = nb"
      "distinct (map fst nb)" "length nb = 1 + length (evicted_ids ns)"
      "\<And>i d. (i, d) \<in> set nb \<Longrightarrow> \<not> flt_lt (flt_sub (Fin 1) d) th"
  shows "\<exists>h. ns_query search emb th now ns = Inr (Some h)"
proof -
  have want: "1 + min (length (evicted_ids ns)) MAX_EVICTION_OVERSCAN = 1 + length (evicted_ids ns)"
    using assms(4) by simp
  have "\<exists>(i, d) \<in> set nb. i \<notin> set (evicted_ids ns)"
    using overscan_enough [OF assms(4) nb(2)] nb(3) want by simp
  moreover have "\<exists>e. map_of (entries ns) i = Some e \<and> \<not> expired now e"
    if "(i, d) \<in> set nb" "i \<notin> set (evicted_ids ns)" for i d
    using live_point [OF assms(1,2)] that nb(1) assms(5) [of i] by fastforce
  ultimately have "\<exists>h. scan_neighbours ns th now nb = Inr (Some h)"
    using nb(4) by (intro scan_neighbours_hit)
  then show ?thesis
    using assms(3) nb(1) want by (simp add: ns_query_def ns_query_with_text_def)
qed

section \<open>Eviction, expiry, invalidation\<close>

text \<open>C33. Eviction brings every namespace to the cap and no further, and evicts in LRU order: an
  entry that is evicted was not accessed after, and on a tie not inserted after, an entry of the
  same namespace that stays. Nothing else changes.\<close>

theorem evict_to_cap_lru:
  assumes "si_wf si"
  shows "(\<forall>m ns. hm_get (namespaces si) m = Some ns \<longrightarrow>
      (\<exists>ns'. hm_get (namespaces (snd (evict_to_cap n si))) m = Some ns' \<and>
         ns_entry_count ns' = min n (ns_entry_count ns))) \<and>
    (\<forall>m u e u' e'. contents si m u = Some e \<and> contents (snd (evict_to_cap n si)) m u = None \<and>
       contents (snd (evict_to_cap n si)) m u' = Some e' \<longrightarrow>
       (ce_last_accessed_at e, ce_inserted_at e) \<le> (ce_last_accessed_at e', ce_inserted_at e')) \<and>
    (\<forall>m u e. contents (snd (evict_to_cap n si)) m u = Some e \<longrightarrow> contents si m u = Some e)"
proof -
  note st = si_wf_struct [OF assms]
  have sub: "contents (snd (evict_to_cap n si)) m u = Some e \<longleftrightarrow>
      contents si m u = Some e \<and> u \<notin> evicted_from n si m" for m u e
    using arg_cong [OF evict_to_cap_abs(2) [OF st, of n], of sp_content] sp_drop_sel(1) [of _ "si_abs si" m u e]
    by simp
  have count: "\<exists>ns'. hm_get (namespaces (snd (evict_to_cap n si))) m = Some ns' \<and>
      ns_entry_count ns' = min n (ns_entry_count ns)" if "hm_get (namespaces si) m = Some ns" for m ns
    using evict_to_cap_namespace [OF st that] by blast
  have lru: "(ce_last_accessed_at e, ce_inserted_at e) \<le> (ce_last_accessed_at e', ce_inserted_at e')"
    if "contents si m u = Some e" "u \<in> evicted_from n si m" "contents si m u' = Some e'" "u' \<notin> evicted_from n si m"
    for m u e u' e'
    using evicted_before_kept [OF st that] .
  have gone: "u \<in> evicted_from n si m"
    if "contents si m u = Some e" "contents (snd (evict_to_cap n si)) m u = None" for m u e
    using that sub [of m u e] by auto
  have "(ce_last_accessed_at e, ce_inserted_at e) \<le> (ce_last_accessed_at e', ce_inserted_at e')"
    if a: "contents si m u = Some e \<and> contents (snd (evict_to_cap n si)) m u = None \<and>
      contents (snd (evict_to_cap n si)) m u' = Some e'" for m u e u' e'
    by (rule lru [of m u e u' e']) (use a gone [of m u e] sub [of m u' e'] in simp_all)
  then show ?thesis using count sub by (simp del: less_eq_prod_simp)
qed

theorem evict_to_cap_lru_witness:
  "\<exists>ns'. hm_get (namespaces (snd (evict_to_cap 1 si_ab))) ''m'' = Some ns' \<and> ns_entry_count ns' = 1"
proof -
  have "\<exists>ns. hm_get (namespaces si_ab) ''m'' = Some ns \<and> ns_entry_count ns = 2"
    by (simp add: si_ab_def si_evals ns_entry_count_def)
  then show ?thesis using evict_to_cap_lru [OF si_inv_wf [OF si_inv_ab], of 1] by fastforce
qed

text \<open>C34. An expiry pass removes exactly the entries whose deadline has passed, reports each with its
  namespace, and leaves the others as they are; the boundary is strict, an entry is alive in the
  second of its deadline.\<close>

theorem collect_expired_exact:
  assumes "si_wf si"
  shows "set (fst (collect_expired now si)) =
      {(u, m). \<exists>e t. contents si m u = Some e \<and> ce_expires_at e = Some t \<and> t < now} \<and>
    (\<forall>m u e. contents (snd (collect_expired now si)) m u = Some e \<longleftrightarrow>
       contents si m u = Some e \<and> (case ce_expires_at e of None \<Rightarrow> True | Some t \<Rightarrow> now \<le> t))"
proof -
  note st = si_wf_struct [OF assms]
  have "contents (snd (collect_expired now si)) m u = Some e \<longleftrightarrow> contents si m u = Some e \<and> \<not> expired now e" for m u e
    using arg_cong [OF collect_expired_abs(2) [OF st, of now], of sp_content]
      sp_drop_sel(1) [of "\<lambda>_ _. expired now" "si_abs si" m u e] by simp
  then show ?thesis
    using collect_expired_set [OF st, of _ _ now] by (fastforce simp: expired_def split: option.splits)
qed

theorem collect_expired_exact_witness:
  "contents (snd (collect_expired 11 si_ab)) ''m'' ''u2'' = None \<and>
   contents (snd (collect_expired 11 si_ab)) ''m'' ''u1'' = Some entry_a \<and>
   (''u2'', ''m'') \<in> set (fst (collect_expired 11 si_ab))"
proof -
  note E = collect_expired_exact [OF si_inv_wf [OF si_inv_ab], of 11]
  have "contents (snd (collect_expired 11 si_ab)) ''m'' ''u2'' \<noteq> Some e" for e
    using E by (auto simp: contents_ab sample_defs)
  moreover have "contents (snd (collect_expired 11 si_ab)) ''m'' ''u1'' = Some entry_a"
    using E by (simp add: contents_ab sample_defs)
  moreover have "(''u2'', ''m'') \<in> set (fst (collect_expired 11 si_ab))"
    using E by (simp add: contents_ab sample_defs)
  ultimately show ?thesis by (metis not_None_eq)
qed

section \<open>Maintenance\<close>

text \<open>Rebuilding dirty graphs and pruning empty conversation namespaces are invisible: no entry,
  owner or answer to a lookup by UUID changes; after a rebuild no namespace has ghosts above the
  threshold fraction.\<close>

lemma maintenance_invisible:
  assumes "reachable si_init (si_step any_uuid) si"
  shows "contents (snd (rebuild_dirty_namespaces si)) = contents si \<and>
    contents (snd (prune_empty_namespaces si)) = contents si \<and>
    namespace_for (snd (rebuild_dirty_namespaces si)) = namespace_for si \<and>
    namespace_for (snd (prune_empty_namespaces si)) = namespace_for si \<and>
    (\<forall>m ns. hm_get (namespaces (snd (rebuild_dirty_namespaces si))) m = Some ns \<longrightarrow> \<not> needs_rebuild ns)"
proof -
  have st: "si_struct si" and fr: "fraction_ok si"
    using any_index.reachable_inv [OF assms] by (simp_all add: si_wf_struct)
  have "\<not> needs_rebuild ns"
    if get: "hm_get (namespaces (snd (rebuild_dirty_namespaces si))) m = Some ns" for m ns
  proof -
    obtain z where z: "hm_get (namespaces si) m = Some z" "ns = (if needs_rebuild z then rebuild z else z)"
      using get by (auto simp: rebuild_dirty_namespaces_def)
    have "evicted_fraction_rebuild z = DEFAULT_EVICTED_FRACTION_REBUILD"
      using fr z(1) unfolding fraction_ok_def by blast
    then have "\<not> needs_rebuild (rebuild z)"
      by (intro rebuilt_clean) (simp add: DEFAULT_EVICTED_FRACTION_REBUILD_def)
    with z show ?thesis by simp
  qed
  moreover have "contents (snd (rebuild_dirty_namespaces si)) = contents si"
    using arg_cong [OF rebuild_dirty_abs(2) [OF st], of sp_content] by simp
  moreover have "contents (snd (prune_empty_namespaces si)) = contents si"
    using arg_cong [OF prune_abs(2) [OF st], of sp_content] by simp
  moreover have "namespace_for (snd (rebuild_dirty_namespaces si)) = namespace_for si"
      "namespace_for (snd (prune_empty_namespaces si)) = namespace_for si"
    by (simp_all add: fun_eq_iff namespace_for_def rebuild_dirty_namespaces_def prune_empty_namespaces_def Let_def)
  ultimately show ?thesis by blast
qed

text \<open>After a pass of the TTL reaper every conversation namespace that is left holds an entry that
  has not expired: empty conversations do not accumulate.\<close>

lemma reaper_prunes_conversations:
  assumes "reachable si_init (si_step any_uuid) si"
    and "hm_get (namespaces (snd (snd (reaper_index_step now si)))) m = Some ns"
    and "contains_str m ''::conv_''"
  shows "\<exists>u e. get_by_uuid ns u = Some e \<and> \<not> expired now e"
  using reaper_leaves_no_empty_conversation [of si now m ns] any_index.reachable_inv [OF assms(1)] assms(2,3)
  by simp

section \<open>Snapshots of the index\<close>

text \<open>C37. Loading the entries of a snapshot into an empty index gives back the same cache: the same
  entries under the same UUIDs in the same namespaces, access metadata included, the same owners, and
  the locked dimension of every namespace that has entries.\<close>

theorem snapshot_entries_reload:
  assumes "si_inv si"
  shows "contents (fold (\<lambda>r. snd \<circ> replay_snapshot_entry r) (snapshot_entries si) (si_new cfg)) = contents si \<and>
    namespace_for (fold (\<lambda>r. snd \<circ> replay_snapshot_entry r) (snapshot_entries si) (si_new cfg)) = namespace_for si \<and>
    (\<forall>m. locked_dim (fold (\<lambda>r. snd \<circ> replay_snapshot_entry r) (snapshot_entries si) (si_new cfg)) m =
       (if contents si m = Map.empty then None else locked_dim si m))"
  using snapshot_reload(1-3) [OF assms, of cfg] by simp

theorem snapshot_entries_reload_witness:
  "contents (fold (\<lambda>r. snd \<circ> replay_snapshot_entry r) (snapshot_entries si_ab) (si_new cfg0)) = contents si_ab"
  using snapshot_entries_reload [OF si_inv_ab, of cfg0] by blast

end
