(* ===== verification/Wal.thy ===== *)
theory Wal
  imports Log_Entry
begin

text \<open>
  The write-ahead log of \<open>src/wal.rs\<close>: a file of newline-terminated JSON documents. A file is its
  bytes. The JSON library is a pair of parameters, \<open>to_vec\<close> and \<open>from_str\<close>; what the log relies on
  is \<open>json_codec\<close>. Every system call has an outcome that is an argument of the operation.
\<close>

section \<open>Lines and text\<close>

definition byte_val :: "char \<Rightarrow> nat" where
  "byte_val c = of_char c"

definition is_cont :: "char \<Rightarrow> bool" where
  "is_cont c \<longleftrightarrow> 128 \<le> byte_val c \<and> byte_val c < 192"

text \<open>The length of the UTF-8 character a string starts with, 0 if it starts with none.\<close>

definition utf8_len :: "string \<Rightarrow> nat" where
  "utf8_len s =
     (case s of [] \<Rightarrow> 0 | c0 # r \<Rightarrow>
        let b0 = byte_val c0;
            between = (\<lambda>k lo hi. k < length r \<and> lo \<le> byte_val (r ! k) \<and> byte_val (r ! k) \<le> hi);
            cont = (\<lambda>k. k < length r \<and> is_cont (r ! k))
        in if b0 < 128 then 1
           else if 194 \<le> b0 \<and> b0 \<le> 223 then (if cont 0 then 2 else 0)
           else if b0 = 224 then (if between 0 160 191 \<and> cont 1 then 3 else 0)
           else if b0 = 237 then (if between 0 128 159 \<and> cont 1 then 3 else 0)
           else if 225 \<le> b0 \<and> b0 \<le> 239 then (if cont 0 \<and> cont 1 then 3 else 0)
           else if b0 = 240 then (if between 0 144 191 \<and> cont 1 \<and> cont 2 then 4 else 0)
           else if 241 \<le> b0 \<and> b0 \<le> 243 then (if cont 0 \<and> cont 1 \<and> cont 2 then 4 else 0)
           else if b0 = 244 then (if between 0 128 143 \<and> cont 1 \<and> cont 2 then 4 else 0)
           else 0)"

function utf8_valid :: "string \<Rightarrow> bool" where
  "utf8_valid s = (if s = [] then True else let n = utf8_len s in if n = 0 then False else utf8_valid (drop n s))"
  by pat_completeness auto
termination
  by (relation "measure length") auto

declare utf8_valid.simps [simp del]

text \<open>
  \<open>BufReader::lines\<close>: pieces up to a newline, without the newline and a carriage return before it;
  a last piece without a newline counts when it is not empty, and keeps its carriage return.
\<close>

definition chomp :: "string \<Rightarrow> string" where
  "chomp l = (if l \<noteq> [] \<and> last l = CHR 0x0D then butlast l else l)"

function raw_lines :: "string \<Rightarrow> string list" where
  "raw_lines s =
     (if s = [] then []
      else case dropWhile (\<lambda>c. c \<noteq> CHR 0x0A) s of
             [] \<Rightarrow> [s]
           | _ # rest \<Rightarrow> chomp (takeWhile (\<lambda>c. c \<noteq> CHR 0x0A) s) # raw_lines rest)"
  by pat_completeness auto
termination
proof (relation "measure length")
  fix s :: string and c rest
  assume "dropWhile (\<lambda>c. c \<noteq> CHR 0x0A) s = c # rest"
  then show "(rest, s) \<in> measure length"
    using length_dropWhile_le [of "\<lambda>c. c \<noteq> CHR 0x0A" s] by simp
qed simp

declare raw_lines.simps [simp del]

section \<open>State and errors\<close>

datatype wal_error =
  SequenceOverflow | SerializeFailed | OpenFailed | WriteFailed | SyncFailed | ReadFailed

record wal =
  w_sequence :: u64

text \<open>What a \<open>write_all\<close> followed by \<open>sync_data\<close> did: a failed write may leave a part of the data.\<close>

datatype write_outcome = WriteOk | WriteFail nat | SyncFail

datatype truncate_outcome = TruncOk | TruncOpenFail | TruncSyncFail | TruncReopenFail

text \<open>The file: \<open>None\<close> when it does not exist.\<close>

type_synonym wal_file = "string option"

definition file_bytes :: "wal_file \<Rightarrow> string" where
  "file_bytes f = (case f of None \<Rightarrow> [] | Some s \<Rightarrow> s)"

section \<open>Operations\<close>

definition open_with_sequence :: "bool \<Rightarrow> u64 \<Rightarrow> wal_file \<Rightarrow> (wal_error + wal) \<times> wal_file" where
  "open_with_sequence open_ok seq f =
     (if open_ok then (Inr \<lparr> w_sequence = seq \<rparr>, Some (file_bytes f)) else (Inl OpenFailed, f))"

definition wal_open :: "bool \<Rightarrow> wal_file \<Rightarrow> (wal_error + wal) \<times> wal_file" where
  "wal_open open_ok f = open_with_sequence open_ok 0 f"

definition current_sequence :: "wal \<Rightarrow> u64" where
  "current_sequence w = w_sequence w"

definition next_sequence :: "wal \<Rightarrow> (wal_error + u64) \<times> wal" where
  "next_sequence w =
     (case checked_add (w_sequence w) 1 of
        None \<Rightarrow> (Inl SequenceOverflow, w)
      | Some s \<Rightarrow> (Inr s, w\<lparr> w_sequence := s \<rparr>))"

text \<open>Writing at the end of the file and syncing it, with the given outcome.\<close>

definition write_and_sync :: "write_outcome \<Rightarrow> string \<Rightarrow> wal_file \<Rightarrow> (wal_error + unit) \<times> wal_file" where
  "write_and_sync out data f =
     (case out of
        WriteOk \<Rightarrow> (Inr (), Some (file_bytes f @ data))
      | WriteFail n \<Rightarrow> (Inl WriteFailed, Some (file_bytes f @ take n data))
      | SyncFail \<Rightarrow> (Inl SyncFailed, Some (file_bytes f @ data)))"

definition append_entry ::
  "(wal_entry \<Rightarrow> string option) \<Rightarrow> write_outcome \<Rightarrow> wal_entry \<Rightarrow> wal \<Rightarrow> wal_file \<Rightarrow>
   (wal_error + u64) \<times> wal \<times> wal_file" where
  "append_entry to_vec out entry w f =
     (case next_sequence w of
        (Inl err, w') \<Rightarrow> (Inl err, w', f)
      | (Inr seq, w') \<Rightarrow>
          (case to_vec (entry\<lparr> we_sequence := seq \<rparr>) of
             None \<Rightarrow> (Inl SerializeFailed, w', f)
           | Some line \<Rightarrow>
               (case write_and_sync out (line @ [CHR 0x0A]) f of
                  (Inl err, f') \<Rightarrow> (Inl err, w', f')
                | (Inr _, f') \<Rightarrow> (Inr seq, w', f'))))"

definition write_batch_bytes ::
  "write_outcome \<Rightarrow> string \<Rightarrow> wal_file \<Rightarrow> (wal_error + unit) \<times> wal_file" where
  "write_batch_bytes out data f = (if data = [] then (Inr (), f) else write_and_sync out data f)"

definition wal_truncate :: "truncate_outcome \<Rightarrow> wal_file \<Rightarrow> (wal_error + unit) \<times> wal_file" where
  "wal_truncate out f =
     (case out of
        TruncOk \<Rightarrow> (Inr (), Some [])
      | TruncOpenFail \<Rightarrow> (Inl OpenFailed, f)
      | TruncSyncFail \<Rightarrow> (Inl SyncFailed, Some [])
      | TruncReopenFail \<Rightarrow> (Inl OpenFailed, Some []))"

fun replay_lines :: "(string \<Rightarrow> wal_entry option) \<Rightarrow> string list \<Rightarrow> wal_error + wal_entry list" where
  "replay_lines from_str [] = Inr []"
| "replay_lines from_str (l # ls) =
     (if \<not> utf8_valid l then Inl ReadFailed
      else case replay_lines from_str ls of
             Inl err \<Rightarrow> Inl err
           | Inr es \<Rightarrow>
               if trim l = [] then Inr es
               else (case from_str l of Some e \<Rightarrow> Inr (e # es) | None \<Rightarrow> Inr es))"

definition wal_replay :: "(string \<Rightarrow> wal_entry option) \<Rightarrow> wal_file \<Rightarrow> wal_error + wal_entry list" where
  "wal_replay from_str f = (case f of None \<Rightarrow> Inr [] | Some s \<Rightarrow> replay_lines from_str (raw_lines s))"

text \<open>
  The first pass of a batch in \<open>flush_insert_batch\<close> and \<open>evict_to_cap_step\<close>: stamp each entry with the
  next sequence number and collect the lines; the first failure ends it.
\<close>

fun stamp_batch ::
  "(wal_entry \<Rightarrow> string option) \<Rightarrow> wal_entry list \<Rightarrow> wal \<Rightarrow> (wal_error + wal_entry list \<times> string) \<times> wal" where
  "stamp_batch to_vec [] w = (Inr ([], []), w)"
| "stamp_batch to_vec (e # es) w =
     (case next_sequence w of
        (Inl err, w') \<Rightarrow> (Inl err, w')
      | (Inr seq, w') \<Rightarrow>
          (let stamped = e\<lparr> we_sequence := seq \<rparr>
           in case to_vec stamped of
                None \<Rightarrow> (Inl SerializeFailed, w')
              | Some line \<Rightarrow>
                  (case stamp_batch to_vec es w' of
                     (Inl err, w'') \<Rightarrow> (Inl err, w'')
                   | (Inr (es', buf), w'') \<Rightarrow> (Inr (stamped # es', line @ [CHR 0x0A] @ buf), w''))))"

section \<open>What the log relies on\<close>

text \<open>
  \<open>serde_json\<close>: a document on one line, valid UTF-8, not blank and not ending in a carriage
  return, that decodes to the entry when every component of the embedding is finite (other floats
  are written as \<open>null\<close>).
\<close>

definition f32_finite :: "f32 \<Rightarrow> bool" where
  "f32_finite x \<longleftrightarrow> unat x div 2 ^ 23 mod 256 \<noteq> 255"

definition we_finite :: "wal_entry \<Rightarrow> bool" where
  "we_finite w \<longleftrightarrow> list_all f32_finite (we_embedding w)"

definition json_codec :: "(wal_entry \<Rightarrow> string option) \<Rightarrow> (string \<Rightarrow> wal_entry option) \<Rightarrow> bool" where
  "json_codec to_vec from_str \<longleftrightarrow>
     (\<forall>w l. to_vec w = Some l \<longrightarrow>
        CHR 0x0A \<notin> set l \<and> utf8_valid l \<and> trim l \<noteq> [] \<and> last l \<noteq> CHR 0x0D \<and>
        (we_finite w \<longrightarrow> from_str l = Some w))"

section \<open>Sequence numbers\<close>

lemma next_sequence_Inr:
  "next_sequence w = (Inr s, w') \<Longrightarrow> unat s = unat (w_sequence w) + 1 \<and> w_sequence w' = s"
  by (auto simp: next_sequence_def dest: checked_add_Some_unat split: option.splits)

lemma next_sequence_total:
  "unat (w_sequence w) < 2 ^ 64 - 1 \<Longrightarrow> next_sequence w = (Inr (w_sequence w + 1), w\<lparr> w_sequence := w_sequence w + 1 \<rparr>)"
  by (simp add: next_sequence_def checked_add_def)

text \<open>
  A stamped batch keeps the entries and numbers them consecutively from the next sequence number
  on.
\<close>

definition unstamped :: "wal_entry \<Rightarrow> wal_entry" where
  "unstamped e = e\<lparr> we_sequence := 0 \<rparr>"

lemma unstamped_restamp:
  "unstamped a = unstamped b \<Longrightarrow> we_sequence a = s \<Longrightarrow> b\<lparr> we_sequence := s \<rparr> = a"
  by (cases a; cases b) (auto simp: unstamped_def)

lemma stamp_batch_Inr:
  assumes "stamp_batch to_vec es w = (Inr (es', buf), w')"
  shows "map unstamped es' = map unstamped es \<and>
    map (unat \<circ> we_sequence) es' = [Suc (unat (w_sequence w))..<Suc (unat (w_sequence w) + length es)] \<and>
    unat (w_sequence w') = unat (w_sequence w) + length es \<and>
    (\<exists>ls. map to_vec es' = map Some ls \<and> buf = concat (map (\<lambda>l. l @ [CHR 0x0A]) ls))"
  using assms
proof (induction es arbitrary: w w' es' buf)
  case Nil
  then show ?case by (auto intro: exI [of _ "[]"])
next
  case (Cons e es)
  from Cons.prems obtain seq w1 line es1 buf1 where
    S: "next_sequence w = (Inr seq, w1)" "to_vec (e\<lparr> we_sequence := seq \<rparr>) = Some line"
       "stamp_batch to_vec es w1 = (Inr (es1, buf1), w')"
       "es' = e\<lparr> we_sequence := seq \<rparr> # es1" "buf = line @ [CHR 0x0A] @ buf1"
    by (auto simp: Let_def split: prod.splits sum.splits option.splits)
  note N = next_sequence_Inr [OF S(1)]
  note IH = Cons.IH [OF S(3)]
  then obtain ls where ls: "map to_vec es1 = map Some ls" "buf1 = concat (map (\<lambda>l. l @ [CHR 0x0A]) ls)"
    by blast
  have "\<exists>ls. map to_vec es' = map Some ls \<and> buf = concat (map (\<lambda>l. l @ [CHR 0x0A]) ls)"
    using S ls by (intro exI [of _ "line # ls"]) simp
  moreover have "[Suc (unat (w_sequence w))..<Suc (unat (w_sequence w) + length (e # es))] =
      unat seq # [Suc (unat seq)..<Suc (unat seq + length es)]"
    using N by (subst upt_conv_Cons) auto
  ultimately show ?case using IH N S(4) by (auto simp: unstamped_def)
qed

text \<open>Stamping fails only when the numbers run out or the serializer fails.\<close>

lemma stamp_batch_total:
  assumes "\<And>e. to_vec e \<noteq> None" and "unat (w_sequence w) + length es < 2 ^ 64"
  shows "\<exists>es' buf w'. stamp_batch to_vec es w = (Inr (es', buf), w')"
  using assms(2)
proof (induction es arbitrary: w)
  case (Cons e es)
  have "unat (w_sequence w) < 2 ^ 64 - 1" using Cons.prems by simp
  note n = next_sequence_total [OF this]
  with next_sequence_Inr [OF n] Cons.prems
  obtain es' buf w' where "stamp_batch to_vec es (w\<lparr> w_sequence := w_sequence w + 1 \<rparr>) = (Inr (es', buf), w')"
    using Cons.IH [of "w\<lparr> w_sequence := w_sequence w + 1 \<rparr>"] by auto
  then show ?case using n assms(1) by (auto simp: Let_def split: option.splits)
qed simp

section \<open>Appending and replaying\<close>

lemma raw_lines_Nil [simp]: "raw_lines [] = []"
  by (simp add: raw_lines.simps)

lemma raw_lines_line:
  assumes "CHR 0x0A \<notin> set l"
  shows "raw_lines (l @ CHR 0x0A # s) = chomp l # raw_lines s"
proof -
  have "dropWhile (\<lambda>c. c \<noteq> CHR 0x0A) (l @ CHR 0x0A # s) = CHR 0x0A # s"
    "takeWhile (\<lambda>c. c \<noteq> CHR 0x0A) (l @ CHR 0x0A # s) = l"
    using assms by (auto simp: dropWhile_append takeWhile_append)
  then show ?thesis by (subst raw_lines.simps) simp
qed

lemma raw_lines_last: "CHR 0x0A \<notin> set l \<Longrightarrow> l \<noteq> [] \<Longrightarrow> raw_lines l = [l]"
proof -
  assume a: "CHR 0x0A \<notin> set l" "l \<noteq> []"
  then have "dropWhile (\<lambda>c. c \<noteq> CHR 0x0A) l = []" unfolding dropWhile_eq_Nil_conv by blast
  with a(2) show ?thesis by (subst raw_lines.simps) (simp only: list.case if_False)
qed

text \<open>A clean file ends with a newline, so what is appended starts a line of its own.\<close>

definition clean :: "string \<Rightarrow> bool" where
  "clean s \<longleftrightarrow> s = [] \<or> last s = CHR 0x0A"

lemma clean_append: "clean s \<Longrightarrow> clean t \<Longrightarrow> clean (s @ t)"
  by (cases "t = []") (auto simp: clean_def)

lemma raw_lines_append:
  assumes "clean s"
  shows "raw_lines (s @ t) = raw_lines s @ raw_lines t"
  using assms
proof (induction "length s" arbitrary: s rule: less_induct)
  case less
  show ?case
  proof (cases "s = []")
    case False
    then have nl: "CHR 0x0A \<in> set s" using less.prems by (auto simp: clean_def dest: last_in_set)
    then obtain l r where s: "s = l @ CHR 0x0A # r" "CHR 0x0A \<notin> set l"
      by (auto dest: split_list_first)
    have "clean r" using less.prems s by (auto simp: clean_def split: if_splits)
    then have "raw_lines (r @ t) = raw_lines r @ raw_lines t" using less.hyps [of r] s(1) by simp
    then show ?thesis using s by (simp add: raw_lines_line)
  qed simp
qed

lemma replay_lines_append:
  "replay_lines from_str (ls @ ls') =
     (case replay_lines from_str ls of Inl err \<Rightarrow> Inl err
      | Inr es \<Rightarrow> (case replay_lines from_str ls' of Inl err \<Rightarrow> Inl err | Inr es' \<Rightarrow> Inr (es @ es')))"
  by (induction ls) (auto split: sum.splits option.splits)

lemma chomp_id: "l = [] \<or> last l \<noteq> CHR 0x0D \<Longrightarrow> chomp l = l"
  by (auto simp: chomp_def)

lemma codec_line:
  assumes "json_codec to_vec from_str" "to_vec w = Some l"
  shows "CHR 0x0A \<notin> set l" "utf8_valid l" "trim l \<noteq> []" "chomp l = l" "we_finite w \<Longrightarrow> from_str l = Some w"
  using assms by (auto simp: json_codec_def chomp_id)

text \<open>The lines of a batch, read back, are its entries.\<close>

lemma replay_batch:
  assumes codec: "json_codec to_vec from_str" and "list_all we_finite es" and "map to_vec es = map Some ls"
  shows "replay_lines from_str (raw_lines (concat (map (\<lambda>l. l @ [CHR 0x0A]) ls))) = Inr es \<and>
    clean (concat (map (\<lambda>l. l @ [CHR 0x0A]) ls))"
  using assms(2,3)
proof (induction es arbitrary: ls)
  case Nil
  then show ?case by (simp add: clean_def)
next
  case (Cons e es)
  then obtain l ls' where l: "ls = l # ls'" "to_vec e = Some l" "map to_vec es = map Some ls'"
    by (cases ls) auto
  note C = codec_line [OF codec l(2)]
  have IH: "replay_lines from_str (raw_lines (concat (map (\<lambda>l. l @ [CHR 0x0A]) ls'))) = Inr es"
    "clean (concat (map (\<lambda>l. l @ [CHR 0x0A]) ls'))"
    using Cons.IH [OF _ l(3)] Cons.prems(1) by auto
  have "raw_lines (concat (map (\<lambda>l. l @ [CHR 0x0A]) ls)) =
      l # raw_lines (concat (map (\<lambda>l. l @ [CHR 0x0A]) ls'))"
    using raw_lines_line [OF C(1)] C(4) l(1) by simp
  moreover have "clean (concat (map (\<lambda>l. l @ [CHR 0x0A]) ls))"
    using IH(2) l(1) by (auto simp: clean_def)
  ultimately show ?case using IH(1) C(2,3,5) Cons.prems(1) by simp
qed

text \<open>Every log line that a clean file holds survives an append, and the appended batch follows it.\<close>

lemma append_batch_replay:
  assumes "json_codec to_vec from_str" "stamp_batch to_vec es w = (Inr (es', buf), w')"
    and "list_all we_finite es" and "clean (file_bytes f)" and "wal_replay from_str f = Inr old"
  shows "wal_replay from_str (Some (file_bytes f @ buf)) = Inr (old @ es')"
    and "clean (file_bytes f @ buf)"
proof -
  note S = stamp_batch_Inr [OF assms(2)]
  then obtain ls where ls: "map to_vec es' = map Some ls" "buf = concat (map (\<lambda>l. l @ [CHR 0x0A]) ls)"
    by blast
  have "map we_embedding es' = map (we_embedding \<circ> unstamped) es'" by (simp add: unstamped_def)
  also have "\<dots> = map (we_embedding \<circ> unstamped) es" using S by (metis map_map)
  also have "\<dots> = map we_embedding es" by (simp add: unstamped_def)
  finally have "list_all we_finite es'"
    using assms(3) unfolding we_finite_def by (metis (mono_tags, lifting) list.pred_map comp_def list_all_cong)
  note B = replay_batch [OF assms(1) this ls(1)]
  have old: "replay_lines from_str (raw_lines (file_bytes f)) = Inr old"
    using assms(5) by (cases f) (simp_all add: wal_replay_def file_bytes_def)
  show "wal_replay from_str (Some (file_bytes f @ buf)) = Inr (old @ es')"
    using B old by (simp add: wal_replay_def raw_lines_append [OF assms(4)] replay_lines_append ls(2))
  show "clean (file_bytes f @ buf)"
    using B assms(4) by (simp add: clean_append ls(2))
qed

text \<open>
  A torn tail \<open>t\<close>, left by a crash in the middle of a write, is not repaired when the log is opened:
  the next line is glued to it.
\<close>

lemma torn_tail_glued:
  assumes codec: "json_codec to_vec from_str" and es: "map to_vec (e # es) = map Some (l # ls)" "list_all we_finite es"
    and "clean f" and "wal_replay from_str (Some f) = Inr old" and "CHR 0x0A \<notin> set t"
    and "utf8_valid (t @ l)" and "from_str (t @ l) = None"
  shows "wal_replay from_str (Some (f @ t @ concat (map (\<lambda>l. l @ [CHR 0x0A]) (l # ls)))) = Inr (old @ es)"
proof -
  have l: "to_vec e = Some l" "map to_vec es = map Some ls" using es(1) by auto
  note C = codec_line [OF codec l(1)]
  have ch: "chomp (t @ l) = t @ l"
  proof (rule chomp_id)
    have "l \<noteq> []" using C(3) by (auto simp: trim_def trim_start_def)
    then show "t @ l = [] \<or> last (t @ l) \<noteq> CHR 0x0D" using codec l(1) by (auto simp: json_codec_def)
  qed
  have r: "raw_lines (t @ concat (map (\<lambda>l. l @ [CHR 0x0A]) (l # ls))) =
      (t @ l) # raw_lines (concat (map (\<lambda>l. l @ [CHR 0x0A]) ls))"
    using raw_lines_line [of "t @ l"] assms(6) C(1) ch by simp
  have "replay_lines from_str (raw_lines (t @ concat (map (\<lambda>l. l @ [CHR 0x0A]) (l # ls)))) = Inr es"
    unfolding r using replay_batch [OF codec es(2) l(2)] assms(7,8) by simp
  then show ?thesis
    using assms(5) by (simp add: wal_replay_def raw_lines_append [OF assms(4)] replay_lines_append)
qed

section \<open>A codec that satisfies it\<close>

text \<open>
  A line format for which \<open>json_codec\<close> holds: the fields in order, each byte as two letters and each
  field closed by a comma.
\<close>

definition enc_str :: "string \<Rightarrow> string" where
  "enc_str s = concat (map (\<lambda>c. [char_of (97 + byte_val c div 16), char_of (97 + byte_val c mod 16)]) s)"

fun dec_str :: "string \<Rightarrow> string" where
  "dec_str (a # b # r) = char_of (16 * (byte_val a - 97) + (byte_val b - 97)) # dec_str r"
| "dec_str r = []"

definition u64_str :: "u64 \<Rightarrow> string" where
  "u64_str x = map (\<lambda>b. char_of (unat b)) (u64_to_le_bytes x)"

definition str_u64 :: "string \<Rightarrow> u64" where
  "str_u64 s = u64_from_le_bytes (map (\<lambda>c. of_nat (byte_val c)) s)"

fun str_f32s :: "nat \<Rightarrow> string \<Rightarrow> f32 list" where
  "str_f32s 0 s = []"
| "str_f32s (Suc n) s = ucast (str_u64 (take 8 s)) # str_f32s n (drop 8 s)"

definition field_list :: "wal_entry \<Rightarrow> string list" where
  "field_list w = [we_uuid w, concat (map (\<lambda>x. u64_str (ucast x)) (we_embedding w)), we_response w,
     we_query_text w, we_model_id w, u64_str (we_sequence w), u64_str (we_inserted_at w),
     if we_tombstone w then ''t'' else [], case we_expires_at w of None \<Rightarrow> [] | Some t \<Rightarrow> u64_str t]"

definition line_to_vec :: "wal_entry \<Rightarrow> string option" where
  "line_to_vec w = Some (concat (map (\<lambda>f. enc_str f @ [CHR 0x2C]) (field_list w)))"

fun split_fields :: "string \<Rightarrow> string \<Rightarrow> string list" where
  "split_fields acc [] = []"
| "split_fields acc (c # s) =
     (if c = CHR 0x2C then rev acc # split_fields [] s else split_fields (c # acc) s)"

definition line_from_str :: "string \<Rightarrow> wal_entry option" where
  "line_from_str l =
     (case map dec_str (split_fields [] l) of
        [u, e, r, q, m, s, i, t, x] \<Rightarrow>
          Some \<lparr> we_uuid = u, we_embedding = str_f32s (length e div 8) e, we_response = r,
                 we_query_text = q, we_model_id = m, we_sequence = str_u64 s,
                 we_inserted_at = str_u64 i, we_tombstone = (t \<noteq> []),
                 we_expires_at = (if x = [] then None else Some (str_u64 x)) \<rparr>
      | _ \<Rightarrow> None)"

lemma byte_val_bound: "byte_val c < 256"
  by (simp add: byte_val_def)

lemma byte_val_char_of: "n < 256 \<Longrightarrow> byte_val (char_of n) = n"
  by (simp add: byte_val_def)

lemma char_of_byte_val [simp]: "char_of (byte_val c) = c"
  by (simp add: byte_val_def)

lemma dec_enc_str [simp]: "dec_str (enc_str s) = s"
proof (induction s)
  case (Cons c s)
  have "byte_val c div 16 < 16" using byte_val_bound [of c] by simp
  then show ?case using Cons by (simp add: enc_str_def byte_val_char_of)
qed (simp add: enc_str_def)

lemma enc_str_chars: "c \<in> set (enc_str s) \<Longrightarrow> 97 \<le> byte_val c \<and> byte_val c < 113"
proof (induction s)
  case (Cons d s)
  have "byte_val d div 16 < 16" using byte_val_bound [of d] by simp
  with Cons show ?case by (auto simp: enc_str_def byte_val_char_of)
qed (simp add: enc_str_def)

lemma split_fields_append:
  "CHR 0x2C \<notin> set f \<Longrightarrow> split_fields acc (f @ CHR 0x2C # s) = (rev acc @ f) # split_fields [] s"
  by (induction f arbitrary: acc) auto

lemma split_fields_concat:
  "split_fields [] (concat (map (\<lambda>f. enc_str f @ [CHR 0x2C]) fs)) = map enc_str fs"
proof (induction fs)
  case (Cons f fs)
  have "CHR 0x2C \<notin> set (enc_str f)" using enc_str_chars [of "CHR 0x2C" f] by (auto simp: byte_val_def)
  then show ?case using Cons by (simp add: split_fields_append)
qed simp

lemma length_u64_str [simp]: "length (u64_str x) = 8"
  by (simp add: u64_str_def)

lemma str_u64_str [simp]: "str_u64 (u64_str x) = x"
proof -
  have "unat b < 256" for b :: u8 using unsigned_less [of b, where 'a = nat] by simp
  then have "map (\<lambda>c. of_nat (byte_val c)) (u64_str x) = u64_to_le_bytes x"
    by (simp add: u64_str_def comp_def byte_val_char_of)
  then show ?thesis by (simp add: str_u64_def u64_le_bytes_roundtrip)
qed

lemma length_f32_strs: "length (concat (map (\<lambda>x. u64_str (ucast x)) es)) = 8 * length es"
  by (induction es) auto

lemma ucast_ucast_f32: "ucast (ucast (x :: f32) :: u64) = x"
  by (rule bit_word_eqI) (simp add: bit_simps)

lemma str_f32s_strs: "str_f32s (length es) (concat (map (\<lambda>x. u64_str (ucast x)) (es :: f32 list))) = es"
  by (induction es) (simp_all add: ucast_ucast_f32)

lemma line_roundtrip: "line_to_vec w = Some l \<Longrightarrow> line_from_str l = Some w"
proof -
  assume "line_to_vec w = Some l"
  then have "map dec_str (split_fields [] l) = field_list w"
    by (auto simp: line_to_vec_def split_fields_concat comp_def)
  moreover have "u64_str x \<noteq> []" for x using length_u64_str [of x] by force
  ultimately show ?thesis
    by (cases w) (auto simp: line_from_str_def field_list_def length_f32_strs str_f32s_strs split: option.split)
qed

lemma ascii_utf8_valid: "\<forall>c \<in> set s. byte_val c < 128 \<Longrightarrow> utf8_valid s"
  by (induction s) (auto simp: utf8_valid.simps utf8_len_def Let_def)

lemma trim_visible: "s \<noteq> [] \<Longrightarrow> \<forall>c \<in> set s. \<not> is_whitespace c \<Longrightarrow> trim s = s"
proof -
  have d: "dropWhile is_whitespace t = t" if "\<forall>c \<in> set t. \<not> is_whitespace c" for t
    using that by (cases t) auto
  assume "\<forall>c \<in> set s. \<not> is_whitespace c"
  then show ?thesis by (simp add: trim_def trim_start_def d)
qed

lemma line_codec: "json_codec line_to_vec line_from_str"
  unfolding json_codec_def
proof (intro allI impI)
  fix w l
  assume w: "line_to_vec w = Some l"
  have ch: "c = CHR 0x2C \<or> 97 \<le> byte_val c \<and> byte_val c < 113" if "c \<in> set l" for c
    using that w by (auto simp: line_to_vec_def split: if_splits dest: enc_str_chars)
  have ne: "l \<noteq> []" "last l = CHR 0x2C" using w by (auto simp: line_to_vec_def field_list_def)
  have "byte_val c < 128 \<and> \<not> is_whitespace c \<and> c \<noteq> CHR 0x0A" if "c \<in> set l" for c
    using ch [OF that] by (auto simp: byte_val_def is_whitespace_def Let_def)
  then show "CHR 0x0A \<notin> set l \<and> utf8_valid l \<and> trim l \<noteq> [] \<and> last l \<noteq> CHR 0x0D \<and>
      (we_finite w \<longrightarrow> line_from_str l = Some w)"
    using ne line_roundtrip [OF w] ascii_utf8_valid [of l] trim_visible [of l] by auto
qed

end
