(* ===== verification/Snapshot.thy ===== *)
theory Snapshot
  imports Semantic_Index_Correct Wal
begin

text \<open>
  Snapshots, \<open>src/snapshot.rs\<close>: a 32-byte header and a body encoded by bincode, written to a temporary
  file that is renamed over the snapshot. Bincode is a pair of parameters \<open>ser\<close> and \<open>de\<close>.
\<close>

section \<open>Format\<close>

definition MAGIC :: u64 where "MAGIC = 0x464552524F534E41"
definition VERSION :: u64 where "VERSION = 1"

datatype snapshot_error =
  SnapDirFailed | SnapSerializeFailed | SnapOpenFailed | SnapWriteFailed | SnapSyncFailed | SnapRenameFailed
  | SnapReadFailed | SnapTooShort nat | SnapMagicMismatch u64 | SnapBadVersion u64
  | SnapDecodeFailed | SnapCountMismatch u64 nat | SnapTruncateFailed wal_error

text \<open>The file at the snapshot path and the one at the temporary path.\<close>

record snap_disk =
  sd_snap :: "u8 list option"
  sd_tmp :: "u8 list option"

datatype snap_outcome =
  SnapOk | SnapDirFail | SnapOpenFail | SnapWriteFail nat | SnapSyncFail | SnapRenameFail

record compaction_result =
  cr_entries_snapshotted :: nat
  cr_wal_sequence :: u64

definition snapshot_path_for :: "string \<Rightarrow> string" where
  "snapshot_path_for path = path @ ''.snap''"

definition temp_path_for :: "string \<Rightarrow> string" where
  "temp_path_for path = path @ ''.tmp''"

definition snapshot_bytes :: "u64 \<Rightarrow> nat \<Rightarrow> u8 list \<Rightarrow> u8 list" where
  "snapshot_bytes wal_sequence entry_count body =
     u64_to_le_bytes MAGIC @ u64_to_le_bytes VERSION @ u64_to_le_bytes wal_sequence @
     u64_to_le_bytes (of_nat entry_count) @ body"

section \<open>Operations\<close>

definition write_snapshot ::
  "(snapshot_entry list \<Rightarrow> u8 list option) \<Rightarrow> snap_outcome \<Rightarrow> snapshot_entry list \<Rightarrow> u64 \<Rightarrow> snap_disk \<Rightarrow>
   (snapshot_error + unit) \<times> snap_disk" where
  "write_snapshot ser out snaps wal_sequence d =
     (if out = SnapDirFail then (Inl SnapDirFailed, d)
      else case ser snaps of
        None \<Rightarrow> (Inl SnapSerializeFailed, d)
      | Some body \<Rightarrow>
          (let bytes = snapshot_bytes wal_sequence (length snaps) body
           in case out of
                SnapOk \<Rightarrow> (Inr (), \<lparr> sd_snap = Some bytes, sd_tmp = None \<rparr>)
              | SnapDirFail \<Rightarrow> (Inl SnapDirFailed, d)
              | SnapOpenFail \<Rightarrow> (Inl SnapOpenFailed, d)
              | SnapWriteFail n \<Rightarrow> (Inl SnapWriteFailed, d\<lparr> sd_tmp := Some (take n bytes) \<rparr>)
              | SnapSyncFail \<Rightarrow> (Inl SnapSyncFailed, d\<lparr> sd_tmp := Some bytes \<rparr>)
              | SnapRenameFail \<Rightarrow> (Inl SnapRenameFailed, d\<lparr> sd_tmp := Some bytes \<rparr>)))"

definition read_snapshot ::
  "(u8 list \<Rightarrow> snapshot_entry list option) \<Rightarrow> u8 list option \<Rightarrow>
   snapshot_error + snapshot_entry list \<times> u64" where
  "read_snapshot de file =
     (case file of
        None \<Rightarrow> Inl SnapReadFailed
      | Some bytes \<Rightarrow>
          if length bytes < 32 then Inl (SnapTooShort (length bytes))
          else let magic = u64_from_le_bytes (take 8 bytes);
                   version = u64_from_le_bytes (take 8 (drop 8 bytes));
                   wal_sequence = u64_from_le_bytes (take 8 (drop 16 bytes));
                   entry_count = u64_from_le_bytes (take 8 (drop 24 bytes));
                   body = drop 32 bytes
               in if magic \<noteq> MAGIC then Inl (SnapMagicMismatch magic)
                  else if version \<noteq> VERSION then Inl (SnapBadVersion version)
                  else (case de body of
                         None \<Rightarrow> Inl SnapDecodeFailed
                       | Some snaps \<Rightarrow>
                           if of_nat (length snaps) \<noteq> entry_count
                           then Inl (SnapCountMismatch entry_count (length snaps))
                           else Inr (snaps, wal_sequence)))"

definition compact ::
  "(snapshot_entry list \<Rightarrow> u8 list option) \<Rightarrow> snap_outcome \<Rightarrow> truncate_outcome \<Rightarrow>
   semantic_index \<Rightarrow> wal \<Rightarrow> snap_disk \<Rightarrow> wal_file \<Rightarrow>
   (snapshot_error + compaction_result) \<times> snap_disk \<times> wal_file" where
  "compact ser snap_out trunc_out si w d f =
     (let snaps = snapshot_entries si; wal_sequence = current_sequence w
      in case write_snapshot ser snap_out snaps wal_sequence d of
           (Inl err, d') \<Rightarrow> (Inl err, d', f)
         | (Inr _, d') \<Rightarrow>
             (case wal_truncate trunc_out f of
                (Inl err, f') \<Rightarrow> (Inl (SnapTruncateFailed err), d', f')
              | (Inr _, f') \<Rightarrow>
                  (Inr \<lparr> cr_entries_snapshotted = length snaps, cr_wal_sequence = wal_sequence \<rparr>, d', f')))"

section \<open>Correctness\<close>

text \<open>Bincode decodes what it encoded.\<close>

definition bincode_codec ::
  "(snapshot_entry list \<Rightarrow> u8 list option) \<Rightarrow> (u8 list \<Rightarrow> snapshot_entry list option) \<Rightarrow> bool" where
  "bincode_codec ser de \<longleftrightarrow> (\<forall>es b. ser es = Some b \<longrightarrow> de b = Some es)"

lemma read_snapshot_bytes:
  "read_snapshot de (Some (snapshot_bytes seq n body)) =
     (case de body of
        None \<Rightarrow> Inl SnapDecodeFailed
      | Some es \<Rightarrow> if of_nat (length es) \<noteq> (of_nat n :: u64) then Inl (SnapCountMismatch (of_nat n) (length es))
                  else Inr (es, seq))"
  by (simp add: read_snapshot_def snapshot_bytes_def Let_def u64_le_bytes_roundtrip split: option.split)

lemma write_snapshot_Inr:
  assumes "write_snapshot ser out es seq d = (Inr u, d')"
  obtains body where "ser es = Some body" "sd_snap d' = Some (snapshot_bytes seq (length es) body)"
  using assms by (auto simp: write_snapshot_def Let_def split: if_splits option.splits snap_outcome.splits)

lemma write_snapshot_Inl:
  "write_snapshot ser out es seq d = (Inl err, d') \<Longrightarrow> sd_snap d' = sd_snap d"
  by (auto simp: write_snapshot_def Let_def split: if_splits option.splits snap_outcome.splits)

lemma snapshot_write_read:
  assumes "bincode_codec ser de" "write_snapshot ser out es seq d = (Inr u, d')"
  shows "read_snapshot de (sd_snap d') = Inr (es, seq)"
proof -
  from assms(2) obtain body where "ser es = Some body"
      "sd_snap d' = Some (snapshot_bytes seq (length es) body)" by (rule write_snapshot_Inr)
  with assms(1) show ?thesis by (simp add: bincode_codec_def read_snapshot_bytes)
qed

text \<open>
  Compaction at every point where it can stop: either the snapshot on disk is the old one and the
  log is untouched, or the snapshot is the new one and the log is whole or empty.
\<close>

lemma compact_cases:
  assumes "compact ser so tro si w d f = (r, d', f')"
  obtains (old) "isl r" "sd_snap d' = sd_snap d" "f' = f"
  | (new) body where "ser (snapshot_entries si) = Some body"
      "sd_snap d' = Some (snapshot_bytes (w_sequence w) (length (snapshot_entries si)) body)"
      "f' = f \<or> f' = Some []" "isl r \<or> f' = Some []"
proof (cases "write_snapshot ser so (snapshot_entries si) (w_sequence w) d")
  case (Pair x d1)
  show thesis
  proof (cases x)
    case (Inl err)
    with Pair assms write_snapshot_Inl [of ser so _ _ d err d1] show thesis
      by (intro old) (auto simp: compact_def current_sequence_def Let_def)
  next
    case (Inr u)
    with Pair obtain body where b: "ser (snapshot_entries si) = Some body"
        "sd_snap d1 = Some (snapshot_bytes (w_sequence w) (length (snapshot_entries si)) body)"
      by (auto elim: write_snapshot_Inr)
    have "d' = d1" "f' = f \<or> f' = Some []" "isl r \<or> f' = Some []"
      using assms Pair Inr
      by (auto simp: compact_def current_sequence_def Let_def wal_truncate_def
          split: truncate_outcome.splits)
    with b show thesis by (intro new) auto
  qed
qed

section \<open>A codec that satisfies it\<close>

text \<open>A snapshot body as a list of log lines: enough to show that \<open>bincode_codec\<close> can hold.\<close>

definition char_byte :: "char \<Rightarrow> u8" where "char_byte c = of_nat (byte_val c)"
definition byte_char :: "u8 \<Rightarrow> char" where "byte_char b = char_of (unat b)"

definition snap_fields :: "snapshot_entry \<Rightarrow> string list" where
  "snap_fields s = [se_uuid s, concat (map (\<lambda>x. u64_str (ucast x)) (se_embedding s)), se_response s,
     se_query_text s, se_model_id s, u64_str (se_inserted_at s), u64_str (se_last_accessed_at s),
     u64_str (se_access_count s), if se_tombstone s then ''t'' else [],
     case se_expires_at s of None \<Rightarrow> [] | Some t \<Rightarrow> u64_str t]"

definition snap_of_fields :: "string list \<Rightarrow> snapshot_entry" where
  "snap_of_fields fs =
     \<lparr> se_uuid = fs ! 0, se_embedding = str_f32s (length (fs ! 1) div 8) (fs ! 1), se_response = fs ! 2,
       se_query_text = fs ! 3, se_model_id = fs ! 4, se_inserted_at = str_u64 (fs ! 5),
       se_last_accessed_at = str_u64 (fs ! 6), se_access_count = str_u64 (fs ! 7),
       se_tombstone = (fs ! 8 \<noteq> []), se_expires_at = (if fs ! 9 = [] then None else Some (str_u64 (fs ! 9))) \<rparr>"

fun group_ten :: "string list \<Rightarrow> string list list" where
  "group_ten fs = (if length fs < 10 then [] else take 10 fs # group_ten (drop 10 fs))"

declare group_ten.simps [simp del]

definition plain_ser :: "snapshot_entry list \<Rightarrow> u8 list option" where
  "plain_ser es = Some (map char_byte (concat (map (\<lambda>f. enc_str f @ [CHR 0x2C]) (concat (map snap_fields es)))))"

definition plain_de :: "u8 list \<Rightarrow> snapshot_entry list option" where
  "plain_de b = Some (map snap_of_fields (group_ten (map dec_str (split_fields [] (map byte_char b)))))"

lemma byte_char_byte [simp]: "byte_char (char_byte c) = c"
proof -
  have "unat (of_nat (byte_val c) :: u8) = byte_val c"
    using byte_val_bound [of c] by (simp add: unat_of_nat)
  then show ?thesis by (simp add: byte_char_def char_byte_def)
qed

lemma length_snap_fields [simp]: "length (snap_fields s) = 10"
  by (simp add: snap_fields_def)

lemma group_ten_concat: "group_ten (concat (map snap_fields es)) = map snap_fields es"
  by (induction es) (simp_all add: group_ten.simps)

lemma snap_of_fields_fields: "snap_of_fields (snap_fields s) = s"
proof -
  have "u64_str x \<noteq> []" for x using length_u64_str [of x] by force
  then show ?thesis
    by (cases s) (auto simp: snap_of_fields_def snap_fields_def length_f32_strs str_f32s_strs split: option.split)
qed

lemma plain_codec: "bincode_codec plain_ser plain_de"
  by (auto simp: bincode_codec_def plain_ser_def plain_de_def comp_def split_fields_concat group_ten_concat
      snap_of_fields_fields)

end
