(* ===== verification/Metrics.thy ===== *)
theory Metrics
  imports Rust_Float
begin

text \<open>
  The counters of \<open>src/metrics.rs\<close>: atomics are \<^typ>\<open>u64\<close> values that wrap, the per-namespace counters
  are a hash map that gains an entry on first use, and a latency histogram has cumulative buckets.
\<close>

section \<open>State\<close>

record latency_histogram =
  lh_buckets :: "(real \<times> u64) list"
  lh_sum_micros :: u64
  lh_count :: u64

record namespace_metrics =
  nm_queries_hit :: u64
  nm_queries_miss :: u64
  nm_inserts :: u64
  nm_evictions :: u64
  nm_expirations :: u64
  nm_deletions :: u64
  nm_invalidations :: u64
  nm_exact_match_hits :: u64

record metrics =
  queries_total :: u64
  queries_hit :: u64
  queries_miss :: u64
  inserts_total :: u64
  replication_forwards_total :: u64
  replication_failures_total :: u64
  replication_retries_total :: u64
  compactions_total :: u64
  ring_changes_total :: u64
  read_repairs_total :: u64
  read_repair_failures_total :: u64
  evictions_total :: u64
  index_rebuilds_total :: u64
  expirations_total :: u64
  deletions_total :: u64
  invalidations_total :: u64
  exact_match_hits_total :: u64
  ns_metrics :: "(string, namespace_metrics) hmap"
  query_duration :: latency_histogram
  insert_duration :: latency_histogram

definition BUCKET_BOUNDS :: "real list" where
  "BUCKET_BOUNDS = [1/10000, 25/100000, 5/10000, 1/1000, 25/10000, 5/1000, 1/100, 25/1000,
     5/100, 1/10, 25/100, 5/10, 1, 25/10, 5, 10]"

section \<open>Operations\<close>

definition lh_new :: latency_histogram where
  "lh_new = \<lparr> lh_buckets = map (\<lambda>b. (b, 0)) BUCKET_BOUNDS, lh_sum_micros = 0, lh_count = 0 \<rparr>"

text \<open>\<open>x.round() as u64\<close> for a value that is not negative: half away from zero, then saturating.\<close>

definition round_to_u64 :: "flt \<Rightarrow> u64" where
  "round_to_u64 x =
     (case x of NaN \<Rightarrow> 0 | NInf \<Rightarrow> 0 | PInf \<Rightarrow> - 1
      | Fin r \<Rightarrow> (let n = \<lfloor>r + 1 / 2\<rfloor> in if 2 ^ 64 \<le> n then - 1 else if n < 0 then 0 else of_int n))"

definition clamp_duration :: "flt \<Rightarrow> flt" where
  "clamp_duration d = (if d = NaN \<or> flt_lt d (Fin 0) then Fin 0 else d)"

definition observe :: "flt \<Rightarrow> latency_histogram \<Rightarrow> latency_histogram" where
  "observe duration_seconds h =
     (let d = clamp_duration duration_seconds
      in h\<lparr> lh_buckets := map (\<lambda>(bound, count). (bound, if flt_le d (Fin bound) then count + 1 else count))
                            (lh_buckets h),
            lh_sum_micros := lh_sum_micros h + round_to_u64 (flt_mul d (Fin 1000000)),
            lh_count := lh_count h + 1 \<rparr>)"

definition nm_default :: namespace_metrics where
  "nm_default = \<lparr> nm_queries_hit = 0, nm_queries_miss = 0, nm_inserts = 0, nm_evictions = 0,
     nm_expirations = 0, nm_deletions = 0, nm_invalidations = 0, nm_exact_match_hits = 0 \<rparr>"

definition metrics_new :: metrics where
  "metrics_new =
     \<lparr> queries_total = 0, queries_hit = 0, queries_miss = 0, inserts_total = 0,
       replication_forwards_total = 0, replication_failures_total = 0,
       replication_retries_total = 0, compactions_total = 0, ring_changes_total = 0,
       read_repairs_total = 0, read_repair_failures_total = 0, evictions_total = 0,
       index_rebuilds_total = 0, expirations_total = 0, deletions_total = 0,
       invalidations_total = 0, exact_match_hits_total = 0, ns_metrics = [],
       query_duration = lh_new, insert_duration = lh_new \<rparr>"

text \<open>
  Each per-namespace counter first looks for the namespace under the read lock and bumps the counter
  there; otherwise \<open>entry(namespace).or_default()\<close> under the write lock.
\<close>

definition bump_ns ::
  "(namespace_metrics \<Rightarrow> namespace_metrics) \<Rightarrow> string \<Rightarrow> metrics \<Rightarrow> metrics" where
  "bump_ns f namespace m =
     (case hm_get (ns_metrics m) namespace of
        Some n \<Rightarrow> m\<lparr> ns_metrics := hm_insert namespace (f n) (ns_metrics m) \<rparr>
      | None \<Rightarrow> m\<lparr> ns_metrics := hm_insert namespace (f nm_default) (ns_metrics m) \<rparr>)"

definition ns_query_hit :: "string \<Rightarrow> metrics \<Rightarrow> metrics" where
  "ns_query_hit = bump_ns (\<lambda>n. n\<lparr> nm_queries_hit := nm_queries_hit n + 1 \<rparr>)"

definition ns_query_miss :: "string \<Rightarrow> metrics \<Rightarrow> metrics" where
  "ns_query_miss = bump_ns (\<lambda>n. n\<lparr> nm_queries_miss := nm_queries_miss n + 1 \<rparr>)"

definition ns_insert :: "string \<Rightarrow> metrics \<Rightarrow> metrics" where
  "ns_insert = bump_ns (\<lambda>n. n\<lparr> nm_inserts := nm_inserts n + 1 \<rparr>)"

definition record_query_hit :: "string \<Rightarrow> flt \<Rightarrow> metrics \<Rightarrow> metrics" where
  "record_query_hit namespace duration_secs m =
     (let m1 = m\<lparr> queries_total := queries_total m + 1, queries_hit := queries_hit m + 1 \<rparr>;
          m2 = ns_query_hit namespace m1
      in m2\<lparr> query_duration := observe duration_secs (query_duration m2) \<rparr>)"

definition record_query_miss :: "string \<Rightarrow> flt \<Rightarrow> metrics \<Rightarrow> metrics" where
  "record_query_miss namespace duration_secs m =
     (let m1 = m\<lparr> queries_total := queries_total m + 1, queries_miss := queries_miss m + 1 \<rparr>;
          m2 = ns_query_miss namespace m1
      in m2\<lparr> query_duration := observe duration_secs (query_duration m2) \<rparr>)"

definition record_insert :: "string \<Rightarrow> flt \<Rightarrow> metrics \<Rightarrow> metrics" where
  "record_insert namespace duration_secs m =
     (let m1 = m\<lparr> inserts_total := inserts_total m + 1 \<rparr>;
          m2 = ns_insert namespace m1
      in m2\<lparr> insert_duration := observe duration_secs (insert_duration m2) \<rparr>)"

definition record_replication_forward :: "metrics \<Rightarrow> metrics" where
  "record_replication_forward m = m\<lparr> replication_forwards_total := replication_forwards_total m + 1 \<rparr>"

definition record_replication_failure :: "metrics \<Rightarrow> metrics" where
  "record_replication_failure m = m\<lparr> replication_failures_total := replication_failures_total m + 1 \<rparr>"

definition record_replication_retry :: "metrics \<Rightarrow> metrics" where
  "record_replication_retry m = m\<lparr> replication_retries_total := replication_retries_total m + 1 \<rparr>"

definition record_compaction :: "metrics \<Rightarrow> metrics" where
  "record_compaction m = m\<lparr> compactions_total := compactions_total m + 1 \<rparr>"

definition record_ring_change :: "metrics \<Rightarrow> metrics" where
  "record_ring_change m = m\<lparr> ring_changes_total := ring_changes_total m + 1 \<rparr>"

definition record_read_repair :: "metrics \<Rightarrow> metrics" where
  "record_read_repair m = m\<lparr> read_repairs_total := read_repairs_total m + 1 \<rparr>"

definition record_read_repair_failure :: "metrics \<Rightarrow> metrics" where
  "record_read_repair_failure m = m\<lparr> read_repair_failures_total := read_repair_failures_total m + 1 \<rparr>"

definition record_eviction :: "string \<Rightarrow> metrics \<Rightarrow> metrics" where
  "record_eviction namespace m =
     bump_ns (\<lambda>n. n\<lparr> nm_evictions := nm_evictions n + 1 \<rparr>) namespace
       (m\<lparr> evictions_total := evictions_total m + 1 \<rparr>)"

definition record_rebuild :: "metrics \<Rightarrow> metrics" where
  "record_rebuild m = m\<lparr> index_rebuilds_total := index_rebuilds_total m + 1 \<rparr>"

definition record_expiration :: "string \<Rightarrow> metrics \<Rightarrow> metrics" where
  "record_expiration namespace m =
     bump_ns (\<lambda>n. n\<lparr> nm_expirations := nm_expirations n + 1 \<rparr>) namespace
       (m\<lparr> expirations_total := expirations_total m + 1 \<rparr>)"

definition record_deletion :: "string \<Rightarrow> metrics \<Rightarrow> metrics" where
  "record_deletion namespace m =
     bump_ns (\<lambda>n. n\<lparr> nm_deletions := nm_deletions n + 1 \<rparr>) namespace
       (m\<lparr> deletions_total := deletions_total m + 1 \<rparr>)"

definition record_invalidation :: "string \<Rightarrow> metrics \<Rightarrow> metrics" where
  "record_invalidation namespace m =
     bump_ns (\<lambda>n. n\<lparr> nm_invalidations := nm_invalidations n + 1 \<rparr>) namespace
       (m\<lparr> invalidations_total := invalidations_total m + 1 \<rparr>)"

definition record_exact_match_hit :: "string \<Rightarrow> metrics \<Rightarrow> metrics" where
  "record_exact_match_hit namespace m =
     bump_ns (\<lambda>n. n\<lparr> nm_exact_match_hits := nm_exact_match_hits n + 1 \<rparr>) namespace
       (m\<lparr> exact_match_hits_total := exact_match_hits_total m + 1 \<rparr>)"

definition hit_rate :: "metrics \<Rightarrow> real" where
  "hit_rate m =
     (let total = queries_total m
      in if total = 0 then 0 else real (unat (queries_hit m)) / real (unat total))"

definition replace_char :: "char \<Rightarrow> string \<Rightarrow> string \<Rightarrow> string" where
  "replace_char c r s = concat (map (\<lambda>x. if x = c then r else [x]) s)"

definition escape_label :: "string \<Rightarrow> string" where
  "escape_label s =
     replace_char (CHR 0x0A) [CHR 0x5C, CHR ''n'']
       (replace_char (CHR 0x22) [CHR 0x5C, CHR 0x22]
         (replace_char (CHR 0x5C) [CHR 0x5C, CHR 0x5C] s))"

section \<open>The counters agree\<close>

text \<open>
  The totals are the sums over the namespaces, and every query is a hit or a miss. The equations
  are between wrapping words, so they survive an overflow of a counter.
\<close>

definition ns_total :: "(namespace_metrics \<Rightarrow> u64) \<Rightarrow> metrics \<Rightarrow> u64" where
  "ns_total f m = sum_list (map (f \<circ> snd) (ns_metrics m))"

definition metrics_inv :: "metrics \<Rightarrow> bool" where
  "metrics_inv m \<longleftrightarrow> hm_wf (ns_metrics m) \<and>
     queries_total m = queries_hit m + queries_miss m \<and>
     ns_total nm_queries_hit m = queries_hit m \<and> ns_total nm_queries_miss m = queries_miss m \<and>
     ns_total nm_inserts m = inserts_total m \<and> ns_total nm_evictions m = evictions_total m \<and>
     ns_total nm_expirations m = expirations_total m \<and> ns_total nm_deletions m = deletions_total m \<and>
     ns_total nm_invalidations m = invalidations_total m \<and>
     ns_total nm_exact_match_hits m = exact_match_hits_total m"

datatype metric_event =
  EvHit string flt | EvMiss string flt | EvInsert string flt | EvReplForward | EvReplFailure
  | EvReplRetry | EvCompaction | EvRingChange | EvReadRepair | EvReadRepairFailure
  | EvEviction string | EvRebuild | EvExpiration string | EvDeletion string
  | EvInvalidation string | EvExactMatch string

fun apply_event :: "metric_event \<Rightarrow> metrics \<Rightarrow> metrics" where
  "apply_event (EvHit ns d) = record_query_hit ns d"
| "apply_event (EvMiss ns d) = record_query_miss ns d"
| "apply_event (EvInsert ns d) = record_insert ns d"
| "apply_event EvReplForward = record_replication_forward"
| "apply_event EvReplFailure = record_replication_failure"
| "apply_event EvReplRetry = record_replication_retry"
| "apply_event EvCompaction = record_compaction"
| "apply_event EvRingChange = record_ring_change"
| "apply_event EvReadRepair = record_read_repair"
| "apply_event EvReadRepairFailure = record_read_repair_failure"
| "apply_event (EvEviction ns) = record_eviction ns"
| "apply_event EvRebuild = record_rebuild"
| "apply_event (EvExpiration ns) = record_expiration ns"
| "apply_event (EvDeletion ns) = record_deletion ns"
| "apply_event (EvInvalidation ns) = record_invalidation ns"
| "apply_event (EvExactMatch ns) = record_exact_match_hit ns"

lemma sum_update:
  fixes f :: "'v \<Rightarrow> u64"
  assumes "hm_wf m"
  shows "sum_list (map (f \<circ> snd) (AList.update k v m)) =
    sum_list (map (f \<circ> snd) m) + f v - (case map_of m k of None \<Rightarrow> 0 | Some w \<Rightarrow> f w)"
  using assms by (induction m) (auto simp: image_iff split: option.split)

text \<open>How a bump changes the sum of one counter: by what it does to a fresh record.\<close>

lemma ns_total_bump:
  fixes f :: "namespace_metrics \<Rightarrow> u64"
  assumes "hm_wf (ns_metrics m)" and "f nm_default = 0" and "\<And>n. f (g n) = f n + f (g nm_default)"
  shows "sum_list (map (f \<circ> snd) (ns_metrics (bump_ns g ns m))) =
    sum_list (map (f \<circ> snd) (ns_metrics m)) + f (g nm_default)"
proof (cases "map_of (ns_metrics m) ns")
  case None
  then show ?thesis using sum_update [OF assms(1), of f ns "g nm_default"] by (simp add: bump_ns_def)
next
  case (Some n)
  then show ?thesis using sum_update [OF assms(1), of f ns "g n"] assms(3) [of n] by (simp add: bump_ns_def)
qed

lemma bump_ns_wf: "hm_wf (ns_metrics m) \<Longrightarrow> hm_wf (ns_metrics (bump_ns g ns m))"
  by (simp add: bump_ns_def split: option.split)

lemma bump_ns_sel:
  "queries_total (bump_ns g ns m) = queries_total m" "queries_hit (bump_ns g ns m) = queries_hit m"
  "queries_miss (bump_ns g ns m) = queries_miss m" "inserts_total (bump_ns g ns m) = inserts_total m"
  "evictions_total (bump_ns g ns m) = evictions_total m"
  "expirations_total (bump_ns g ns m) = expirations_total m"
  "deletions_total (bump_ns g ns m) = deletions_total m"
  "invalidations_total (bump_ns g ns m) = invalidations_total m"
  "exact_match_hits_total (bump_ns g ns m) = exact_match_hits_total m"
  by (simp_all add: bump_ns_def split: option.split)

lemma metrics_inv_new: "metrics_inv metrics_new"
  by (simp add: metrics_inv_def metrics_new_def ns_total_def)

lemmas event_defs = record_query_hit_def record_query_miss_def record_insert_def
  record_replication_forward_def record_replication_failure_def record_replication_retry_def
  record_compaction_def record_ring_change_def record_read_repair_def record_read_repair_failure_def
  record_eviction_def record_rebuild_def record_expiration_def record_deletion_def
  record_invalidation_def record_exact_match_hit_def ns_query_hit_def ns_query_miss_def ns_insert_def

lemma metrics_inv_event:
  assumes "metrics_inv m"
  shows "metrics_inv (apply_event ev m)"
  using assms unfolding metrics_inv_def ns_total_def
  by (cases ev; simp only: apply_event.simps event_defs Let_def; simp add: bump_ns_sel bump_ns_wf)
    (simp_all add: ns_total_bump nm_default_def)

section \<open>Histograms\<close>

text \<open>
  After any observations, the bucket with bound \<open>b\<close> counts those that were at most \<open>b\<close> (a NaN or a
  negative duration counts as 0), and the count is the number of observations, modulo \<open>2 ^ 64\<close>.
\<close>

lemma observe_fold:
  "lh_buckets (fold observe ds h) =
     map (\<lambda>(b, c). (b, c + of_nat (length (filter (\<lambda>d. flt_le (clamp_duration d) (Fin b)) ds)))) (lh_buckets h) \<and>
   lh_count (fold observe ds h) = lh_count h + of_nat (length ds)"
  by (induction ds arbitrary: h) (auto simp: observe_def Let_def)

lemma filter_le_mono:
  "a \<le> b \<Longrightarrow> length (filter (\<lambda>d. flt_le (clamp_duration d) (Fin a)) ds) \<le>
     length (filter (\<lambda>d. flt_le (clamp_duration d) (Fin b)) ds)"
proof (induction ds)
  case (Cons d ds)
  have "flt_le (clamp_duration d) (Fin a) \<Longrightarrow> flt_le (clamp_duration d) (Fin b)"
    using Cons.prems by (cases "clamp_duration d") auto
  with Cons show ?case by auto
qed simp

section \<open>Label escaping\<close>

definition escape_char :: "char \<Rightarrow> string" where
  "escape_char c =
     (if c = CHR 0x5C then [CHR 0x5C, CHR 0x5C] else if c = CHR 0x22 then [CHR 0x5C, CHR 0x22]
      else if c = CHR 0x0A then [CHR 0x5C, CHR ''n''] else [c])"

lemma replace_char_simps [simp]:
  "replace_char c r [] = []"
  "replace_char c r (x # s) = (if x = c then r else [x]) @ replace_char c r s"
  by (simp_all add: replace_char_def)

text \<open>The three passes do not disturb each other: they are one pass over the characters.\<close>

lemma escape_label_eq: "escape_label s = concat (map escape_char s)"
  by (induction s) (auto simp: escape_label_def escape_char_def replace_char_def)

fun unescape_label :: "string \<Rightarrow> string" where
  "unescape_label (c # d # s) =
     (if c = CHR 0x5C then (if d = CHR ''n'' then CHR 0x0A else d) # unescape_label s
      else c # unescape_label (d # s))"
| "unescape_label s = s"

lemma unescape_plain: "c \<noteq> CHR 0x5C \<Longrightarrow> unescape_label (c # s) = c # unescape_label s"
  by (cases s) auto

lemma unescape_escape: "unescape_label (escape_label s) = s"
  unfolding escape_label_eq
  by (induction s) (auto simp: escape_char_def unescape_plain)

lemma escape_label_chars: "CHR 0x0A \<notin> set (escape_label s)"
  by (auto simp: escape_label_eq escape_char_def split: if_splits)

end
