(* ===== verification/Flush.thy ===== *)
theory Flush
  imports Snapshot Metrics
begin

text \<open>
  The group-commit flush task of \<open>src/wal.rs\<close>: the only writer of the log. It batches the insert
  commands of its channel, writes a batch with one fsync, then updates the index, evicts, compacts
  and answers. A command carries the number of its reply channel; what the disk did in one round of
  the loop is a \<open>flush_io\<close>.
\<close>

section \<open>Commands and state\<close>

datatype insert_error = WalErr wal_error | IndexErr index_error

datatype wal_command = InsertCmd nat wal_entry | CompactCmd nat

datatype reply =
  InsertReply nat "insert_error + u64"
  | CompactReply nat "snapshot_error + compaction_result"

record group_commit_config =
  gc_batch_size :: nat
  gc_batch_timeout_ms :: nat
  gc_channel_capacity :: nat

definition DEFAULT_CHANNEL_CAPACITY :: nat where "DEFAULT_CHANNEL_CAPACITY = 10000"

definition default_group_commit_config :: group_commit_config where
  "default_group_commit_config =
     \<lparr> gc_batch_size = 256, gc_batch_timeout_ms = 1, gc_channel_capacity = DEFAULT_CHANNEL_CAPACITY \<rparr>"

record flush_state =
  fl_wal :: wal
  fl_file :: wal_file
  fl_snap :: snap_disk
  fl_index :: semantic_index
  fl_metrics :: metrics
  fl_since_compact :: u64

record flush_io =
  io_batch :: write_outcome
  io_tomb :: write_outcome
  io_auto :: "snap_outcome \<times> truncate_outcome"
  io_compact :: "snap_outcome \<times> truncate_outcome"

section \<open>Inserting a batch\<close>

text \<open>The loop over the batch under the write lock of the index.\<close>

fun index_batch ::
  "(nat \<times> wal_entry) list \<Rightarrow> semantic_index \<Rightarrow> u64 \<Rightarrow> reply list \<times> semantic_index \<times> u64" where
  "index_batch [] si n = ([], si, n)"
| "index_batch ((rid, e) # batch) si n =
     (case replay_entry e si of
        (Inr _, si') \<Rightarrow>
          (let (rs, si'', n'') = index_batch batch si' (saturating_add n 1)
           in (InsertReply rid (Inr (we_sequence e)) # rs, si'', n''))
      | (Inl err, si') \<Rightarrow>
          (let (rs, si'', n'') = index_batch batch si' n
           in (InsertReply rid (Inl (IndexErr err)) # rs, si'', n'')))"

definition fail_batch :: "(nat \<times> wal_entry) list \<Rightarrow> wal_error \<Rightarrow> reply list" where
  "fail_batch batch err = map (\<lambda>(rid, _). InsertReply rid (Inl (WalErr err))) batch"

definition flush_insert_batch ::
  "(wal_entry \<Rightarrow> string option) \<Rightarrow> write_outcome \<Rightarrow> (nat \<times> wal_entry) list \<Rightarrow> flush_state \<Rightarrow>
   reply list \<times> flush_state" where
  "flush_insert_batch to_vec out batch st =
     (if batch = [] then ([], st)
      else case stamp_batch to_vec (map snd batch) (fl_wal st) of
             (Inl err, w') \<Rightarrow> (fail_batch batch err, st\<lparr> fl_wal := w' \<rparr>)
           | (Inr (es, buf), w') \<Rightarrow>
               (case write_batch_bytes out buf (fl_file st) of
                  (Inl err, f') \<Rightarrow> (fail_batch batch err, st\<lparr> fl_wal := w', fl_file := f' \<rparr>)
                | (Inr _, f') \<Rightarrow>
                    (let (rs, si', n') = index_batch (zip (map fst batch) es) (fl_index st) (fl_since_compact st)
                     in (rs, st\<lparr> fl_wal := w', fl_file := f', fl_index := si', fl_since_compact := n' \<rparr>))))"

section \<open>Eviction and compaction\<close>

definition evict_to_cap_step ::
  "(wal_entry \<Rightarrow> string option) \<Rightarrow> write_outcome \<Rightarrow> nat \<Rightarrow> flush_state \<Rightarrow> flush_state" where
  "evict_to_cap_step to_vec out max_entries st =
     (let (evicted, si1) = evict_to_cap max_entries (fl_index st);
          (rebuilt, si2) = rebuild_dirty_namespaces si1;
          st1 = st\<lparr> fl_index := si2 \<rparr>
      in if evicted = [] \<and> rebuilt = [] then st1
         else let m1 = fold (record_eviction \<circ> ee_model_id) evicted (fl_metrics st1);
                  m2 = fold (\<lambda>_. record_rebuild) rebuilt m1;
                  st2 = st1\<lparr> fl_metrics := m2 \<rparr>
              in if evicted = [] then st2
                 else case stamp_batch to_vec (map (\<lambda>e. tombstone_entry (ee_uuid e) (ee_model_id e)) evicted)
                             (fl_wal st2) of
                        (Inl err, w') \<Rightarrow> st2\<lparr> fl_wal := w' \<rparr>
                      | (Inr (es, buf), w') \<Rightarrow>
                          (let (_, f') = write_batch_bytes out buf (fl_file st2)
                           in st2\<lparr> fl_wal := w', fl_file := f' \<rparr>))"

definition snapshot_compact ::
  "(snapshot_entry list \<Rightarrow> u8 list option) \<Rightarrow> snap_outcome \<times> truncate_outcome \<Rightarrow> flush_state \<Rightarrow>
   (snapshot_error + compaction_result) \<times> flush_state" where
  "snapshot_compact ser outs st =
     (let (r, d', f') = compact ser (fst outs) (snd outs) (fl_index st) (fl_wal st) (fl_snap st) (fl_file st)
      in (r, st\<lparr> fl_snap := d', fl_file := f' \<rparr>))"

text \<open>The counter of completed compactions.\<close>

definition note_compaction :: "snapshot_error + compaction_result \<Rightarrow> flush_state \<Rightarrow> flush_state" where
  "note_compaction r st =
     (case r of Inr _ \<Rightarrow> st\<lparr> fl_metrics := record_compaction (fl_metrics st) \<rparr> | Inl _ \<Rightarrow> st)"

definition run_compact ::
  "(snapshot_entry list \<Rightarrow> u8 list option) \<Rightarrow> snap_outcome \<times> truncate_outcome \<Rightarrow> nat \<Rightarrow> flush_state \<Rightarrow>
   reply list \<times> flush_state" where
  "run_compact ser outs rid st =
     (let (r, st') = snapshot_compact ser outs st
      in ([CompactReply rid r], note_compaction r st'))"

section \<open>The loop\<close>

text \<open>
  Collecting a batch: \<open>avail\<close> are the commands that arrive before the deadline. A compaction ends
  the batch and is kept for after the flush.
\<close>

fun collect_batch ::
  "nat \<Rightarrow> (nat \<times> wal_entry) list \<Rightarrow> wal_command list \<Rightarrow>
   (nat \<times> wal_entry) list \<times> nat option \<times> wal_command list" where
  "collect_batch cap batch [] = (batch, None, [])"
| "collect_batch cap batch (c # avail) =
     (if length batch < cap
      then case c of
             InsertCmd rid e \<Rightarrow> collect_batch cap (batch @ [(rid, e)]) avail
           | CompactCmd rid \<Rightarrow> (batch, Some rid, avail)
      else (batch, None, c # avail))"

definition auto_compact ::
  "(snapshot_entry list \<Rightarrow> u8 list option) \<Rightarrow> snap_outcome \<times> truncate_outcome \<Rightarrow> u64 \<Rightarrow> flush_state \<Rightarrow>
   flush_state" where
  "auto_compact ser outs interval st =
     (if interval > 0 \<and> fl_since_compact st \<ge> interval
      then let (r, st') = snapshot_compact ser outs (st\<lparr> fl_since_compact := 0 \<rparr>)
           in note_compaction r st'
      else st)"

text \<open>
  One round of \<open>flush_loop\<close> for a received command: the replies, the commands that arrived but were
  not taken, and the new state.
\<close>

definition flush_round ::
  "(wal_entry \<Rightarrow> string option) \<Rightarrow> (snapshot_entry list \<Rightarrow> u8 list option) \<Rightarrow> group_commit_config \<Rightarrow>
   hnsw_config \<Rightarrow> u64 \<Rightarrow> flush_io \<Rightarrow> wal_command \<Rightarrow> wal_command list \<Rightarrow> flush_state \<Rightarrow>
   reply list \<times> wal_command list \<times> flush_state" where
  "flush_round to_vec ser cfg hcfg interval io first avail st =
     (case first of
        CompactCmd rid \<Rightarrow>
          (let (rs, st') = run_compact ser (io_compact io) rid st
           in (rs, avail, st'\<lparr> fl_since_compact := 0 \<rparr>))
      | InsertCmd rid e \<Rightarrow>
          (let (batch, pending_compact, rest) = collect_batch (max (gc_batch_size cfg) 1) [(rid, e)] avail;
               (rs1, st1) = flush_insert_batch to_vec (io_batch io) batch st;
               st2 = (case max_entries_per_namespace hcfg of
                        None \<Rightarrow> st1
                      | Some max_entries \<Rightarrow> evict_to_cap_step to_vec (io_tomb io) max_entries st1);
               st3 = auto_compact ser (io_auto io) interval st2
           in case pending_compact of
                None \<Rightarrow> (rs1, rest, st3)
              | Some crid \<Rightarrow>
                  (let (rs2, st4) = run_compact ser (io_compact io) crid st3
                   in (rs1 @ rs2, rest, st4\<lparr> fl_since_compact := 0 \<rparr>))))"

text \<open>
  The loop over a channel that holds \<open>queue\<close> and is then closed; each element of the schedule is
  one round: what the disk does and how many further commands arrive before the deadline.
\<close>

fun flush_loop ::
  "(wal_entry \<Rightarrow> string option) \<Rightarrow> (snapshot_entry list \<Rightarrow> u8 list option) \<Rightarrow> group_commit_config \<Rightarrow>
   hnsw_config \<Rightarrow> u64 \<Rightarrow> (flush_io \<times> nat) list \<Rightarrow> wal_command list \<Rightarrow> flush_state \<Rightarrow>
   reply list \<times> wal_command list \<times> flush_state" where
  "flush_loop to_vec ser cfg hcfg n [] queue st = ([], queue, st)"
| "flush_loop to_vec ser cfg hcfg n (r # rounds) [] st = ([], [], st)"
| "flush_loop to_vec ser cfg hcfg n ((io, k) # rounds) (c # queue) st =
     (let (rs1, rest, st1) = flush_round to_vec ser cfg hcfg n io c (take k queue) st;
          (rs2, queue', st2) = flush_loop to_vec ser cfg hcfg n rounds (rest @ drop k queue) st1
      in (rs1 @ rs2, queue', st2))"

section \<open>Every command is answered once, in order\<close>

fun cmd_id :: "wal_command \<Rightarrow> nat" where
  "cmd_id (InsertCmd rid e) = rid"
| "cmd_id (CompactCmd rid) = rid"

fun reply_id :: "reply \<Rightarrow> nat" where
  "reply_id (InsertReply rid r) = rid"
| "reply_id (CompactReply rid r) = rid"

lemma index_batch_ids: "map reply_id (fst (index_batch batch si n)) = map fst batch"
proof (induction batch arbitrary: si n)
  case (Cons p batch)
  then show ?case
    by (cases p; cases "replay_entry (snd p) si"; cases "fst (replay_entry (snd p) si)") (auto simp: split_beta)
qed simp

lemma fail_batch_ids: "map reply_id (fail_batch batch err) = map fst batch"
  by (simp add: fail_batch_def comp_def split_beta)

lemma stamp_batch_length:
  "stamp_batch to_vec es w = (Inr (es', buf), w') \<Longrightarrow> length es' = length es"
  using stamp_batch_Inr [of to_vec es w es' buf w'] by (metis length_map)

lemma flush_insert_batch_ids: "map reply_id (fst (flush_insert_batch to_vec out batch st)) = map fst batch"
proof (cases "stamp_batch to_vec (map snd batch) (fl_wal st)")
  case (Pair r w')
  show ?thesis
  proof (cases r)
    case (Inl err)
    with Pair show ?thesis by (simp add: flush_insert_batch_def fail_batch_ids)
  next
    case (Inr p)
    then obtain es buf where p: "r = Inr (es, buf)" by (cases p) auto
    have "length es = length batch" using stamp_batch_length Pair p by fastforce
    then show ?thesis using Pair p
      by (cases "write_batch_bytes out buf (fl_file st)")
        (auto simp: flush_insert_batch_def fail_batch_ids index_batch_ids split_beta split: sum.split)
  qed
qed

lemma collect_batch_ids:
  "collect_batch cap batch avail = (batch', pending, rest) \<Longrightarrow>
     map fst batch' @ (case pending of None \<Rightarrow> [] | Some rid \<Rightarrow> [rid]) @ map cmd_id rest =
     map fst batch @ map cmd_id avail"
  by (induction cap batch avail rule: collect_batch.induct)
    (auto split: if_splits wal_command.splits)

lemma collect_batch_rest:
  "collect_batch cap batch avail = (batch', pending, rest) \<Longrightarrow> length rest \<le> length avail"
  by (induction cap batch avail rule: collect_batch.induct)
    (auto split: if_splits wal_command.splits)

lemma flush_round_rest:
  "flush_round to_vec ser cfg hcfg n io c avail st = (rs, rest, st') \<Longrightarrow> length rest \<le> length avail"
proof (cases c)
  case (CompactCmd rid)
  then show "flush_round to_vec ser cfg hcfg n io c avail st = (rs, rest, st') \<Longrightarrow> ?thesis"
    by (auto simp: flush_round_def split_beta)
next
  case (InsertCmd rid e)
  obtain batch pending rest' where cb:
    "collect_batch (max (gc_batch_size cfg) 1) [(rid, e)] avail = (batch, pending, rest')"
    by (metis prod_cases3)
  assume "flush_round to_vec ser cfg hcfg n io c avail st = (rs, rest, st')"
  with InsertCmd cb have "rest = rest'"
    by (auto simp: flush_round_def split_beta Let_def split: option.splits)
  then show ?thesis using collect_batch_rest [OF cb] by simp
qed

lemma flush_round_ids:
  "flush_round to_vec ser cfg hcfg n io c avail st = (rs, rest, st') \<Longrightarrow>
     map reply_id rs @ map cmd_id rest = cmd_id c # map cmd_id avail"
proof (cases c)
  case (CompactCmd rid)
  then show "flush_round to_vec ser cfg hcfg n io c avail st = (rs, rest, st') \<Longrightarrow> ?thesis"
    by (auto simp: flush_round_def run_compact_def split_beta)
next
  case (InsertCmd rid e)
  obtain batch pending rest' where cb:
    "collect_batch (max (gc_batch_size cfg) 1) [(rid, e)] avail = (batch, pending, rest')"
    by (metis prod_cases3)
  assume "flush_round to_vec ser cfg hcfg n io c avail st = (rs, rest, st')"
  with InsertCmd cb have "rest = rest'" and "map reply_id rs =
      map fst batch @ (case pending of None \<Rightarrow> [] | Some r \<Rightarrow> [r])"
    by (auto simp: flush_round_def run_compact_def split_beta flush_insert_batch_ids Let_def
        split: option.splits)
  then show ?thesis using collect_batch_ids [OF cb] InsertCmd by simp
qed

lemma flush_loop_ids:
  "flush_loop to_vec ser cfg hcfg n rounds queue st = (rs, queue', st') \<Longrightarrow>
     map reply_id rs @ map cmd_id queue' = map cmd_id queue"
proof (induction rounds arbitrary: queue st rs)
  case Nil
  then show ?case by simp
next
  case (Cons r rounds)
  obtain io k where r: "r = (io, k)" by (cases r)
  show ?case
  proof (cases queue)
    case Nil
    then show ?thesis using Cons.prems by simp
  next
    case (Cons c q)
    obtain rs1 rest st1 where 1: "flush_round to_vec ser cfg hcfg n io c (take k q) st = (rs1, rest, st1)"
      by (metis prod_cases3)
    obtain rs2 where 2: "flush_loop to_vec ser cfg hcfg n rounds (rest @ drop k q) st1 = (rs2, queue', st')"
      "rs = rs1 @ rs2" using Cons.prems r Cons 1 by (auto simp: Let_def split: prod.splits)
    have "map reply_id rs2 @ map cmd_id queue' = map cmd_id rest @ map cmd_id (drop k q)"
      using Cons.IH [OF 2(1)] by simp
    then show ?thesis using flush_round_ids [OF 1] 2(2) Cons
      by (metis append.assoc append_Cons append_take_drop_id list.simps(9) map_append)
  qed
qed

text \<open>A round takes at least one command, so a schedule as long as the queue empties it.\<close>

lemma flush_loop_drains:
  "length queue \<le> length rounds \<Longrightarrow>
   flush_loop to_vec ser cfg hcfg n rounds queue st = (rs, queue', st') \<Longrightarrow> queue' = []"
proof (induction rounds arbitrary: queue st rs)
  case Nil
  then show ?case by simp
next
  case (Cons r rounds)
  obtain io k where r: "r = (io, k)" by (cases r)
  show ?case
  proof (cases queue)
    case Nil
    then show ?thesis using Cons.prems by simp
  next
    case (Cons c q)
    obtain rs1 rest st1 where 1: "flush_round to_vec ser cfg hcfg n io c (take k q) st = (rs1, rest, st1)"
      by (metis prod_cases3)
    obtain rs2 where 2: "flush_loop to_vec ser cfg hcfg n rounds (rest @ drop k q) st1 = (rs2, queue', st')"
      using Cons.prems(2) r Cons 1 by (auto simp: Let_def split: prod.splits)
    have "length rest \<le> length (take k q)" by (rule flush_round_rest [OF 1])
    then have "length (rest @ drop k q) \<le> length rounds" using Cons.prems(1) Cons by simp arith
    then show ?thesis using Cons.IH 2 by blast
  qed
qed

section \<open>What an acknowledgement says\<close>

lemma index_batch_ack:
  "InsertReply rid (Inr s) \<in> set (fst (index_batch batch si n)) \<Longrightarrow>
     \<exists>e. (rid, e) \<in> set batch \<and> we_sequence e = s"
  by (induction batch si n rule: index_batch.induct)
    (auto split: prod.splits sum.splits simp: Let_def)

lemma flush_ack_ok:
  assumes "flush_insert_batch to_vec out batch st = (rs, st')" "InsertReply rid (Inr s) \<in> set rs"
  shows "\<exists>es buf w'. stamp_batch to_vec (map snd batch) (fl_wal st) = (Inr (es, buf), w') \<and> out = WriteOk"
proof (cases "stamp_batch to_vec (map snd batch) (fl_wal st)")
  case (Pair r w')
  show ?thesis
  proof (cases r)
    case (Inl err)
    then show ?thesis using assms Pair by (auto simp: flush_insert_batch_def fail_batch_def split: if_splits)
  next
    case (Inr p)
    then obtain es buf where r: "r = Inr (es, buf)" by (cases p) auto
    have ne: "buf \<noteq> [] \<or> batch = []" using Pair r by (cases batch) (auto split: prod.splits sum.splits option.splits simp: Let_def)
    have "out = WriteOk"
    proof (rule ccontr)
      assume "out \<noteq> WriteOk"
      then have "isl (fst (write_batch_bytes out buf (fl_file st))) \<or> batch = []"
        using ne by (cases out) (auto simp: write_batch_bytes_def write_and_sync_def)
      then show False using assms Pair r
        by (auto simp: flush_insert_batch_def fail_batch_def split: if_splits prod.splits sum.splits)
    qed
    then show ?thesis using Pair r by blast
  qed
qed

end
