(* ===== verification/Recovery.thy ===== *)
theory Recovery
  imports Flush Index_Machine
begin

text \<open>
  Startup of \<open>src/main.rs\<close>: load the snapshot if it can be read, replay the log behind its watermark,
  drop what has expired, open the log. The main result is that what the running node holds is what
  a restart recovers, whatever the disk did during compactions.
\<close>

section \<open>Startup\<close>

definition load_snapshot ::
  "(u8 list \<Rightarrow> snapshot_entry list option) \<Rightarrow> hnsw_config \<Rightarrow> snap_disk \<Rightarrow> semantic_index \<times> u64 option" where
  "load_snapshot de cfg d =
     (if sd_snap d \<noteq> None
      then case read_snapshot de (sd_snap d) of
             Inr (snaps, seq) \<Rightarrow>
               (fold (\<lambda>r. snd \<circ> replay_snapshot_entry r) snaps (si_new cfg), Some seq)
           | Inl _ \<Rightarrow> (si_new cfg, None)
      else (si_new cfg, None))"

fun replay_tail ::
  "bool \<Rightarrow> u64 \<Rightarrow> wal_entry list \<Rightarrow> semantic_index \<Rightarrow> u64 \<Rightarrow> semantic_index \<times> u64" where
  "replay_tail only_tail watermark [] si max_seq = (si, max_seq)"
| "replay_tail only_tail watermark (e # es) si max_seq =
     (if only_tail \<and> we_sequence e \<le> watermark then replay_tail only_tail watermark es si max_seq
      else let max_seq' = (if we_sequence e > max_seq then we_sequence e else max_seq)
           in if we_tombstone e
              then replay_tail only_tail watermark es (snd (si_remove_by_uuid (we_uuid e) si)) max_seq'
              else replay_tail only_tail watermark es (snd (replay_entry e si)) max_seq')"

definition recover ::
  "(u8 list \<Rightarrow> snapshot_entry list option) \<Rightarrow> (string \<Rightarrow> wal_entry option) \<Rightarrow> hnsw_config \<Rightarrow>
   snap_disk \<Rightarrow> wal_file \<Rightarrow> wal_error + semantic_index \<times> u64" where
  "recover de from_str cfg d f =
     (let (si, snapshot_sequence) = load_snapshot de cfg d
      in case wal_replay from_str f of
           Inl err \<Rightarrow> Inl err
         | Inr log_entries \<Rightarrow>
             (let watermark = (case snapshot_sequence of None \<Rightarrow> 0 | Some s \<Rightarrow> s)
              in Inr (replay_tail (snapshot_sequence \<noteq> None) watermark log_entries si watermark)))"

text \<open>
  The rest of the startup: one expiry pass, whose tombstones are sent once the flush task runs,
  and the opening of the log at the highest sequence seen.
\<close>

definition startup ::
  "(u8 list \<Rightarrow> snapshot_entry list option) \<Rightarrow> (string \<Rightarrow> wal_entry option) \<Rightarrow> hnsw_config \<Rightarrow> u64 \<Rightarrow> bool \<Rightarrow>
   snap_disk \<Rightarrow> wal_file \<Rightarrow> (wal_error + flush_state \<times> wal_entry list) \<times> wal_file" where
  "startup de from_str cfg now open_ok d f =
     (case recover de from_str cfg d f of
        Inl err \<Rightarrow> (Inl err, f)
      | Inr (si, max_seq) \<Rightarrow>
          (let (startup_expired, si') = collect_expired now si
           in case open_with_sequence open_ok max_seq f of
                (Inl err, f') \<Rightarrow> (Inl err, f')
              | (Inr w, f') \<Rightarrow>
                  (Inr (\<lparr> fl_wal = w, fl_file = f', fl_snap = d, fl_index = si', fl_metrics = metrics_new,
                          fl_since_compact = 0 \<rparr>,
                        reaper_tombstones startup_expired), f')))"

section \<open>Replaying a tail\<close>

lemma replay_tail_eq:
  "replay_tail only_tail wm es si n =
     (let tail = filter (\<lambda>e. \<not> (only_tail \<and> we_sequence e \<le> wm)) es
      in (fold (\<lambda>w. snd \<circ> replay_entry w) tail si, fold (\<lambda>e m. max m (we_sequence e)) tail n))"
proof (induction es arbitrary: si n)
  case (Cons e es)
  have "snd (si_remove_by_uuid (we_uuid e) si) = snd (replay_entry e si)" if "we_tombstone e"
    using that by (simp add: replay_entry_def split_beta)
  moreover have "(if we_sequence e > n then we_sequence e else n) = max n (we_sequence e)"
    by (auto simp: max_def)
  ultimately show ?case using Cons by (auto simp: Let_def)
qed simp

lemma fold_max_le:
  fixes n :: u64
  shows "fold (\<lambda>e m. max m (we_sequence e)) es n \<le> k \<longleftrightarrow> n \<le> k \<and> (\<forall>e \<in> set es. we_sequence e \<le> k)"
  by (induction es arbitrary: n) auto

section \<open>The live index and the recovered one\<close>

text \<open>
  The log does not record hits, so recovered entries agree up to the access fields; and a
  namespace that is empty in the snapshot loses its dimension.
\<close>

definition core :: "cache_entry \<Rightarrow> cache_entry" where
  "core e = e\<lparr> ce_last_accessed_at := 0, ce_access_count := 0 \<rparr>"

definition recovers :: "cache_spec \<Rightarrow> cache_spec \<Rightarrow> bool" where
  "recovers live rec \<longleftrightarrow>
     (\<forall>m u. map_option core (sp_content live m u) = map_option core (sp_content rec m u)) \<and>
     sp_owner live = sp_owner rec \<and>
     (\<forall>m. sp_dim rec m = None \<or> sp_dim rec m = sp_dim live m)"

lemma core_sel [simp]:
  "ce_uuid (core e) = ce_uuid e" "ce_embedding (core e) = ce_embedding e"
  "ce_response (core e) = ce_response e" "ce_query_text (core e) = ce_query_text e"
  "ce_inserted_at (core e) = ce_inserted_at e" "ce_expires_at (core e) = ce_expires_at e"
  "core (touch now e) = core e"
  by (simp_all add: core_def touch_def)

lemma recoversD:
  assumes "recovers s t"
  shows "map_option core (sp_content s m u) = map_option core (sp_content t m u)"
    and "sp_owner s = sp_owner t" and "sp_dim t m = None \<or> sp_dim t m = sp_dim s m"
    and "sp_content s m u = None \<longleftrightarrow> sp_content t m u = None"
proof -
  show 1: "map_option core (sp_content s m u) = map_option core (sp_content t m u)"
    "sp_owner s = sp_owner t" "sp_dim t m = None \<or> sp_dim t m = sp_dim s m"
    using assms by (simp_all add: recovers_def)
  show "sp_content s m u = None \<longleftrightarrow> sp_content t m u = None"
    using 1(1) by (cases "sp_content s m u"; cases "sp_content t m u") auto
qed

lemma recovers_Some:
  assumes "recovers s t" "sp_content s m u = Some e"
  obtains e' where "sp_content t m u = Some e'" "core e' = core e"
proof (cases "sp_content t m u")
  case None
  then show thesis using recoversD(4) [OF assms(1), of m u] assms(2) by simp
next
  case (Some e')
  with recoversD(1) [OF assms(1), of m u] assms(2) show thesis by (intro that) auto
qed

lemma recoversI:
  assumes "\<And>m u. map_option core (sp_content s m u) = map_option core (sp_content t m u)"
    and "sp_owner s = sp_owner t" and "\<And>m. sp_dim t m = None \<or> sp_dim t m = sp_dim s m"
  shows "recovers s t"
  using assms by (simp add: recovers_def)

lemma recovers_refl: "recovers s s"
  by (simp add: recovers_def)

lemma recovers_insert:
  assumes "recovers s t" "sp_accepts m e s"
  shows "sp_accepts m e t" "recovers (snd (sp_insert m e s)) (snd (sp_insert m e t))"
proof -
  note R = recoversD [OF assms(1)]
  show acc: "sp_accepts m e t" using assms(2) R(3) [of m] by (auto simp: sp_accepts_def)
  show "recovers (snd (sp_insert m e s)) (snd (sp_insert m e t))"
  proof (rule recoversI)
    fix k u
    show "map_option core (sp_content (snd (sp_insert m e s)) k u) =
        map_option core (sp_content (snd (sp_insert m e t)) k u)"
      using R(1) [of k u] R(4) [of m "ce_uuid e"] acc assms(2) by (auto simp: sp_insert_def)
    show "sp_dim (snd (sp_insert m e t)) k = None \<or>
        sp_dim (snd (sp_insert m e t)) k = sp_dim (snd (sp_insert m e s)) k"
      using R(3) [of k] acc assms(2) by (auto simp: sp_insert_def)
  qed (simp add: sp_insert_def acc assms(2) R(2))
qed

lemma recovers_remove:
  assumes "recovers s t"
  shows "recovers (snd (sp_remove u s)) (snd (sp_remove u t))"
proof (cases "sp_owner s u")
  case None
  then show ?thesis using assms recoversD(2) [OF assms] by (simp add: sp_remove_def)
next
  case (Some m)
  note R = recoversD [OF assms]
  show ?thesis
  proof (rule recoversI)
    fix k v
    show "map_option core (sp_content (snd (sp_remove u s)) k v) =
        map_option core (sp_content (snd (sp_remove u t)) k v)"
      using R(1) [of k v] R(2) Some by (auto simp: sp_remove_def)
    show "sp_dim (snd (sp_remove u t)) k = None \<or> sp_dim (snd (sp_remove u t)) k = sp_dim (snd (sp_remove u s)) k"
      using R(2) R(3) [of k] Some by (simp add: sp_remove_def)
  qed (use Some R(2) in \<open>simp add: sp_remove_def\<close>)
qed

lemma recovers_touch: "recovers s t \<Longrightarrow> recovers (sp_touch now m u s) t"
  by (auto simp: recovers_def sp_touch_def option.map_comp comp_def)

text \<open>Dropping by a predicate that does not look at the access fields.\<close>

lemma recovers_drop:
  assumes "recovers s t" and "\<And>m u e. P m u (core e) = P m u e"
  shows "recovers (sp_drop P s) (sp_drop P t)"
proof (rule recoversI)
  note R = recoversD [OF assms(1)]
  have P: "P m u e = P m u e'" if "core e = core e'" for m u e e'
    using assms(2) [of m u e] assms(2) [of m u e'] that by simp
  fix m u
  show "map_option core (sp_content (sp_drop P s) m u) = map_option core (sp_content (sp_drop P t) m u)"
  proof (cases "sp_content s m u")
    case None
    then show ?thesis using R(4) [of m u] by (simp add: sp_drop_def)
  next
    case (Some e)
    obtain e' where e': "sp_content t m u = Some e'" "core e' = core e" by (rule recovers_Some [OF assms(1) Some])
    show ?thesis using Some e' P [OF e'(2), of m u] by (simp add: sp_drop_def)
  qed
  show "sp_dim (sp_drop P t) m = None \<or> sp_dim (sp_drop P t) m = sp_dim (sp_drop P s) m"
    using R(3) [of m] by (simp add: sp_drop_def)
next
  note R = recoversD [OF assms(1)]
  have ex: "(\<exists>m e. sp_content s m u = Some e \<and> P m u e) \<longleftrightarrow> (\<exists>m e. sp_content t m u = Some e \<and> P m u e)" for u
  proof -
    have "(\<exists>e. sp_content s m u = Some e \<and> P m u e) \<longleftrightarrow> (\<exists>e. sp_content t m u = Some e \<and> P m u e)" for m
    proof (cases "sp_content s m u")
      case None
      then show ?thesis using R(4) [of m u] by simp
    next
      case (Some e)
      obtain e' where e': "sp_content t m u = Some e'" "core e' = core e" by (rule recovers_Some [OF assms(1) Some])
      show ?thesis using Some e' assms(2) [of m u e] assms(2) [of m u e'] by simp
    qed
    then show ?thesis by blast
  qed
  show "sp_owner (sp_drop P s) = sp_owner (sp_drop P t)"
    unfolding sp_drop_def ex R(2) by simp
qed

lemma recovers_sound:
  assumes "recovers s t"
  shows "sp_sound s = sp_sound t" "sp_complete s = sp_complete t"
  by (simp_all add: sp_sound_def sp_complete_def recoversD(2,4) [OF assms])

section \<open>Tombstones\<close>

text \<open>
  In a sound and complete state removing the UUIDs of a list one by one is dropping every entry
  whose UUID is in the list.
\<close>

lemma sp_remove_drop:
  assumes "sp_sound s" "sp_complete s"
  shows "snd (sp_remove u s) = sp_drop (\<lambda>_ v _. v = u) s"
proof (cases "sp_owner s u")
  case None
  have "sp_content s m u = None" for m using None assms(2) unfolding sp_complete_def by (metis option.distinct(1))
  then show ?thesis using None
    by (intro cache_spec_eqI ext) (auto simp: sp_remove_def sp_drop_def split: option.split)
next
  case (Some m)
  obtain e where e: "sp_content s m u = Some e" using assms(1) Some unfolding sp_sound_def by blast
  have other: "sp_content s k u = None" if "k \<noteq> m" for k
    using assms(2) Some that unfolding sp_complete_def by (metis option.inject)
  show ?thesis
  proof (intro cache_spec_eqI ext)
    fix k v
    show "sp_content (snd (sp_remove u s)) k v = sp_content (sp_drop (\<lambda>_ v _. v = u) s) k v"
      using Some other [of k] by (auto simp: sp_remove_def sp_drop_def split: option.split)
    show "sp_owner (snd (sp_remove u s)) v = sp_owner (sp_drop (\<lambda>_ v _. v = u) s) v"
      using Some e by (auto simp: sp_remove_def sp_drop_def)
  qed (simp add: sp_remove_def Some sp_drop_def)
qed

lemma sp_drop_drop: "sp_drop Q (sp_drop P s) = sp_drop (\<lambda>m u e. P m u e \<or> Q m u e) s"
  by (intro cache_spec_eqI ext) (auto simp: sp_drop_def split: option.splits if_splits)

lemma sp_drop_none: "(\<And>m u e. sp_content s m u = Some e \<Longrightarrow> \<not> P m u e) \<Longrightarrow> sp_drop P s = s"
  by (intro cache_spec_eqI ext) (auto simp: sp_drop_def split: option.split)

lemma sp_drop_cong:
  "(\<And>m u e. sp_content s m u = Some e \<Longrightarrow> P m u e = Q m u e) \<Longrightarrow> sp_drop P s = sp_drop Q s"
  by (intro cache_spec_eqI ext) (auto simp: sp_drop_def split: option.split)

lemma fold_remove_drop:
  assumes "sp_sound s" "sp_complete s"
  shows "fold (\<lambda>u s. snd (sp_remove u s)) us s = sp_drop (\<lambda>_ v _. v \<in> set us) s"
  using assms
proof (induction us arbitrary: s)
  case Nil
  then show ?case by (simp add: sp_drop_none)
next
  case (Cons u us)
  have "fold (\<lambda>u s. snd (sp_remove u s)) (u # us) s = sp_drop (\<lambda>_ v _. v \<in> set us) (sp_drop (\<lambda>_ v _. v = u) s)"
    using Cons.IH [of "sp_drop (\<lambda>_ v _. v = u) s"] Cons.prems
    by (simp add: sp_remove_drop sp_drop_keeps)
  then show ?case by (simp add: sp_drop_drop)
qed

text \<open>
  So a removal from the live index followed by the tombstones of exactly the removed UUIDs keeps
  the two in step.
\<close>

lemma recovers_tombstones:
  assumes "recovers s t" "sp_sound s" "sp_complete s"
    and us: "\<And>u. u \<in> set us \<longleftrightarrow> (\<exists>m e. sp_content s m u = Some e \<and> P m u e)"
  shows "recovers (sp_drop P s) (fold (\<lambda>u s. snd (sp_remove u s)) us t)"
proof -
  have "P m u e \<longleftrightarrow> u \<in> set us" if c: "sp_content s m u = Some e" for m u e
  proof
    assume "u \<in> set us"
    then obtain k e' where k: "sp_content s k u = Some e'" "P k u e'" using us by blast
    have "sp_owner s u = Some m" "sp_owner s u = Some k"
      using assms(3) c k(1) unfolding sp_complete_def by blast+
    then show "P m u e" using c k by simp
  qed (use us that in blast)
  then have "sp_drop P s = sp_drop (\<lambda>_ u _. u \<in> set us) s" by (intro sp_drop_cong)
  moreover have "fold (\<lambda>u s. snd (sp_remove u s)) us t = sp_drop (\<lambda>_ u _. u \<in> set us) t"
    by (rule fold_remove_drop) (use assms recovers_sound [OF assms(1)] in auto)
  ultimately show ?thesis using recovers_drop [OF assms(1), of "\<lambda>_ u _. u \<in> set us"] by simp
qed

section \<open>The durability invariant\<close>

text \<open>
  The log ends in a complete line and replays, no sequence number on disk is above the counter, and a
  restart recovers an index that is related to the live one by \<open>rel\<close>.
\<close>

definition durable_under ::
  "(cache_spec \<Rightarrow> cache_spec \<Rightarrow> bool) \<Rightarrow> (u8 list \<Rightarrow> snapshot_entry list option) \<Rightarrow>
   (string \<Rightarrow> wal_entry option) \<Rightarrow> hnsw_config \<Rightarrow> flush_state \<Rightarrow> bool" where
  "durable_under rel de from_str cfg st \<longleftrightarrow>
     si_inv (fl_index st) \<and> clean (file_bytes (fl_file st)) \<and>
     (\<exists>es. wal_replay from_str (fl_file st) = Inr es \<and>
           (\<forall>e \<in> set es. we_sequence e \<le> w_sequence (fl_wal st))) \<and>
     (\<forall>wm. snd (load_snapshot de cfg (fl_snap st)) = Some wm \<longrightarrow> wm \<le> w_sequence (fl_wal st)) \<and>
     (\<exists>si n. recover de from_str cfg (fl_snap st) (fl_file st) = Inr (si, n) \<and>
           rel (si_abs (fl_index st)) (si_abs si))"

abbreviation durable ::
  "(u8 list \<Rightarrow> snapshot_entry list option) \<Rightarrow> (string \<Rightarrow> wal_entry option) \<Rightarrow> hnsw_config \<Rightarrow>
   flush_state \<Rightarrow> bool" where
  "durable \<equiv> durable_under recovers"

lemmas durable_def = durable_under_def

text \<open>
  What the relation must allow so that everything but a batch keeps it: a reloaded snapshot is related
  to the index it was taken of, hits do not matter, and tombstones take back exactly what the index
  dropped.
\<close>

locale recovery_relation =
  fixes rel :: "cache_spec \<Rightarrow> cache_spec \<Rightarrow> bool"
  assumes rel_recovers: "recovers s t \<Longrightarrow> sp_sound s \<Longrightarrow> sp_complete s \<Longrightarrow> rel s t"
    and rel_touch: "rel s t \<Longrightarrow> rel (sp_touch now m u s) t"
    and rel_tombstones: "rel s t \<Longrightarrow> sp_sound s \<Longrightarrow> sp_complete s \<Longrightarrow>
      (\<And>u. u \<in> set us \<longleftrightarrow> (\<exists>m e. sp_content s m u = Some e \<and> P m u e)) \<Longrightarrow>
      rel (sp_drop P s) (fold (\<lambda>u s. snd (sp_remove u s)) us t)"

interpretation exact: recovery_relation recovers
  by unfold_locales (assumption, rule recovers_touch, assumption, rule recovers_tombstones)

lemma load_snapshot_wf: "si_wf (fst (load_snapshot de cfg d))"
  using snapshot_replay.replay_inv [OF si_inv_wf [OF si_inv_new]] si_inv_wf [OF si_inv_new]
  by (auto simp: load_snapshot_def split: sum.split)

lemma recover_eq:
  "recover de from_str cfg d f = Inr (si, n) \<longleftrightarrow>
     (\<exists>es. wal_replay from_str f = Inr es \<and>
       (let (si0, so) = load_snapshot de cfg d;
            wm = (case so of None \<Rightarrow> 0 | Some s \<Rightarrow> s);
            tail = filter (\<lambda>e. \<not> (so \<noteq> None \<and> we_sequence e \<le> wm)) es
        in si = fold (\<lambda>w. snd \<circ> replay_entry w) tail si0 \<and> n = fold (\<lambda>e m. max m (we_sequence e)) tail wm))"
  by (auto simp: recover_def replay_tail_eq Let_def split_beta split: sum.split)

lemma recover_wf: "recover de from_str cfg d f = Inr (si, n) \<Longrightarrow> si_wf si"
  using wal_replay.replay_inv [OF load_snapshot_wf] by (auto simp: recover_eq Let_def split_beta)

text \<open>A recovered sequence counter is at least every sequence in the log and the snapshot.\<close>

lemma recover_max:
  assumes "durable_under rel de from_str cfg st" "recover de from_str cfg (fl_snap st) (fl_file st) = Inr (si, n)"
  shows "n \<le> w_sequence (fl_wal st)"
proof -
  from assms(1) obtain es where es: "wal_replay from_str (fl_file st) = Inr es"
      "\<forall>e \<in> set es. we_sequence e \<le> w_sequence (fl_wal st)"
    and wm: "\<And>wm. snd (load_snapshot de cfg (fl_snap st)) = Some wm \<Longrightarrow> wm \<le> w_sequence (fl_wal st)"
    by (auto simp: durable_def)
  obtain si0 so where l: "load_snapshot de cfg (fl_snap st) = (si0, so)" by (cases "load_snapshot de cfg (fl_snap st)")
  define w where "w = (case so of None \<Rightarrow> 0 | Some s \<Rightarrow> s)"
  define tail where "tail = filter (\<lambda>e. \<not> (so \<noteq> None \<and> we_sequence e \<le> w)) es"
  have "n = fold (\<lambda>e m. max m (we_sequence e)) tail w"
    using assms(2) es(1) l by (auto simp: recover_eq Let_def tail_def w_def)
  moreover have "set tail \<subseteq> set es" by (auto simp: tail_def)
  moreover have "w \<le> w_sequence (fl_wal st)" using wm l by (cases so) (auto simp: w_def)
  ultimately show ?thesis using es(2) by (auto simp: fold_max_le)
qed

text \<open>What a log gains at its end is replayed after everything before it.\<close>

lemma recover_bound:
  assumes rec: "recover de from_str cfg d f = Inr (si, n)" and log: "wal_replay from_str f = Inr es"
  shows "(\<forall>e \<in> set es. we_sequence e \<le> n) \<and> (\<forall>wm. snd (load_snapshot de cfg d) = Some wm \<longrightarrow> wm \<le> n)"
proof -
  obtain si0 so where ls: "load_snapshot de cfg d = (si0, so)" by fastforce
  let ?wm = "case so of None \<Rightarrow> 0 | Some s \<Rightarrow> s"
  let ?tail = "filter (\<lambda>e. \<not> (so \<noteq> None \<and> we_sequence e \<le> ?wm)) es"
  have n: "n = fold (\<lambda>e m. max m (we_sequence e)) ?tail ?wm"
    using rec log ls by (auto simp: recover_eq Let_def)
  have b: "?wm \<le> n" "\<forall>e \<in> set ?tail. we_sequence e \<le> n"
    using fold_max_le [of ?tail ?wm n] n by auto
  have "we_sequence e \<le> n" if "e \<in> set es" for e
    using b that by (cases "so \<noteq> None \<and> we_sequence e \<le> ?wm") auto
  then show ?thesis using b(1) ls by auto
qed

lemma recover_append:
  assumes rec: "recover de from_str cfg d f = Inr (si, n)"
    and old: "wal_replay from_str f = Inr es" and new: "wal_replay from_str f' = Inr (es @ es')"
    and wm: "\<And>wm e. snd (load_snapshot de cfg d) = Some wm \<Longrightarrow> e \<in> set es' \<Longrightarrow> wm < we_sequence e"
  shows "\<exists>n'. recover de from_str cfg d f' = Inr (fold (\<lambda>w. snd \<circ> replay_entry w) es' si, n')"
proof -
  obtain si0 so where l: "load_snapshot de cfg d = (si0, so)" by (cases "load_snapshot de cfg d")
  define w where "w = (case so of None \<Rightarrow> 0 | Some s \<Rightarrow> s)"
  have "filter (\<lambda>e. \<not> (so \<noteq> None \<and> we_sequence e \<le> w)) es' = es'"
    unfolding filter_id_conv
  proof
    fix e
    assume "e \<in> set es'"
    then show "\<not> (so \<noteq> None \<and> we_sequence e \<le> w)"
      using wm [of w e] l by (cases so) (auto simp: w_def)
  qed
  then have f: "filter (\<lambda>e. \<not> (so \<noteq> None \<and> we_sequence e \<le> w)) (es @ es') =
      filter (\<lambda>e. \<not> (so \<noteq> None \<and> we_sequence e \<le> w)) es @ es'"
    unfolding filter_append by simp
  have "si = fold (\<lambda>w. snd \<circ> replay_entry w) (filter (\<lambda>e. \<not> (so \<noteq> None \<and> we_sequence e \<le> w)) es) si0"
    using rec old l by (auto simp: recover_eq Let_def w_def)
  then show ?thesis using new l f unfolding recover_eq by (auto simp: Let_def w_def [symmetric])
qed

section \<open>Batches\<close>

fun batch_ok :: "wal_entry list \<Rightarrow> cache_spec \<Rightarrow> bool" where
  "batch_ok [] s \<longleftrightarrow> True"
| "batch_ok (w # ws) s \<longleftrightarrow>
     (we_tombstone w \<or> sp_accepts (we_model_id w) (wal_to_cache w) s \<and>
        sp_owner s (we_uuid w) \<in> {None, Some (we_model_id w)}) \<and>
     batch_ok ws (sp_replay w s)"

lemma recovers_batch:
  "recovers s t \<Longrightarrow> batch_ok ws s \<Longrightarrow> recovers (fold sp_replay ws s) (fold sp_replay ws t)"
  by (induction ws arbitrary: s t) (auto simp: sp_replay_def recovers_remove recovers_insert)

lemma sp_replay_complete: "sp_complete s \<Longrightarrow> batch_ok [w] s \<Longrightarrow> sp_complete (sp_replay w s)"
  using sp_complete_insert [of s "wal_to_cache w" "we_model_id w"]
  by (auto simp: sp_replay_def sp_complete_remove wal_to_cache_def)

lemma batch_complete: "sp_complete s \<Longrightarrow> batch_ok ws s \<Longrightarrow> sp_complete (fold sp_replay ws s)"
proof (induction ws arbitrary: s)
  case (Cons w ws)
  then have "sp_complete (sp_replay w s)" using sp_replay_complete [of s w] by simp
  with Cons show ?case by simp
qed simp

lemma index_batch_index:
  "fst (snd (index_batch batch si n)) = fold (\<lambda>w. snd \<circ> replay_entry w) (map snd batch) si"
proof (induction batch arbitrary: si n)
  case (Cons p batch)
  then show ?case
    by (cases p; cases "replay_entry (snd p) si"; cases "fst (replay_entry (snd p) si)") (auto simp: split_beta)
qed simp

lemma si_inv_batch:
  assumes "si_inv si" "batch_ok ws (si_abs si)"
  shows "si_inv (fold (\<lambda>w. snd \<circ> replay_entry w) ws si)"
    and "si_abs (fold (\<lambda>w. snd \<circ> replay_entry w) ws si) = fold sp_replay ws (si_abs si)"
proof -
  note wf = si_inv_wf [OF assms(1)]
  show abs: "si_abs (fold (\<lambda>w. snd \<circ> replay_entry w) ws si) = fold sp_replay ws (si_abs si)"
    by (rule wal_replay.replay_abs [OF wf])
  show "si_inv (fold (\<lambda>w. snd \<circ> replay_entry w) ws si)"
    using wal_replay.replay_inv [OF wf] batch_complete [OF _ assms(2)] assms(1)
    by (simp add: si_inv_def abs)
qed

section \<open>Every step keeps the invariant\<close>

lemma stamped_sequences:
  assumes "stamp_batch to_vec es w = (Inr (es', buf), w')" "e \<in> set es'"
  shows "w_sequence w < we_sequence e" "we_sequence e \<le> w_sequence w'"
proof -
  note S = stamp_batch_Inr [OF assms(1)]
  have "unat (we_sequence e) \<in> set (map (unat \<circ> we_sequence) es')" using assms(2) by auto
  then have "unat (w_sequence w) < unat (we_sequence e)" "unat (we_sequence e) \<le> unat (w_sequence w')"
    using S by auto
  then show "w_sequence w < we_sequence e" "we_sequence e \<le> w_sequence w'"
    by (simp_all add: word_less_nat_alt word_le_nat_alt)
qed

lemma stamped_mono:
  "stamp_batch to_vec es w = (Inr (es', buf), w') \<Longrightarrow> w_sequence w \<le> w_sequence w'"
  using stamp_batch_Inr [of to_vec es w es' buf w'] by (simp add: word_le_nat_alt)

lemma stamped_buf_nonempty:
  "stamp_batch to_vec es w = (Inr (es', buf), w') \<Longrightarrow> es \<noteq> [] \<Longrightarrow> buf \<noteq> []"
  by (cases es) (auto simp: Let_def split: prod.splits sum.splits option.splits)

text \<open>
  A batch written to the log, and an index that moved on in step with its replay.
\<close>

lemma durable_append:
  assumes dur: "durable_under rel de from_str cfg st" and codec: "json_codec to_vec from_str"
    and stamp: "stamp_batch to_vec es (fl_wal st) = (Inr (es', buf), w')"
    and fin: "list_all we_finite es" and ne: "es \<noteq> []"
    and st': "fl_wal st' = w'" "fl_file st' = snd (write_batch_bytes WriteOk buf (fl_file st))"
      "fl_snap st' = fl_snap st" "si_inv (fl_index st')"
    and live: "\<And>t. sp_sound t \<Longrightarrow> rel (si_abs (fl_index st)) t \<Longrightarrow>
        rel' (si_abs (fl_index st')) (fold sp_replay es' t)"
  shows "durable_under rel' de from_str cfg st'"
proof -
  from dur obtain old si n where old: "wal_replay from_str (fl_file st) = Inr old"
      "\<forall>e \<in> set old. we_sequence e \<le> w_sequence (fl_wal st)"
    and rec: "recover de from_str cfg (fl_snap st) (fl_file st) = Inr (si, n)"
      "rel (si_abs (fl_index st)) (si_abs si)"
    and cl: "clean (file_bytes (fl_file st))"
    and wm: "\<And>wm. snd (load_snapshot de cfg (fl_snap st)) = Some wm \<Longrightarrow> wm \<le> w_sequence (fl_wal st)"
    by (auto simp: durable_def)
  have f': "fl_file st' = Some (file_bytes (fl_file st) @ buf)"
    using st'(2) stamped_buf_nonempty [OF stamp ne] by (simp add: write_batch_bytes_def write_and_sync_def)
  note A = append_batch_replay [OF codec stamp fin cl old(1)]
  have "wm < we_sequence e" if "snd (load_snapshot de cfg (fl_snap st)) = Some wm" "e \<in> set es'" for wm e
    using wm [OF that(1)] stamped_sequences(1) [OF stamp that(2)] by (rule le_less_trans)
  from recover_append [OF rec(1) old(1) A(1) this] obtain n' where
    rec': "recover de from_str cfg (fl_snap st') (fl_file st') = Inr (fold (\<lambda>w. snd \<circ> replay_entry w) es' si, n')"
    using f' st'(3) by auto
  have "sp_sound (si_abs si)" using recover_wf [OF rec(1)] by (simp add: si_wf_def)
  then have "rel' (si_abs (fl_index st')) (si_abs (fold (\<lambda>w. snd \<circ> replay_entry w) es' si))"
    using live [OF _ rec(2)] wal_replay.replay_abs [OF recover_wf [OF rec(1)]] by simp
  moreover have "\<forall>e \<in> set (old @ es'). we_sequence e \<le> w_sequence w'"
  proof
    fix e
    assume "e \<in> set (old @ es')"
    then consider "e \<in> set old" | "e \<in> set es'" by auto
    then show "we_sequence e \<le> w_sequence w'"
    proof cases
      case 1
      then have "we_sequence e \<le> w_sequence (fl_wal st)" using old(2) by blast
      then show ?thesis using stamped_mono [OF stamp] by (rule order_trans)
    qed (rule stamped_sequences(2) [OF stamp])
  qed
  moreover have "wm \<le> w_sequence w'" if "snd (load_snapshot de cfg (fl_snap st)) = Some wm" for wm
    using wm [OF that] stamped_mono [OF stamp] by (rule order_trans)
  ultimately show ?thesis
    unfolding durable_def using A f' rec' st'(1,3,4) by (auto simp: file_bytes_def)
qed

definition all_ok :: "reply list \<Rightarrow> bool" where
  "all_ok rs \<longleftrightarrow> (\<forall>r \<in> set rs. \<exists>rid seq. r = InsertReply rid (Inr seq))"

text \<open>The UUIDs of a batch are new or already belong to the namespace of their entry.\<close>

fun batch_fresh :: "wal_entry list \<Rightarrow> semantic_index \<Rightarrow> bool" where
  "batch_fresh [] si = True"
| "batch_fresh (w # ws) si =
     ((we_tombstone w \<or> namespace_for si (we_uuid w) \<in> {None, Some (we_model_id w)}) \<and>
      batch_fresh ws (snd (replay_entry w si)))"

lemma index_batch_ok:
  assumes "si_wf si" "all_ok (fst (index_batch batch si n))" "batch_fresh (map snd batch) si"
  shows "batch_ok (map snd batch) (si_abs si)"
  using assms
proof (induction batch arbitrary: si n)
  case (Cons p batch)
  obtain rid w where p: "p = (rid, w)" by (cases p)
  obtain r si' where r: "replay_entry w si = (r, si')" by (cases "replay_entry w si")
  have R: "r = (if we_tombstone w then Inr () else fst (sp_insert (we_model_id w) (wal_to_cache w) (si_abs si)))"
    using replay_entry_result [OF Cons.prems(1), of w] r by simp
  have ok: "r = Inr ()" using Cons.prems(2) p r by (cases r) (auto simp: all_ok_def split_beta)
  have wf': "si_wf si'" and abs': "si_abs si' = sp_replay w (si_abs si)"
    using wal_replay.step_inv [OF Cons.prems(1), of w] wal_replay.step_abs [OF Cons.prems(1), of w] r by simp_all
  have "batch_ok (map snd batch) (si_abs si')"
    by (rule Cons.IH [OF wf', of "saturating_add n 1"])
      (use Cons.prems(2,3) p r ok in \<open>auto simp: all_ok_def split_beta\<close>)
  moreover have "we_tombstone w \<or> sp_accepts (we_model_id w) (wal_to_cache w) (si_abs si)"
    using R ok by (auto simp: sp_insert_def split: if_splits)
  ultimately show ?case using Cons.prems(3) p abs' by (auto simp: namespace_for_def)
qed simp

lemma unstamped_fields:
  assumes "unstamped w = unstamped w'"
  shows "we_uuid w = we_uuid w'" "we_tombstone w = we_tombstone w'" "we_model_id w = we_model_id w'"
    "we_embedding w = we_embedding w'" "wal_to_cache w = wal_to_cache w'"
  using assms by (cases w; cases w'; simp add: unstamped_def wal_to_cache_def)+

lemma batch_fresh_unstamped:
  "map unstamped ws = map unstamped ws' \<Longrightarrow> batch_fresh ws si = batch_fresh ws' si"
proof (induction ws arbitrary: ws' si)
  case (Cons w ws)
  then obtain w' vs where v: "ws' = w' # vs" "unstamped w = unstamped w'" "map unstamped ws = map unstamped vs"
    by (cases ws') auto
  note eq = unstamped_fields [OF v(2)]
  have "replay_entry w = replay_entry w'" by (rule ext) (simp add: replay_entry_def eq)
  then show ?case using Cons.IH [OF v(3)] eq by (simp add: v(1))
qed simp

lemma durable_batch:
  assumes dur: "durable_under rel de from_str cfg st" and codec: "json_codec to_vec from_str"
    and step: "flush_insert_batch to_vec WriteOk batch st = (rs, st')" and ok: "all_ok rs"
    and fresh: "batch_fresh (map snd batch) (fl_index st)" and fin: "list_all we_finite (map snd batch)"
    and live: "\<And>es s t. map unstamped es = map unstamped (map snd batch) \<Longrightarrow> sp_sound t \<Longrightarrow> rel s t \<Longrightarrow>
      batch_ok es s \<Longrightarrow> rel' (fold sp_replay es s) (fold sp_replay es t)"
    and ne: "batch \<noteq> []"
  shows "durable_under rel' de from_str cfg st'"
proof -
  note False = ne
  from ne obtain rid e b where b: "batch = (rid, e) # b" by (cases batch) auto
  obtain es buf w' where stamp: "stamp_batch to_vec (map snd batch) (fl_wal st) = (Inr (es, buf), w')"
    using step ok False b
    by (auto simp: flush_insert_batch_def fail_batch_def all_ok_def split: prod.splits sum.splits)
  have len: "length es = length batch" using stamp_batch_length [OF stamp] by simp
  let ?b = "zip (map fst batch) es"
  have snds: "map snd ?b = es" using len by simp
  obtain f1 where wr: "write_batch_bytes WriteOk buf (fl_file st) = (Inr (), f1)"
    by (cases "buf = []") (auto simp: write_batch_bytes_def write_and_sync_def)
  have rs: "rs = fst (index_batch ?b (fl_index st) (fl_since_compact st))"
    and st': "st' = st\<lparr> fl_wal := w', fl_file := f1,
      fl_index := fst (snd (index_batch ?b (fl_index st) (fl_since_compact st))),
      fl_since_compact := snd (snd (index_batch ?b (fl_index st) (fl_since_compact st))) \<rparr>"
    using step False stamp wr by (auto simp: flush_insert_batch_def split_beta)
  have inv: "si_inv (fl_index st)" using dur by (simp add: durable_def)
  have "batch_fresh es (fl_index st)"
    using fresh batch_fresh_unstamped stamp_batch_Inr [OF stamp] by blast
  then have bok: "batch_ok es (si_abs (fl_index st))"
    using index_batch_ok [OF si_inv_wf [OF inv], of ?b "fl_since_compact st"] ok rs snds by simp
  have idx: "fl_index st' = fold (\<lambda>w. snd \<circ> replay_entry w) es (fl_index st)"
    using st' index_batch_index [of ?b] snds by simp
  show ?thesis
  proof (rule durable_append [OF dur codec stamp fin])
    show "si_inv (fl_index st')" unfolding idx by (rule si_inv_batch [OF inv bok])
    show "rel' (si_abs (fl_index st')) (fold sp_replay es t)" if "sp_sound t" "rel (si_abs (fl_index st)) t" for t
      unfolding idx si_inv_batch(2) [OF inv bok] using stamp_batch_Inr [OF stamp] live [OF _ that bok] by blast
  qed (use False st' wr in simp_all)
qed

subsection \<open>Compaction\<close>

lemma load_snapshot_bytes:
  assumes "bincode_codec ser de" "ser (snapshot_entries si) = Some body"
    and "sd_snap d = Some (snapshot_bytes seq (length (snapshot_entries si)) body)"
  shows "load_snapshot de cfg d =
    (fold (\<lambda>r. snd \<circ> replay_snapshot_entry r) (snapshot_entries si) (si_new cfg), Some seq)"
  using assms by (simp add: load_snapshot_def read_snapshot_bytes bincode_codec_def)

text \<open>
  Whatever the disk does while compacting, a restart finds the same entries: before the rename the
  old snapshot and log, after it the new snapshot, whose watermark makes the log redundant.
\<close>

context recovery_relation
begin

lemma keep_compact:
  assumes dur: "durable_under rel de from_str cfg st" and codec: "bincode_codec ser de"
  shows "durable_under rel de from_str cfg (snd (snapshot_compact ser outs st))"
proof -
  obtain r d' f' where c: "compact ser (fst outs) (snd outs) (fl_index st) (fl_wal st) (fl_snap st) (fl_file st) = (r, d', f')"
    by (metis prod_cases3)
  have st': "snd (snapshot_compact ser outs st) = st\<lparr> fl_snap := d', fl_file := f' \<rparr>"
    by (simp add: snapshot_compact_def c)
  from c show ?thesis
  proof (cases rule: compact_cases)
    case old
    have "load_snapshot de cfg d' = load_snapshot de cfg (fl_snap st)"
      using old(2) by (simp add: load_snapshot_def)
    then show ?thesis using dur old(3) by (simp add: st' durable_def recover_def)
  next
    case (new body)
    let ?rec = "fold (\<lambda>r. snd \<circ> replay_snapshot_entry r) (snapshot_entries (fl_index st)) (si_new cfg)"
    note L = load_snapshot_bytes [OF codec new(1,2), of cfg]
    have inv: "si_inv (fl_index st)" using dur by (simp add: durable_def)
    note S = snapshot_reload [OF inv, of cfg]
    from dur new(3) obtain es where es: "wal_replay from_str f' = Inr es"
        "\<forall>e \<in> set es. we_sequence e \<le> w_sequence (fl_wal st)" "clean (file_bytes f')"
      by (auto simp: durable_def wal_replay_def file_bytes_def clean_def)
    have "filter (\<lambda>e. \<not> we_sequence e \<le> w_sequence (fl_wal st)) es = []"
      using es(2) by (simp add: filter_empty_conv)
    then have "recover de from_str cfg d' f' = Inr (?rec, w_sequence (fl_wal st))"
      using es(1) L by (simp add: recover_eq Let_def)
    moreover have "rel (si_abs (fl_index st)) (si_abs ?rec)"
      using S inv by (intro rel_recovers recoversI) (auto simp: namespace_for_def [abs_def] fun_eq_iff si_inv_def si_wf_def)
    ultimately show ?thesis using inv es L by (simp add: st' durable_def)
  qed
qed

end

subsection \<open>Accesses, evictions and other removals\<close>

lemma durable_index:
  assumes "durable_under rel de from_str cfg st" "si_inv si'"
    and "\<And>t. rel (si_abs (fl_index st)) t \<Longrightarrow> rel' (si_abs si') t"
  shows "durable_under rel' de from_str cfg (st\<lparr> fl_index := si' \<rparr>)"
  using assms by (auto simp: durable_def)

context recovery_relation
begin

lemma keep_access:
  assumes dur: "durable_under rel de from_str cfg st"
  shows "durable_under rel de from_str cfg (st\<lparr> fl_index := si_record_access now m i (fl_index st) \<rparr>)"
proof -
  have inv: "si_inv (fl_index st)" using dur by (simp add: durable_def)
  show ?thesis
    using record_access_cases [OF si_wf_struct [OF si_inv_wf [OF inv]], of now m i]
    by (intro durable_index [OF dur si_inv_record_access [OF inv]]) (auto intro: rel_touch)
qed

end

lemma fold_tombstones:
  "\<forall>w \<in> set ws. we_tombstone w \<Longrightarrow>
     fold sp_replay ws s = fold (\<lambda>u s. snd (sp_remove u s)) (map we_uuid ws) s"
  by (induction ws arbitrary: s) (auto simp: sp_replay_def)

lemma stamped_tombstones:
  assumes "stamp_batch to_vec (map (\<lambda>(u, m). tombstone_entry u m) ps) w = (Inr (es, buf), w')"
  shows "\<forall>e \<in> set es. we_tombstone e" "map we_uuid es = map fst ps"
proof -
  have u: "map unstamped es = map unstamped (map (\<lambda>(u, m). tombstone_entry u m) ps)"
    using stamp_batch_Inr [OF assms] by blast
  have "map we_uuid es = map we_uuid (map unstamped es)" by (simp add: unstamped_def)
  also have "\<dots> = map fst ps" unfolding u by (simp add: unstamped_def tombstone_entry_def comp_def split_beta)
  finally show "map we_uuid es = map fst ps" .
  have "map we_tombstone es = map we_tombstone (map unstamped es)" by (simp add: unstamped_def)
  also have "\<dots> = map (\<lambda>_. True) ps" unfolding u by (simp add: unstamped_def tombstone_entry_def comp_def split_beta)
  finally have t: "map we_tombstone es = map (\<lambda>_. True) ps" .
  have "\<forall>b \<in> set (map we_tombstone es). b" unfolding t by simp
  then show "\<forall>e \<in> set es. we_tombstone e" by simp
qed

text \<open>
  The index dropped the entries that satisfy \<open>P\<close>, and the tombstones of their UUIDs are in the log.
\<close>

context recovery_relation
begin

lemma keep_drop:
  assumes dur: "durable_under rel de from_str cfg st" and codec: "json_codec to_vec from_str"
    and stamp: "stamp_batch to_vec (map (\<lambda>(u, m). tombstone_entry u m) ps) (fl_wal st) = (Inr (es, buf), w')"
    and ne: "ps \<noteq> []"
    and ps: "\<And>u. u \<in> fst ` set ps \<longleftrightarrow> (\<exists>m e. contents (fl_index st) m u = Some e \<and> P m u e)"
    and st': "fl_wal st' = w'" "fl_file st' = snd (write_batch_bytes WriteOk buf (fl_file st))"
      "fl_snap st' = fl_snap st" "si_inv (fl_index st')"
      "si_abs (fl_index st') = sp_drop P (si_abs (fl_index st))"
  shows "durable_under rel de from_str cfg st'"
proof (rule durable_append [OF dur codec stamp _ _ st'(1-4)])
  show "list_all we_finite (map (\<lambda>(u, m). tombstone_entry u m) ps)"
    by (auto simp: list_all_iff we_finite_def tombstone_entry_def)
  show "map (\<lambda>(u, m). tombstone_entry u m) ps \<noteq> []" using ne by simp
  note T = stamped_tombstones [OF stamp]
  have inv: "sp_sound (si_abs (fl_index st))" "sp_complete (si_abs (fl_index st))"
    using dur by (simp_all add: durable_def si_inv_def si_wf_def)
  fix t
  assume t: "rel (si_abs (fl_index st)) t"
  have "rel (sp_drop P (si_abs (fl_index st))) (fold sp_replay es t)"
    unfolding fold_tombstones [OF T(1)] T(2)
    by (rule rel_tombstones [OF t inv]) (simp add: ps)
  then show "rel (si_abs (fl_index st')) (fold sp_replay es t)" by (simp add: st'(5))
qed

end

lemma evict_step_state:
  assumes "evict_to_cap n (fl_index st) = (ev, si1)" "rebuild_dirty_namespaces si1 = (rb, si2)"
  shows "ev = [] \<Longrightarrow> \<exists>m. evict_to_cap_step to_vec out n st = st\<lparr> fl_index := si2, fl_metrics := m \<rparr>"
    and "ev \<noteq> [] \<Longrightarrow>
      stamp_batch to_vec (map (\<lambda>e. tombstone_entry (ee_uuid e) (ee_model_id e)) ev) (fl_wal st) = (Inr (es, buf), w') \<Longrightarrow>
      \<exists>m. evict_to_cap_step to_vec out n st = st\<lparr> fl_index := si2, fl_metrics := m, fl_wal := w',
            fl_file := snd (write_batch_bytes out buf (fl_file st)) \<rparr>"
proof -
  show "\<exists>m. evict_to_cap_step to_vec out n st = st\<lparr> fl_index := si2, fl_metrics := m \<rparr>" if "ev = []"
    using assms that
    by (cases "rb = []") (auto simp: evict_to_cap_step_def Let_def intro: exI [of _ "fl_metrics st"])
  show "\<exists>m. evict_to_cap_step to_vec out n st = st\<lparr> fl_index := si2, fl_metrics := m, fl_wal := w',
      fl_file := snd (write_batch_bytes out buf (fl_file st)) \<rparr>"
    if "ev \<noteq> []"
      "stamp_batch to_vec (map (\<lambda>e. tombstone_entry (ee_uuid e) (ee_model_id e)) ev) (fl_wal st) = (Inr (es, buf), w')"
    using assms that by (auto simp: evict_to_cap_step_def Let_def split_beta)
qed

lemma evicted_abs:
  assumes inv: "si_inv si" and "evict_to_cap n si = (ev, si1)" "rebuild_dirty_namespaces si1 = (rb, si2)"
  shows "si_inv si2" "si_abs si2 = sp_drop (\<lambda>m u _. u \<in> evicted_from n si m) (si_abs si)"
proof -
  note st = si_wf_struct [OF si_inv_wf [OF inv]]
  have "si_inv si1" using evict_to_cap_keeps(2) [OF st st inv, of n] assms(2) by simp
  then show "si_inv si2" using rebuild_dirty_keeps(2) [of si1] assms(3) by simp
  show "si_abs si2 = sp_drop (\<lambda>m u _. u \<in> evicted_from n si m) (si_abs si)"
    using evict_to_cap_abs [OF st, of n] rebuild_dirty_abs(2) [of si1] assms(2,3) by simp
qed

context recovery_relation
begin

lemma keep_evict:
  assumes dur: "durable_under rel de from_str cfg st" and codec: "json_codec to_vec from_str"
    and tot: "\<And>e. to_vec e \<noteq> None"
    and room: "unat (w_sequence (fl_wal st)) + length (fst (evict_to_cap n (fl_index st))) < 2 ^ 64"
  shows "durable_under rel de from_str cfg (evict_to_cap_step to_vec WriteOk n st)"
proof -
  obtain ev si1 where ev: "evict_to_cap n (fl_index st) = (ev, si1)" by (cases "evict_to_cap n (fl_index st)")
  obtain rb si2 where rb: "rebuild_dirty_namespaces si1 = (rb, si2)" by (cases "rebuild_dirty_namespaces si1")
  let ?P = "\<lambda>m u (_ :: cache_entry). u \<in> evicted_from n (fl_index st) m"
  let ?ps = "map (\<lambda>e. (ee_uuid e, ee_model_id e)) ev"
  have inv: "si_inv (fl_index st)" using dur by (simp add: durable_def)
  note st = si_wf_struct [OF si_inv_wf [OF inv]]
  note inv2 = evicted_abs(1) [OF inv ev rb] and abs2 = evicted_abs(2) [OF inv ev rb]
  show ?thesis
  proof (cases "ev = []")
    case True
    then have "evicted_from n (fl_index st) m = {}" for m using ev by (simp add: evicted_from_def)
    then have "si_abs si2 = si_abs (fl_index st)" using abs2 by (simp add: sp_drop_none)
    then have "durable_under rel de from_str cfg (st\<lparr> fl_index := si2 \<rparr>)"
      using dur inv2 by (intro durable_index) auto
    then show ?thesis using evict_step_state(1) [OF ev rb True, of to_vec WriteOk]
      by (auto simp: durable_def)
  next
    case False
    have "\<exists>es buf w'. stamp_batch to_vec (map (\<lambda>(u, m). tombstone_entry u m) ?ps) (fl_wal st) = (Inr (es, buf), w')"
      by (rule stamp_batch_total) (use tot room ev in simp_all)
    then obtain es buf w' where stamp: "stamp_batch to_vec (map (\<lambda>(u, m). tombstone_entry u m) ?ps) (fl_wal st) = (Inr (es, buf), w')"
      by blast
    have "stamp_batch to_vec (map (\<lambda>e. tombstone_entry (ee_uuid e) (ee_model_id e)) ev) (fl_wal st) = (Inr (es, buf), w')"
      using stamp by (simp add: comp_def)
    from evict_step_state(2) [OF ev rb False this] obtain mt where st': "evict_to_cap_step to_vec WriteOk n st = st\<lparr> fl_index := si2, fl_metrics := mt, fl_wal := w',
        fl_file := snd (write_batch_bytes WriteOk buf (fl_file st)) \<rparr>" by blast
    show ?thesis
    proof (rule keep_drop [OF dur codec stamp])
      show "?ps \<noteq> []" using False by simp
      show "u \<in> fst ` set ?ps \<longleftrightarrow> (\<exists>m e. contents (fl_index st) m u = Some e \<and> ?P m u e)" for u
        using evict_to_cap_uuids [OF st, of u n] ev by (simp add: image_image)
    qed (use inv2 abs2 in \<open>simp_all add: st'\<close>)
  qed
qed

end

text \<open>
  One pass of the expiry reaper together with the batch of its tombstones. No namespace may be
  pruned: a pruned namespace forgets its dimension, which the log does not record.
\<close>

lemma sp_remove_gone: "sp_owner s u = None \<Longrightarrow> snd (sp_remove u s) = s"
  by (simp add: sp_remove_def)

lemma replay_gone_tombstones:
  assumes "si_wf si" "\<forall>w \<in> set ws. we_tombstone w \<and> namespace_for si (we_uuid w) = None"
  shows "fold (\<lambda>w. snd \<circ> replay_entry w) ws si = si"
  using assms(2)
proof (induction ws)
  case (Cons w ws)
  have "replay_entry w si = (Inr (), si)"
    using Cons.prems by (simp add: replay_entry_def si_remove_by_uuid_def namespace_for_def)
  then show ?case using Cons by simp
qed simp

lemma prune_nothing:
  assumes "fst (prune_empty_namespaces si) = []"
  shows "snd (prune_empty_namespaces si) = si"
  using assms by (auto simp: prune_empty_namespaces_def Let_def)

lemma reaper_abs:
  assumes "si_inv si" "reaper_index_step now si = (exp_pairs, [], si')"
  shows "si_inv si'" "si_abs si' = sp_drop (\<lambda>_ _. expired now) (si_abs si)"
    and "\<And>u. u \<in> fst ` set exp_pairs \<longleftrightarrow> (\<exists>m e. contents si m u = Some e \<and> expired now e)"
proof -
  note st = si_wf_struct [OF si_inv_wf [OF assms(1)]]
  let ?si1 = "snd (collect_expired now si)"
  have si': "si' = snd (rebuild_dirty_namespaces ?si1)" and ex: "exp_pairs = fst (collect_expired now si)"
    using assms(2) prune_nothing [of "snd (rebuild_dirty_namespaces ?si1)"] by (auto simp: reaper_index_step_eq)
  show "si_inv si'" unfolding si' using assms(1) st by (intro rebuild_dirty_keeps collect_expired_keeps)
  show "si_abs si' = sp_drop (\<lambda>_ _. expired now) (si_abs si)"
    unfolding si' using collect_expired_abs [OF st, of now] rebuild_dirty_abs(2) by simp
  show "u \<in> fst ` set exp_pairs \<longleftrightarrow> (\<exists>m e. contents si m u = Some e \<and> expired now e)" for u
    unfolding ex using collect_expired_set [OF st, of u] by force
qed

lemma index_batch_state:
  "index_batch batch si n = (rs, si', n') \<Longrightarrow> si' = fold (\<lambda>w. snd \<circ> replay_entry w) (map snd batch) si"
  using index_batch_index [of batch si n] by simp

text \<open>
  Tombstones are sent to the flush task one at a time, each awaited: every one is a batch of its
  own. As long as the writes succeed this leaves the same state as one batch.
\<close>

fun flush_each ::
  "(wal_entry \<Rightarrow> string option) \<Rightarrow> (nat \<times> wal_entry) list \<Rightarrow> flush_state \<Rightarrow> flush_state" where
  "flush_each to_vec [] st = st"
| "flush_each to_vec (b # bs) st = flush_each to_vec bs (snd (flush_insert_batch to_vec WriteOk [b] st))"

lemma write_ok: "write_batch_bytes WriteOk buf f = (Inr (), if buf = [] then f else Some (file_bytes f @ buf))"
  by (simp add: write_batch_bytes_def write_and_sync_def)

lemma file_bytes_Some [simp]: "file_bytes (Some s) = s"
  by (simp add: file_bytes_def)

lemma flush_batch_step:
  assumes "stamp_batch to_vec (map snd batch) (fl_wal st) = (Inr (es, buf), w')" and "batch \<noteq> []"
    and "index_batch (zip (map fst batch) es) (fl_index st) (fl_since_compact st) = (rs, si', n')"
  shows "flush_insert_batch to_vec WriteOk batch st =
    (rs, st\<lparr> fl_wal := w', fl_file := Some (file_bytes (fl_file st) @ buf), fl_index := si', fl_since_compact := n' \<rparr>)"
  using assms stamped_buf_nonempty [OF assms(1)] by (simp add: flush_insert_batch_def write_ok)

lemma stamp_batch_Cons:
  assumes "stamp_batch to_vec (e # es) w = (Inr (es', buf), w')"
  obtains e1 l w1 es1 buf1 where "stamp_batch to_vec [e] w = (Inr ([e1], l), w1)"
    "stamp_batch to_vec es w1 = (Inr (es1, buf1), w')" "es' = e1 # es1" "buf = l @ buf1"
  using assms by (auto split: prod.splits sum.splits option.splits simp: Let_def)

lemma flush_each_eq:
  assumes "stamp_batch to_vec (map snd batch) (fl_wal st) = (Inr (es, buf), w')" and "batch \<noteq> []"
  shows "flush_each to_vec batch st = snd (flush_insert_batch to_vec WriteOk batch st)"
  using assms
proof (induction batch arbitrary: st es buf)
  case (Cons b batch)
  obtain rid e where b: "b = (rid, e)" by fastforce
  from Cons.prems(1) obtain e1 l w1 es1 buf1
    where h: "stamp_batch to_vec [e] (fl_wal st) = (Inr ([e1], l), w1)"
      and t: "stamp_batch to_vec (map snd batch) w1 = (Inr (es1, buf1), w')" "es = e1 # es1" "buf = l @ buf1"
    unfolding b list.map snd_conv by (rule stamp_batch_Cons)
  obtain r1 si1 n1 where i1: "index_batch [(rid, e1)] (fl_index st) (fl_since_compact st) = (r1, si1, n1)"
    by (metis prod_cases3)
  let ?st1 = "st\<lparr> fl_wal := w1, fl_file := Some (file_bytes (fl_file st) @ l), fl_index := si1, fl_since_compact := n1 \<rparr>"
  have step: "flush_insert_batch to_vec WriteOk [b] st = (r1, ?st1)"
    using flush_batch_step [of to_vec "[b]" st "[e1]" l w1 r1 si1 n1] h i1 b
    by (simp del: index_batch.simps stamp_batch.simps)
  show ?case
  proof (cases "batch = []")
    case True
    then show ?thesis by simp
  next
    case False
    obtain r2 si2 n2 where i2: "index_batch (zip (map fst batch) es1) si1 n1 = (r2, si2, n2)" by (metis prod_cases3)
    have i: "index_batch (zip (map fst (b # batch)) es) (fl_index st) (fl_since_compact st) = (r1 @ r2, si2, n2)"
      using i1 i2 t(2) b by (auto split: prod.splits sum.splits)
    have "flush_each to_vec batch ?st1 = snd (flush_insert_batch to_vec WriteOk batch ?st1)"
      by (rule Cons.IH [OF _ False]) (use t(1) in simp)
    also have "\<dots> = snd (flush_insert_batch to_vec WriteOk (b # batch) st)"
      using flush_batch_step [OF _ False, of to_vec ?st1 es1 buf1 w' r2 si2 n2] t i2
        flush_batch_step [OF Cons.prems(1) _ i] by simp
    finally show ?thesis using step by simp
  qed
qed simp

text \<open>The index dropped the entries that satisfy \<open>P\<close>; the tombstones of their UUIDs are flushed.\<close>

context recovery_relation
begin

lemma keep_drop_each:
  assumes dur: "durable_under rel de from_str cfg st" and codec: "json_codec to_vec from_str"
    and tot: "\<And>e. to_vec e \<noteq> None"
    and inv': "si_inv si'" and abs': "si_abs si' = sp_drop P (si_abs (fl_index st))"
    and ps: "\<And>u. u \<in> fst ` set ps \<longleftrightarrow> (\<exists>m e. contents (fl_index st) m u = Some e \<and> P m u e)"
    and ids: "length rids = length ps" and room: "unat (w_sequence (fl_wal st)) + length ps < 2 ^ 64"
  shows "durable_under rel de from_str cfg
    (flush_each to_vec (zip rids (map (\<lambda>(u, m). tombstone_entry u m) ps)) (st\<lparr> fl_index := si' \<rparr>))"
proof (cases "ps = []")
  case True
  have "si_abs si' = si_abs (fl_index st)" unfolding abs' using ps True by (intro sp_drop_none) auto
  then have "durable_under rel de from_str cfg (st\<lparr> fl_index := si' \<rparr>)" by (intro durable_index [OF dur inv']) simp
  then show ?thesis using True by simp
next
  case False
  let ?tombs = "map (\<lambda>(u, m). tombstone_entry u m) ps" and ?st = "st\<lparr> fl_index := si' \<rparr>"
  let ?batch = "zip rids ?tombs"
  have snds: "map snd ?batch = ?tombs" and fsts: "map fst ?batch = rids" and ne: "?batch \<noteq> []"
    using ids False by (auto simp: zip_eq_Nil_iff)
  have "\<exists>es buf w'. stamp_batch to_vec ?tombs (fl_wal st) = (Inr (es, buf), w')"
    by (rule stamp_batch_total) (use tot room in simp_all)
  then obtain es buf w' where stamp: "stamp_batch to_vec ?tombs (fl_wal st) = (Inr (es, buf), w')" by blast
  then have stamp': "stamp_batch to_vec (map snd ?batch) (fl_wal ?st) = (Inr (es, buf), w')" using snds by simp
  note T = stamped_tombstones [OF stamp]
  have len: "length rids = length es" using stamp_batch_length [OF stamp] ids by simp
  obtain rs si1 n' where ib0: "index_batch (zip rids es) si' (fl_since_compact st) = (rs, si1, n')"
    by (metis prod_cases3)
  have "fold (\<lambda>w. snd \<circ> replay_entry w) es si' = si'"
  proof (rule replay_gone_tombstones [OF si_inv_wf [OF inv']])
    have "namespace_for si' (we_uuid w) = None" if "w \<in> set es" for w
    proof -
      have "we_uuid w \<in> fst ` set ps" using arg_cong [OF T(2), of set] that by auto
      then have "sp_owner (si_abs si') (we_uuid w) = None"
        unfolding abs' using ps [of "we_uuid w"] by (auto simp: sp_drop_def)
      then show ?thesis by (simp add: namespace_for_def)
    qed
    then show "\<forall>w \<in> set es. we_tombstone w \<and> namespace_for si' (we_uuid w) = None" using T(1) by blast
  qed
  then have ib: "index_batch (zip (map fst ?batch) es) (fl_index ?st) (fl_since_compact ?st) = (rs, si', n')"
    using ib0 index_batch_state [OF ib0] len fsts by simp
  have "flush_each to_vec ?batch ?st =
      ?st\<lparr> fl_wal := w', fl_file := Some (file_bytes (fl_file st) @ buf), fl_index := si', fl_since_compact := n' \<rparr>"
    using flush_each_eq [OF stamp' ne] flush_batch_step [OF stamp' ne ib] by simp
  then show ?thesis
    using stamped_buf_nonempty [OF stamp] False
    by (intro keep_drop [OF dur codec stamp False ps]) (simp_all add: write_ok inv' abs')
qed

end

context recovery_relation
begin

lemma keep_reap:
  assumes dur: "durable_under rel de from_str cfg st" and codec: "json_codec to_vec from_str"
    and tot: "\<And>e. to_vec e \<noteq> None"
    and reap: "reaper_index_step now (fl_index st) = (exp_pairs, [], si')"
    and ids: "length rids = length exp_pairs"
    and room: "unat (w_sequence (fl_wal st)) + length exp_pairs < 2 ^ 64"
  shows "durable_under rel de from_str cfg (flush_each to_vec (zip rids (reaper_tombstones exp_pairs)) (st\<lparr> fl_index := si' \<rparr>))"
proof -
  have "si_inv (fl_index st)" using dur by (simp add: durable_def)
  note R = reaper_abs [OF this reap]
  show ?thesis unfolding reaper_tombstones_def by (rule keep_drop_each [OF dur codec tot R ids room])
qed

end

lemma removed_abs:
  assumes "si_inv si"
  shows "si_abs (snd (si_remove_by_uuid u si)) = sp_drop (\<lambda>_ v _. v = u) (si_abs si)"
  using si_remove_abs [OF si_inv_wf [OF assms], of u] sp_remove_drop [of "si_abs si" u] assms
  by (simp add: si_inv_def si_wf_def)

context recovery_relation
begin

lemma keep_delete:
  assumes dur: "durable_under rel de from_str cfg st" and codec: "json_codec to_vec from_str"
    and tot: "\<And>e. to_vec e \<noteq> None" and owner: "namespace_for (fl_index st) u = Some m"
    and room: "unat (w_sequence (fl_wal st)) + 1 < 2 ^ 64"
  shows "durable_under rel de from_str cfg (flush_each to_vec [(rid, tombstone_entry u m)]
    (st\<lparr> fl_index := snd (si_remove_by_uuid u (fl_index st)) \<rparr>))"
proof -
  have inv: "si_inv (fl_index st)" using dur by (simp add: durable_def)
  have ps: "v \<in> fst ` set [(u, m)] \<longleftrightarrow> (\<exists>k e. contents (fl_index st) k v = Some e \<and> v = u)" for v
    using si_inv_owner_iff [OF inv, of u m] owner by auto
  show ?thesis
    using keep_drop_each [OF dur codec tot si_inv_remove [OF inv] removed_abs [OF inv] ps, of "[rid]"] room by simp
qed

end

lemma invalidated:
  assumes inv: "si_inv si" and inval: "invalidate_similar emb th m now si = (removed, si')"
  shows "si_inv si'" "si_abs si' = sp_drop (\<lambda>k _ e. k = m \<and> similar_to emb th now e) (si_abs si)"
    and "\<And>u. u \<in> set removed \<longleftrightarrow> (\<exists>k e. contents si k u = Some e \<and> k = m \<and> similar_to emb th now e)"
proof -
  note st = si_wf_struct [OF si_inv_wf [OF inv]]
  have si': "si' = snd (invalidate_similar emb th m now si)" by (simp add: inval)
  show "si_inv si'" unfolding si' using invalidate_similar_keeps(2) [OF st st inv] .
  show "si_abs si' = sp_drop (\<lambda>k _ e. k = m \<and> similar_to emb th now e) (si_abs si)"
    unfolding si' using invalidate_similar_abs(2) [OF st, of emb th m now] by simp
  show "u \<in> set removed \<longleftrightarrow> (\<exists>k e. contents si k u = Some e \<and> k = m \<and> similar_to emb th now e)" for u
    using invalidate_similar_set [OF st, of u emb th m now] inval by auto
qed

context recovery_relation
begin

lemma keep_invalidate:
  assumes dur: "durable_under rel de from_str cfg st" and codec: "json_codec to_vec from_str"
    and tot: "\<And>e. to_vec e \<noteq> None"
    and inval: "invalidate_similar emb th m now (fl_index st) = (removed, si')"
    and ids: "length rids = length removed"
    and room: "unat (w_sequence (fl_wal st)) + length removed < 2 ^ 64"
  shows "durable_under rel de from_str cfg
    (flush_each to_vec (zip rids (map (\<lambda>u. tombstone_entry u m) removed)) (st\<lparr> fl_index := si' \<rparr>))"
proof -
  have inv: "si_inv (fl_index st)" using dur by (simp add: durable_def)
  note I = invalidated [OF inv inval]
  have ps: "u \<in> fst ` set (map (\<lambda>u. (u, m)) removed) \<longleftrightarrow>
      (\<exists>k e. contents (fl_index st) k u = Some e \<and> k = m \<and> similar_to emb th now e)" for u
    using I(3) [of u] by (auto simp: image_iff)
  show ?thesis
    using keep_drop_each [OF dur codec tot I(1,2) ps, of rids] ids room by (simp add: comp_def)
qed

end

section \<open>The node as a state machine\<close>

text \<open>
  What a node does between two restarts, as far as the disk writes of inserts and tombstones
  succeed. Compaction may fail at any point.
\<close>

inductive node_step ::
  "(wal_entry \<Rightarrow> string option) \<Rightarrow> (snapshot_entry list \<Rightarrow> u8 list option) \<Rightarrow> flush_state \<Rightarrow> flush_state \<Rightarrow> bool"
  for to_vec ser where
  node_batch: "flush_insert_batch to_vec WriteOk batch st = (rs, st') \<Longrightarrow> all_ok rs \<Longrightarrow>
     batch_fresh (map snd batch) (fl_index st) \<Longrightarrow> list_all we_finite (map snd batch) \<Longrightarrow>
     node_step to_vec ser st st'"
| node_access: "node_step to_vec ser st (st\<lparr> fl_index := si_record_access now m i (fl_index st) \<rparr>)"
| node_evict: "(\<And>e. to_vec e \<noteq> None) \<Longrightarrow>
     unat (w_sequence (fl_wal st)) + length (fst (evict_to_cap n (fl_index st))) < 2 ^ 64 \<Longrightarrow>
     node_step to_vec ser st (evict_to_cap_step to_vec WriteOk n st)"
| node_reap: "(\<And>e. to_vec e \<noteq> None) \<Longrightarrow>
     reaper_index_step now (fl_index st) = (exp_pairs, [], si') \<Longrightarrow> length rids = length exp_pairs \<Longrightarrow>
     unat (w_sequence (fl_wal st)) + length exp_pairs < 2 ^ 64 \<Longrightarrow>
     node_step to_vec ser st
       (flush_each to_vec (zip rids (reaper_tombstones exp_pairs)) (st\<lparr> fl_index := si' \<rparr>))"
| node_delete: "(\<And>e. to_vec e \<noteq> None) \<Longrightarrow> namespace_for (fl_index st) u = Some m \<Longrightarrow>
     unat (w_sequence (fl_wal st)) + 1 < 2 ^ 64 \<Longrightarrow>
     node_step to_vec ser st (flush_each to_vec [(rid, tombstone_entry u m)]
       (st\<lparr> fl_index := snd (si_remove_by_uuid u (fl_index st)) \<rparr>))"
| node_invalidate: "(\<And>e. to_vec e \<noteq> None) \<Longrightarrow>
     invalidate_similar emb th m now (fl_index st) = (removed, si') \<Longrightarrow> length rids = length removed \<Longrightarrow>
     unat (w_sequence (fl_wal st)) + length removed < 2 ^ 64 \<Longrightarrow>
     node_step to_vec ser st
       (flush_each to_vec (zip rids (map (\<lambda>u. tombstone_entry u m) removed)) (st\<lparr> fl_index := si' \<rparr>))"
| node_compact: "node_step to_vec ser st (snd (snapshot_compact ser outs st))"
| node_rehash: "si_rehash (fl_index st) si' \<Longrightarrow> node_step to_vec ser st (st\<lparr> fl_index := si' \<rparr>)"

context recovery_relation
begin

lemma keep_rehash:
  assumes dur: "durable_under rel de from_str cfg st" and r: "si_rehash (fl_index st) si'"
  shows "durable_under rel de from_str cfg (st\<lparr> fl_index := si' \<rparr>)"
proof -
  have inv: "si_inv (fl_index st)" using dur by (simp add: durable_def)
  note A = si_rehash_abs [OF si_wf_struct [OF si_inv_wf [OF inv]] r]
  have "si_inv si'" using inv A by (simp add: si_inv_def si_wf_def)
  then show ?thesis using A by (intro durable_index [OF dur]) simp_all
qed

end

lemma durable_step:
  assumes "json_codec to_vec from_str" "bincode_codec ser de"
    and "node_step to_vec ser st st'" "durable de from_str cfg st"
  shows "durable de from_str cfg st'"
  using assms(3,4)
proof (induction rule: node_step.induct)
  case (node_batch batch st rs st')
  show ?case
  proof (cases "batch = []")
    case True
    then show ?thesis using node_batch by (simp add: flush_insert_batch_def)
  next
    case False
    show ?thesis
      by (rule durable_batch [OF node_batch.prems assms(1) node_batch.hyps]) (use False recovers_batch in auto)
  qed
next
  case (node_access st now m i)
  then show ?case by (rule exact.keep_access)
next
  case (node_evict st n)
  then show ?case using exact.keep_evict assms(1) by blast
next
  case (node_reap now st exp_pairs si' rids)
  then show ?case using exact.keep_reap [OF node_reap.prems assms(1)] by blast
next
  case (node_delete st u m rid)
  then show ?case using exact.keep_delete [OF node_delete.prems assms(1)] by blast
next
  case (node_invalidate emb th m now st removed si' rids)
  then show ?case using exact.keep_invalidate [OF node_invalidate.prems assms(1)] by blast
next
  case (node_compact st outs)
  then show ?case using exact.keep_compact assms(2) by blast
next
  case (node_rehash st si')
  then show ?case using exact.keep_rehash by blast
qed

text \<open>A node started on an empty disk.\<close>

definition blank_node :: "hnsw_config \<Rightarrow> flush_state" where
  "blank_node cfg = \<lparr> fl_wal = \<lparr> w_sequence = 0 \<rparr>, fl_file = Some [], fl_snap = \<lparr> sd_snap = None, sd_tmp = None \<rparr>,
     fl_index = si_new cfg, fl_metrics = metrics_new, fl_since_compact = 0 \<rparr>"

lemma startup_blank:
  "startup de from_str cfg now True \<lparr> sd_snap = None, sd_tmp = None \<rparr> None = (Inr (blank_node cfg, []), Some [])"
  by (simp add: startup_def recover_def load_snapshot_def wal_replay_def open_with_sequence_def
      file_bytes_def blank_node_def collect_expired_def si_new_def AList.map_ran_def reaper_tombstones_def)

lemma blank_durable_under:
  "rel (si_abs (si_new cfg)) (si_abs (si_new cfg)) \<Longrightarrow> durable_under rel de from_str cfg (blank_node cfg)"
  by (simp add: durable_def blank_node_def si_inv_new file_bytes_def clean_def wal_replay_def load_snapshot_def
      recover_eq Let_def)

lemmas durable_blank = blank_durable_under [of recovers, OF recovers_refl]

lemma durable_recovers:
  assumes "durable de from_str cfg st"
  obtains si n where "recover de from_str cfg (fl_snap st) (fl_file st) = Inr (si, n)" "si_wf si"
    "\<And>m u. map_option core (contents si m u) = map_option core (contents (fl_index st) m u)"
    "namespace_for si = namespace_for (fl_index st)" "n \<le> w_sequence (fl_wal st)"
proof -
  from assms obtain si n where r: "recover de from_str cfg (fl_snap st) (fl_file st) = Inr (si, n)"
      "recovers (si_abs (fl_index st)) (si_abs si)"
    by (auto simp: durable_def)
  note R = recoversD [OF r(2), simplified]
  show thesis
    using that [OF r(1) recover_wf [OF r(1)]] R(1,2) recover_max [OF assms r(1)]
    by (simp add: namespace_for_def fun_eq_iff)
qed

end
