(* ===== verification/Restart.thy ===== *)
theory Restart
  imports Recovery
begin

text \<open>
  A node over its whole life: runs of \<^const>\<open>node_step\<close> with restarts in between. A restart keeps the
  node durable, so what one run acknowledged is still there any number of restarts later.
\<close>

text \<open>The disk as the opened log sees it.\<close>

lemma wal_replay_created: "wal_replay from_str (Some (file_bytes f)) = wal_replay from_str f"
  by (cases f) (simp_all add: wal_replay_def file_bytes_def)

lemma recover_created: "recover de from_str cfg d (Some (file_bytes f)) = recover de from_str cfg d f"
  by (simp add: recover_def wal_replay_created)

text \<open>The recovered index satisfies the full invariant when the lost one did.\<close>

lemma recovered_inv:
  assumes "si_inv live" and "recovers (si_abs live) (si_abs si)" and "si_wf si"
  shows "si_inv si"
proof -
  note R = recoversD [OF assms(2), simplified]
  have "sp_owner (si_abs si) u = Some m" if "sp_content (si_abs si) m u = Some e" for m u e
  proof -
    have "contents live m u \<noteq> None" using R(1) [of m u] that by auto
    then have "namespace_for live u = Some m" using si_inv_owner_iff [OF assms(1)] by blast
    then show ?thesis using R(2) by (simp add: namespace_for_def)
  qed
  then show ?thesis using assms(3) by (auto simp: si_inv_def sp_complete_def)
qed

text \<open>The node right after its log was opened, before the expired entries are dropped.\<close>

definition reopened :: "u64 \<Rightarrow> semantic_index \<Rightarrow> flush_state \<Rightarrow> flush_state" where
  "reopened n si st =
     \<lparr> fl_wal = \<lparr> w_sequence = n \<rparr>, fl_file = Some (file_bytes (fl_file st)), fl_snap = fl_snap st,
       fl_index = si, fl_metrics = metrics_new, fl_since_compact = 0 \<rparr>"

lemma reopened_index [simp]: "fl_index (reopened n si st) = si" "fl_wal (reopened n si st) = \<lparr> w_sequence = n \<rparr>"
  by (simp_all add: reopened_def)

lemma durable_reopened:
  assumes dur: "durable_under rel de from_str cfg st"
    and rec: "recover de from_str cfg (fl_snap st) (fl_file st) = Inr (si, n)"
    and "si_inv si" and "rel' (si_abs si) (si_abs si)"
  shows "durable_under rel' de from_str cfg (reopened n si st)"
proof -
  obtain es where "wal_replay from_str (fl_file st) = Inr es" "clean (file_bytes (fl_file st))"
    using dur by (auto simp: durable_def)
  then show ?thesis
    using recover_bound [OF rec, of es] assms(3,4) rec
    by (simp add: durable_def reopened_def wal_replay_created recover_created)
qed

text \<open>Startup reopens the log and drops the expired entries of the recovered index.\<close>

lemma startup_expired:
  assumes start: "startup de from_str cfg now True (fl_snap st) (fl_file st) = (Inr (st1, ts), f')"
    and rec: "recover de from_str cfg (fl_snap st) (fl_file st) = Inr (si, n)" and inv: "si_inv si"
  obtains ps si' where "st1 = (reopened n si st)\<lparr> fl_index := si' \<rparr>" "ts = map (\<lambda>(u, m). tombstone_entry u m) ps"
    "si_inv si'" "si_abs si' = sp_drop (\<lambda>_ _. expired now) (si_abs si)"
    "\<And>u. u \<in> fst ` set ps \<longleftrightarrow> (\<exists>m e. contents si m u = Some e \<and> expired now e)"
proof -
  obtain ps si' where c: "collect_expired now si = (ps, si')" by fastforce
  note st = si_wf_struct [OF si_inv_wf [OF inv]]
  show thesis
  proof (rule that)
    show "st1 = (reopened n si st)\<lparr> fl_index := si' \<rparr>" "ts = map (\<lambda>(u, m). tombstone_entry u m) ps"
      using start rec c by (auto simp: startup_def open_with_sequence_def reaper_tombstones_def reopened_def)
    show "si_inv si'" using collect_expired_keeps(2) [OF st st inv] c by (metis snd_conv)
    show "si_abs si' = sp_drop (\<lambda>_ _. expired now) (si_abs si)" using collect_expired_abs(2) [OF st, of now] c by simp
    show "u \<in> fst ` set ps \<longleftrightarrow> (\<exists>m e. contents si m u = Some e \<and> expired now e)" for u
      using collect_expired_set [OF st, of u] c by force
  qed
qed

lemma durable_startup:
  assumes dur: "durable de from_str cfg st" and codec: "json_codec to_vec from_str" and tot: "\<And>e. to_vec e \<noteq> None"
    and start: "startup de from_str cfg now True (fl_snap st) (fl_file st) = (Inr (st1, tombs), f')"
    and ids: "length rids = length tombs" and room: "unat (w_sequence (fl_wal st1)) + length tombs < 2 ^ 64"
  shows "durable de from_str cfg (flush_each to_vec (zip rids tombs) st1)"
proof -
  obtain si n where rec: "recover de from_str cfg (fl_snap st) (fl_file st) = Inr (si, n)"
    and r: "recovers (si_abs (fl_index st)) (si_abs si)"
    using dur by (auto simp: durable_def)
  have inv: "si_inv si" using recovered_inv [OF _ r recover_wf [OF rec]] dur by (simp add: durable_def)
  note dur' = durable_reopened [OF dur rec inv recovers_refl]
  obtain ps si' where st1: "st1 = (reopened n si st)\<lparr> fl_index := si' \<rparr>" "tombs = map (\<lambda>(u, m). tombstone_entry u m) ps"
    and S: "si_inv si'" "si_abs si' = sp_drop (\<lambda>_ _. expired now) (si_abs si)"
      "\<And>u. u \<in> fst ` set ps \<longleftrightarrow> (\<exists>m e. contents si m u = Some e \<and> expired now e)"
    by (rule startup_expired [OF start rec inv]) blast
  show ?thesis unfolding st1
    by (rule exact.keep_drop_each [OF dur' codec tot S(1)]) (use S(2,3) ids room st1 in simp_all)
qed

section \<open>The life of a node\<close>

text \<open>
  A restart reads the disk as the last run left it, drops what has expired and logs a tombstone for
  each entry it dropped.
\<close>

inductive life_step ::
  "(u8 list \<Rightarrow> snapshot_entry list option) \<Rightarrow> (string \<Rightarrow> wal_entry option) \<Rightarrow> hnsw_config \<Rightarrow>
   (wal_entry \<Rightarrow> string option) \<Rightarrow> (snapshot_entry list \<Rightarrow> u8 list option) \<Rightarrow> flush_state \<Rightarrow> flush_state \<Rightarrow> bool"
  for de from_str cfg to_vec ser where
  life_run: "node_step to_vec ser st st' \<Longrightarrow> life_step de from_str cfg to_vec ser st st'"
| life_restart: "(\<And>e. to_vec e \<noteq> None) \<Longrightarrow>
     startup de from_str cfg now True (fl_snap st) (fl_file st) = (Inr (st1, tombs), f') \<Longrightarrow>
     length rids = length tombs \<Longrightarrow> unat (w_sequence (fl_wal st1)) + length tombs < 2 ^ 64 \<Longrightarrow>
     life_step de from_str cfg to_vec ser st (flush_each to_vec (zip rids tombs) st1)"

lemma durable_life:
  assumes "json_codec to_vec from_str" "bincode_codec ser de"
  shows "step_invariant (\<lambda>st. st = blank_node cfg) (life_step de from_str cfg to_vec ser) (durable de from_str cfg)"
proof unfold_locales
  fix st st'
  assume "life_step de from_str cfg to_vec ser st st'" "durable de from_str cfg st"
  then show "durable de from_str cfg st'"
  proof cases
    case life_run
    then show ?thesis using durable_step [OF assms] \<open>durable de from_str cfg st\<close> by blast
  next
    case (life_restart now st1 tombs f' rids)
    then show ?thesis using durable_startup [OF \<open>durable de from_str cfg st\<close> assms(1)] by blast
  qed
qed (simp add: durable_blank)

end
