(* ===== verification/Interleaving.thy ===== *)
theory Interleaving
  imports Restart
begin

text \<open>
  Tasks that interleave. A handler or the reaper changes the index first and sends its tombstones
  afterwards, each through the bounded channel of the flush task; requests are dropped while they
  wait, and the process may stop between any two of these steps. What a restart recovers then differs
  from the live index exactly by the entries whose removal has not been written.
\<close>

section \<open>Recovered up to unsettled removals\<close>

definition drop_uuids :: "string set \<Rightarrow> cache_spec \<Rightarrow> cache_spec" where
  "drop_uuids U = sp_drop (\<lambda>_ u _. u \<in> U)"

definition covers :: "string set \<Rightarrow> cache_spec \<Rightarrow> cache_spec \<Rightarrow> bool" where
  "covers U live rec \<longleftrightarrow> sp_sound rec \<and> sp_complete rec \<and> (\<exists>Q \<subseteq> U. recovers live (drop_uuids Q rec))"

lemma coversI: "sp_sound t \<Longrightarrow> sp_complete t \<Longrightarrow> Q \<subseteq> U \<Longrightarrow> recovers s (drop_uuids Q t) \<Longrightarrow> covers U s t"
  by (auto simp: covers_def)

lemma coversE:
  assumes "covers U s t"
  obtains Q where "sp_sound t" "sp_complete t" "Q \<subseteq> U" "recovers s (drop_uuids Q t)"
  using assms by (auto simp: covers_def)

lemma covers_mono: "covers U s t \<Longrightarrow> U \<subseteq> V \<Longrightarrow> covers V s t"
  by (auto simp: covers_def)

lemma drop_uuids_drop [simp]: "drop_uuids Q (drop_uuids R s) = drop_uuids (Q \<union> R) s"
  unfolding drop_uuids_def sp_drop_drop by (rule sp_drop_cong) auto

lemma drop_uuids_none [simp]: "drop_uuids {} s = s"
  by (simp add: drop_uuids_def sp_drop_none)

lemma drop_uuids_keeps:
  assumes "sp_sound s" "sp_complete s"
  shows "sp_sound (drop_uuids U s)" "sp_complete (drop_uuids U s)"
  using assms by (simp_all add: drop_uuids_def sp_drop_keeps)

lemma drop_uuids_sel [simp]:
  "sp_content (drop_uuids U s) m u = (if u \<in> U then None else sp_content s m u)"
  "u \<notin> U \<Longrightarrow> sp_owner (drop_uuids U s) u = sp_owner s u"
  "sp_dim (drop_uuids U s) = sp_dim s"
  by (auto simp: drop_uuids_def sp_drop_def split: option.split)

lemma drop_uuids_owner:
  "sp_owner (drop_uuids U s) u = (if u \<in> U \<and> (\<exists>m e. sp_content s m u = Some e) then None else sp_owner s u)"
  by (auto simp: drop_uuids_def sp_drop_def)

lemma remove_uuids:
  "sp_sound s \<Longrightarrow> sp_complete s \<Longrightarrow> snd (sp_remove u s) = drop_uuids {u} s"
  "sp_sound s \<Longrightarrow> sp_complete s \<Longrightarrow> fold (\<lambda>u s. snd (sp_remove u s)) us s = drop_uuids (set us) s"
  by (simp_all add: drop_uuids_def sp_remove_drop fold_remove_drop)

lemma recovers_drop_uuids: "recovers s t \<Longrightarrow> recovers (drop_uuids U s) (drop_uuids U t)"
  unfolding drop_uuids_def by (rule recovers_drop) auto

lemma drop_as_uuids:
  assumes "sp_complete s" and us: "\<And>u. u \<in> U \<longleftrightarrow> (\<exists>m e. sp_content s m u = Some e \<and> P m u e)"
  shows "sp_drop P s = drop_uuids U s"
  unfolding drop_uuids_def
proof (rule sp_drop_cong)
  fix m u e
  assume c: "sp_content s m u = Some e"
  have owner: "sp_owner s u = Some k" if "sp_content s k u = Some e'" for k e'
    using assms(1) that by (simp add: sp_complete_def)
  have "k = m" if "sp_content s k u = Some e'" for k e' using owner [OF c] owner [OF that] by simp
  then have "(\<exists>k e'. sp_content s k u = Some e' \<and> P k u e') \<longleftrightarrow> P m u e"
    using c by (metis option.inject)
  then show "P m u e = (u \<in> U)" by (simp add: us)
qed

text \<open>A removal leaves what it removed unsettled; its tombstones settle it.\<close>

lemma covers_removed:
  assumes "covers U s t" and "sp_complete s"
    and "\<And>u. u \<in> V \<longleftrightarrow> (\<exists>m e. sp_content s m u = Some e \<and> P m u e)"
  shows "covers (U \<union> V) (sp_drop P s) t"
proof -
  obtain Q where Q: "sp_sound t" "sp_complete t" "Q \<subseteq> U" "recovers s (drop_uuids Q t)"
    using assms(1) by (rule coversE)
  show ?thesis
    using recovers_drop_uuids [OF Q(4), of V] Q drop_as_uuids [OF assms(2,3)]
    by (intro coversI [of _ "V \<union> Q"]) auto
qed

lemma covers_tombstone:
  assumes "covers U s t"
  shows "covers (U - {u}) (snd (sp_remove u s)) (snd (sp_remove u t))"
proof -
  obtain Q where Q: "sp_sound t" "sp_complete t" "Q \<subseteq> U" "recovers s (drop_uuids Q t)"
    using assms by (rule coversE)
  have "recovers (snd (sp_remove u s)) (drop_uuids ({u} \<union> Q) t)"
    using recovers_remove [OF Q(4), of u] Q(1,2) by (simp add: remove_uuids drop_uuids_keeps)
  moreover have "drop_uuids ({u} \<union> Q) t = drop_uuids (Q - {u}) (snd (sp_remove u t))"
    using Q(1,2) by (simp add: remove_uuids)
  ultimately show ?thesis
    using Q by (intro coversI [of _ "Q - {u}"]) (auto simp: remove_uuids drop_uuids_keeps)
qed

interpretation upto: recovery_relation "covers U" for U
proof unfold_locales
  fix s t
  assume "recovers s t" "sp_sound s" "sp_complete s"
  then show "covers U s t" using recovers_sound [of s t] by (intro coversI [of _ "{}"]) auto
next
  fix s t now m u
  assume "covers U s t"
  then show "covers U (sp_touch now m u s) t" by (auto simp: covers_def intro: recovers_touch)
next
  fix s t us P
  assume c: "covers U s t" "sp_sound s" "sp_complete s"
    and us: "\<And>u. (u \<in> set us) = (\<exists>m e. sp_content s m u = Some e \<and> P m u e)"
  obtain Q where Q: "sp_sound t" "sp_complete t" "Q \<subseteq> U" "recovers s (drop_uuids Q t)"
    using c(1) by (rule coversE)
  show "covers U (sp_drop P s) (fold (\<lambda>u s. snd (sp_remove u s)) us t)"
    using recovers_drop_uuids [OF Q(4), of "set us"] Q drop_as_uuids [OF c(3) us]
    by (intro coversI [of _ Q]) (auto simp: remove_uuids drop_uuids_keeps Un_commute)
qed

section \<open>Batches\<close>

definition tomb_uuids :: "wal_entry list \<Rightarrow> string set" where
  "tomb_uuids es = we_uuid ` set (filter we_tombstone es)"

lemma tomb_uuids_simps [simp]:
  "tomb_uuids [] = {}" "tomb_uuids (es @ es') = tomb_uuids es \<union> tomb_uuids es'"
  "tomb_uuids (e # es) = (if we_tombstone e then insert (we_uuid e) (tomb_uuids es) else tomb_uuids es)"
  by (auto simp: tomb_uuids_def)

text \<open>An insert must not bring a UUID whose removal is still unsettled.\<close>

lemma drop_uuids_insert:
  assumes "ce_uuid e \<notin> Q"
  shows "snd (sp_insert m e (drop_uuids Q t)) = drop_uuids Q (snd (sp_insert m e t))"
proof (intro cache_spec_eqI ext)
  fix k u
  show "sp_content (snd (sp_insert m e (drop_uuids Q t))) k u = sp_content (drop_uuids Q (snd (sp_insert m e t))) k u"
    using assms by (auto simp: sp_insert_def sp_accepts_def)
  show "sp_owner (snd (sp_insert m e (drop_uuids Q t))) u = sp_owner (drop_uuids Q (snd (sp_insert m e t))) u"
  proof (cases "u = ce_uuid e")
    case True
    then show ?thesis using assms by (simp add: sp_insert_def sp_accepts_def)
  next
    case False
    have "sp_content (snd (sp_insert m e s)) k u = sp_content s k u" "sp_owner (snd (sp_insert m e s)) u = sp_owner s u"
      for s k using False by (simp_all add: sp_insert_def)
    then show ?thesis by (auto simp: drop_uuids_owner)
  qed
qed (simp add: sp_insert_def sp_accepts_def)

lemma covers_insert:
  assumes "covers U s t" and "sp_accepts m e s" and "sp_owner s (ce_uuid e) \<in> {None, Some m}" and "ce_uuid e \<notin> U"
  shows "covers U (snd (sp_insert m e s)) (snd (sp_insert m e t))"
proof -
  obtain Q where Q: "sp_sound t" "sp_complete t" "Q \<subseteq> U" "recovers s (drop_uuids Q t)"
    using assms(1) by (rule coversE)
  have new: "ce_uuid e \<notin> Q" using assms(4) Q(3) by auto
  have "sp_owner t (ce_uuid e) \<in> {None, Some m}"
    using recoversD(2) [OF Q(4)] assms(3) new by simp
  then have "sp_complete (snd (sp_insert m e t))" using sp_complete_insert [OF Q(2)] by auto
  then show ?thesis
    using recovers_insert(2) [OF Q(4) assms(2)] Q drop_uuids_insert [OF new] sp_sound_insert
    by (intro coversI [of _ Q]) auto
qed

lemma covers_batch:
  "covers U s t \<Longrightarrow> batch_ok ws s \<Longrightarrow> list_all (\<lambda>w. we_tombstone w \<or> we_uuid w \<notin> U) ws \<Longrightarrow>
     covers (U - tomb_uuids ws) (fold sp_replay ws s) (fold sp_replay ws t)"
proof (induction ws arbitrary: U s t)
  case (Cons w ws)
  show ?case
  proof (cases "we_tombstone w")
    case True
    have "covers (U - {we_uuid w}) (sp_replay w s) (sp_replay w t)"
      using covers_tombstone [OF Cons.prems(1)] True by (simp add: sp_replay_def)
    from Cons.IH [OF this] Cons.prems True
    have "covers (U - {we_uuid w} - tomb_uuids ws) (fold sp_replay (w # ws) s) (fold sp_replay (w # ws) t)"
      by (auto simp: list_all_iff)
    then show ?thesis using True by (simp add: Diff_insert2 [symmetric])
  next
    case False
    have "covers U (sp_replay w s) (sp_replay w t)"
      using covers_insert [OF Cons.prems(1), of "we_model_id w" "wal_to_cache w"] Cons.prems False
      by (auto simp: sp_replay_def wal_to_cache_def)
    from Cons.IH [OF this] Cons.prems False show ?thesis by simp
  qed
qed simp

lemma unstamped_all:
  assumes "map unstamped es = map unstamped es'"
  shows "list_all (\<lambda>w. we_tombstone w \<or> we_uuid w \<notin> U) es = list_all (\<lambda>w. we_tombstone w \<or> we_uuid w \<notin> U) es'"
proof -
  let ?P = "\<lambda>w. we_tombstone w \<or> we_uuid w \<notin> U"
  have unst: "list_all ?P es = list_all ?P (map unstamped es)" for es
    by (simp add: list_all_iff unstamped_def)
  show ?thesis unfolding unst [of es] unst [of es'] assms ..
qed

lemma tomb_uuids_unstamped: "map unstamped es = map unstamped es' \<Longrightarrow> tomb_uuids es = tomb_uuids es'"
proof (induction es arbitrary: es')
  case (Cons e es)
  then obtain e' vs where v: "es' = e' # vs" "unstamped e = unstamped e'" "map unstamped es = map unstamped vs"
    by (cases es') auto
  then show ?case using Cons.IH [OF v(3)] unstamped_fields [OF v(2)] by simp
qed simp

section \<open>The tasks and the channel\<close>

text \<open>
  The flush task with its channel, the entries that handlers, the startup and the reaper still wait
  to send, and the UUIDs whose tombstone was given up or answered with an error. The last field is
  history: no step reads it but to say which UUIDs are unsettled.
\<close>

record channel_node =
  cn_flush :: flush_state
  cn_channel :: "wal_command list"
  cn_waiting :: "wal_entry list"
  cn_lost :: "string set"

fun cmd_entries :: "wal_command list \<Rightarrow> wal_entry list" where
  "cmd_entries [] = []"
| "cmd_entries (InsertCmd rid e # cmds) = e # cmd_entries cmds"
| "cmd_entries (CompactCmd rid # cmds) = cmd_entries cmds"

definition unsettled :: "channel_node \<Rightarrow> string set" where
  "unsettled n = tomb_uuids (cmd_entries (cn_channel n)) \<union> tomb_uuids (cn_waiting n) \<union> cn_lost n"

fun refused_reply :: "reply \<Rightarrow> bool" where
  "refused_reply (InsertReply rid r) = isl r"
| "refused_reply (CompactReply rid r) = False"

text \<open>The replies of a round answer the commands at the head of the channel, in order.\<close>

definition refused :: "wal_command list \<Rightarrow> reply list \<Rightarrow> wal_entry list" where
  "refused cmds rs = cmd_entries (map fst (filter (\<lambda>(c, r). refused_reply r) (zip cmds rs)))"

fun rejected_by_index :: "reply \<Rightarrow> bool" where
  "rejected_by_index (InsertReply rid (Inl (IndexErr err))) = True"
| "rejected_by_index r = False"

text \<open>The UUIDs an index and a batch brought into a round that have no owner after it.\<close>

definition vanished :: "wal_entry list \<Rightarrow> semantic_index \<Rightarrow> semantic_index \<Rightarrow> string set" where
  "vanished ws si si' =
     set (filter (\<lambda>u. namespace_for si' u = None) (map we_uuid ws @ map fst (uuid_to_namespace si)))"

text \<open>The channel of \<open>GroupCommitWal::spawn\<close>: how many commands it holds, and that it starts empty.\<close>

definition capacity :: "group_commit_config \<Rightarrow> nat" where
  "capacity gc = max (gc_channel_capacity gc) 1"

definition spawn :: "flush_state \<Rightarrow> channel_node" where
  "spawn st = \<lparr> cn_flush = st, cn_channel = [], cn_waiting = [], cn_lost = {} \<rparr>"

abbreviation with_index :: "semantic_index \<Rightarrow> channel_node \<Rightarrow> channel_node" where
  "with_index si n \<equiv> n\<lparr> cn_flush := (cn_flush n)\<lparr> fl_index := si \<rparr> \<rparr>"

text \<open>
  The entries of a batch are finite, and an insert brings a UUID that is free or belongs to its
  namespace and whose removal is not still unsettled.
\<close>

definition batch_admissible :: "wal_entry list \<Rightarrow> channel_node \<Rightarrow> bool" where
  "batch_admissible ws n \<longleftrightarrow> list_all we_finite ws \<and> batch_fresh ws (fl_index (cn_flush n)) \<and>
     list_all (\<lambda>w. we_tombstone w \<or> we_uuid w \<notin> unsettled n) ws"

text \<open>
  A deletion looks the namespace up under one lock and removes under another, so the namespace in
  its tombstone may be outdated: any \<open>m\<close>. A batch is written, or fails before its first byte; so are
  the tombstones of an eviction, which the flush task does not retry.
\<close>

inductive task_step ::
  "(u8 list \<Rightarrow> snapshot_entry list option) \<Rightarrow> (string \<Rightarrow> wal_entry option) \<Rightarrow> hnsw_config \<Rightarrow>
   (wal_entry \<Rightarrow> string option) \<Rightarrow> (snapshot_entry list \<Rightarrow> u8 list option) \<Rightarrow> group_commit_config \<Rightarrow> u64 \<Rightarrow>
   channel_node \<Rightarrow> channel_node \<Rightarrow> bool"
  for de from_str cfg to_vec ser gc interval where
  task_insert: "\<not> we_tombstone e \<Longrightarrow>
     task_step de from_str cfg to_vec ser gc interval n (n\<lparr> cn_waiting := cn_waiting n @ [e] \<rparr>)"
| task_delete: "task_step de from_str cfg to_vec ser gc interval n
     (with_index (snd (si_remove_by_uuid u (fl_index (cn_flush n)))) n
        \<lparr> cn_waiting := cn_waiting n @ [tombstone_entry u m] \<rparr>)"
| task_invalidate: "invalidate_similar emb th m now (fl_index (cn_flush n)) = (removed, si) \<Longrightarrow>
     task_step de from_str cfg to_vec ser gc interval n
       (with_index si n\<lparr> cn_waiting := cn_waiting n @ map (\<lambda>u. tombstone_entry u m) removed \<rparr>)"
| task_reap: "reaper_index_step now (fl_index (cn_flush n)) = (exp_pairs, [], si) \<Longrightarrow>
     task_step de from_str cfg to_vec ser gc interval n
       (with_index si n\<lparr> cn_waiting := cn_waiting n @ reaper_tombstones exp_pairs \<rparr>)"
| task_access: "task_step de from_str cfg to_vec ser gc interval n
     (with_index (si_record_access now m i (fl_index (cn_flush n))) n)"
| task_rehash: "si_rehash (fl_index (cn_flush n)) si \<Longrightarrow>
     task_step de from_str cfg to_vec ser gc interval n (with_index si n)"
| task_send: "cn_waiting n = xs @ e # ys \<Longrightarrow> length (cn_channel n) < capacity gc \<Longrightarrow>
     task_step de from_str cfg to_vec ser gc interval n
       (n\<lparr> cn_waiting := xs @ ys, cn_channel := cn_channel n @ [InsertCmd rid e] \<rparr>)"
| task_request_compact: "length (cn_channel n) < capacity gc \<Longrightarrow>
     task_step de from_str cfg to_vec ser gc interval n (n\<lparr> cn_channel := cn_channel n @ [CompactCmd rid] \<rparr>)"
| task_give_up: "cn_waiting n = xs @ e # ys \<Longrightarrow>
     task_step de from_str cfg to_vec ser gc interval n
       (n\<lparr> cn_waiting := xs @ ys, cn_lost := cn_lost n \<union> tomb_uuids [e] \<rparr>)"
| task_round: "cn_channel n = c # queue \<Longrightarrow>
     flush_round to_vec ser gc cfg interval io c (take k queue) (cn_flush n) = (rs, rest, st) \<Longrightarrow>
     io_batch io \<in> {WriteOk, WriteFail 0} \<Longrightarrow> io_tomb io \<in> {WriteOk, WriteFail 0} \<Longrightarrow>
     list_all (\<lambda>r. \<not> rejected_by_index r) rs \<Longrightarrow> ws = cmd_entries (take (length rs) (cn_channel n)) \<Longrightarrow>
     batch_admissible ws n \<Longrightarrow>
     task_step de from_str cfg to_vec ser gc interval n
       (n\<lparr> cn_flush := st, cn_channel := rest @ drop k queue,
           cn_lost := cn_lost n \<union> tomb_uuids (refused (cn_channel n) rs) \<union>
             (if io_tomb io = WriteOk \<and> w_sequence (fl_wal st) \<noteq> - 1 then {}
              else vanished ws (fl_index (cn_flush n)) (fl_index st)) \<rparr>)"
| task_restart: "startup de from_str cfg now True (fl_snap (cn_flush n)) (fl_file (cn_flush n)) = (Inr (st, ts), f) \<Longrightarrow>
     task_step de from_str cfg to_vec ser gc interval n ((spawn st)\<lparr> cn_waiting := ts \<rparr>)"

definition idle_node :: "hnsw_config \<Rightarrow> channel_node" where
  "idle_node cfg = spawn (blank_node cfg)"

section \<open>One round of the flush task\<close>

lemma cmd_entries_append [simp]: "cmd_entries (cs @ ds) = cmd_entries cs @ cmd_entries ds"
  by (induction cs rule: cmd_entries.induct) auto

lemma durable_under_fields:
  assumes "fl_wal st' = fl_wal st" "fl_file st' = fl_file st" "fl_snap st' = fl_snap st" "fl_index st' = fl_index st"
  shows "durable_under rel de from_str cfg st' = durable_under rel de from_str cfg st"
  by (simp add: durable_under_def assms)

lemma durable_under_mono:
  "durable_under rel de from_str cfg st \<Longrightarrow> (\<And>s t. rel s t \<Longrightarrow> rel' s t) \<Longrightarrow> durable_under rel' de from_str cfg st"
  by (auto simp: durable_under_def)

lemma durable_covers_mono:
  "durable_under (covers U) de from_str cfg st \<Longrightarrow> U \<subseteq> V \<Longrightarrow> durable_under (covers V) de from_str cfg st"
  by (erule durable_under_mono) (rule covers_mono)

lemma durable_refused:
  assumes "durable_under rel de from_str cfg st" and "w_sequence (fl_wal st) \<le> w_sequence w'"
    and "f' = fl_file st \<or> f' = Some (file_bytes (fl_file st))"
  shows "durable_under rel de from_str cfg (st\<lparr> fl_wal := w', fl_file := f' \<rparr>)"
proof -
  have f: "file_bytes f' = file_bytes (fl_file st)" "wal_replay from_str f' = wal_replay from_str (fl_file st)"
    "recover de from_str cfg (fl_snap st) f' = recover de from_str cfg (fl_snap st) (fl_file st)"
    using assms(3) by (auto simp: wal_replay_created recover_created)
  show ?thesis using assms(1) order_trans [OF _ assms(2)]
    unfolding durable_under_def by (fastforce simp: f)
qed

lemma stamp_batch_mono: "w_sequence w \<le> w_sequence (snd (stamp_batch to_vec es w))"
proof (induction es arbitrary: w)
  case (Cons e es)
  show ?case
  proof (cases "fst (next_sequence w)")
    case (Inl err)
    then show ?thesis by (auto simp: next_sequence_def split: option.splits)
  next
    case (Inr s)
    then obtain w1 where n: "next_sequence w = (Inr s, w1)" by (metis prod.collapse)
    note N = next_sequence_Inr [OF n]
    have "w_sequence w \<le> w_sequence w1" using N by (simp add: word_le_nat_alt)
    also have "\<dots> \<le> w_sequence (snd (stamp_batch to_vec es w1))" by (rule Cons.IH)
    finally show ?thesis using n \<open>w_sequence w \<le> w_sequence w1\<close>
      by (auto simp: Let_def split: option.split prod.split sum.split)
  qed
qed simp

text \<open>Without serialisation errors stamping fails only when the counter is exhausted.\<close>

lemma checked_add_None: "checked_add w 1 = None \<Longrightarrow> w = - 1"
  using unsigned_less [of w, where ?'a = nat] by (simp add: checked_add_def word_unat_eq_iff unsigned_minus_1_eq_mask mask_eq_exp_minus_1 split: if_splits)

lemma stamp_batch_exhausted:
  assumes "\<And>e. to_vec e \<noteq> None" and "stamp_batch to_vec es w = (Inl err, w')"
  shows "w_sequence w' = - 1"
  using assms(2)
proof (induction es arbitrary: w)
  case (Cons e es)
  show ?case
  proof (cases "checked_add (w_sequence w) 1")
    case None
    then show ?thesis using Cons.prems by (auto simp: next_sequence_def checked_add_None)
  next
    case (Some s)
    obtain line where "to_vec (e\<lparr> we_sequence := s \<rparr>) = Some line" using assms(1) by blast
    then have "stamp_batch to_vec es (w\<lparr> w_sequence := s \<rparr>) = (Inl err, w')"
      using Cons.prems Some by (auto simp: next_sequence_def split: prod.splits sum.splits)
    then show ?thesis by (rule Cons.IH)
  qed
qed simp

text \<open>A batch gives owners to its own UUIDs only.\<close>

lemma replay_owners:
  "sp_owner (fold sp_replay ws s) u \<noteq> None \<Longrightarrow> sp_owner s u \<noteq> None \<or> u \<in> we_uuid ` set ws"
proof (induction ws arbitrary: s)
  case (Cons w ws)
  have "sp_owner s u \<noteq> None \<or> u = we_uuid w" if "sp_owner (sp_replay w s) u \<noteq> None"
    using that by (auto simp: sp_replay_def sp_remove_def sp_insert_def wal_to_cache_def split: if_splits option.splits)
  then show ?case using Cons by fastforce
qed simp

lemma flush_batch_index:
  assumes "flush_insert_batch to_vec out batch st = (rs, st')"
  obtains "fl_index st' = fl_index st"
  | es where "map unstamped es = map unstamped (map snd batch)"
    "fl_index st' = fold (\<lambda>w. snd \<circ> replay_entry w) es (fl_index st)"
proof -
  obtain r w' where s: "stamp_batch to_vec (map snd batch) (fl_wal st) = (r, w')" by fastforce
  show thesis
  proof (cases r)
    case (Inl err)
    then show thesis using assms s that(1) by (auto simp: flush_insert_batch_def split: if_splits)
  next
    case (Inr p)
    then obtain es buf where p: "r = Inr (es, buf)" by (cases p) auto
    have es: "map unstamped es = map unstamped (map snd batch)" using stamp_batch_Inr s p by blast
    have "length es = length batch" using arg_cong [OF es, of length] by simp
    then have "fst (snd (index_batch (zip (map fst batch) es) (fl_index st) n)) =
        fold (\<lambda>w. snd \<circ> replay_entry w) es (fl_index st)" for n
      by (simp add: index_batch_index)
    then show thesis using assms s p that(1) that(2) [OF es]
      by (fastforce simp: flush_insert_batch_def split_beta split: if_splits sum.splits prod.splits)
  qed
qed

lemma namespace_for_listed: "namespace_for si u \<noteq> None \<Longrightarrow> u \<in> fst ` set (uuid_to_namespace si)"
  by (auto simp: namespace_for_def dest: map_of_SomeD intro: rev_image_eqI)

lemma flush_batch_owners:
  assumes step: "flush_insert_batch to_vec out batch st = (rs, st')" and wf: "si_wf (fl_index st)"
    and u: "namespace_for (fl_index st') u \<noteq> None"
  shows "u \<in> we_uuid ` set (map snd batch) \<or> u \<in> fst ` set (uuid_to_namespace (fl_index st))"
  using step
proof (cases rule: flush_batch_index)
  case 1
  then show ?thesis using u namespace_for_listed by simp
next
  case (2 es)
  have "we_uuid (unstamped w) = we_uuid w" for w by (cases w) (simp add: unstamped_def)
  then have uuids: "we_uuid ` set es = we_uuid ` set (map snd batch)"
    using arg_cong [OF 2(1), of "\<lambda>xs. we_uuid ` set xs"] by (simp add: image_image)
  have "sp_owner (fold sp_replay es (si_abs (fl_index st))) u \<noteq> None"
    using u arg_cong [OF wal_replay.replay_abs [OF wf, of es], of "\<lambda>s. sp_owner s u"]
    by (simp add: 2(2) namespace_for_def)
  from replay_owners [OF this] show ?thesis
    using namespace_for_listed [of "fl_index st" u] uuids by (auto simp: namespace_for_def)
qed

text \<open>The batch: written and acknowledged, or refused as a whole.\<close>

lemma fail_batch_refused: "list_all refused_reply (fail_batch batch err)"
  by (auto simp: fail_batch_def list_all_iff)

lemma all_ok_not_refused: "all_ok rs \<Longrightarrow> list_all (\<lambda>r. \<not> refused_reply r) rs"
  by (auto simp: all_ok_def list_all_iff)

lemma index_batch_replies:
  "list_all (\<lambda>r. \<not> rejected_by_index r) (fst (index_batch batch si n)) \<Longrightarrow> all_ok (fst (index_batch batch si n))"
proof (induction batch arbitrary: si n)
  case (Cons p batch)
  then show ?case
    by (cases p; cases "replay_entry (snd p) si"; cases "fst (replay_entry (snd p) si)")
      (auto simp: all_ok_def split_beta)
qed (simp add: all_ok_def)

lemma round_batch:
  assumes dur: "durable_under (covers U) de from_str cfg st" and codec: "json_codec to_vec from_str"
    and step: "flush_insert_batch to_vec out batch st = (rs, st')" and out: "out \<in> {WriteOk, WriteFail 0}"
    and idx: "list_all (\<lambda>r. \<not> rejected_by_index r) rs"
    and adm: "list_all we_finite (map snd batch)" "batch_fresh (map snd batch) (fl_index st)"
      "list_all (\<lambda>w. we_tombstone w \<or> we_uuid w \<notin> U) (map snd batch)"
    and ne: "batch \<noteq> []"
  shows "list_all refused_reply rs \<and> durable_under (covers U) de from_str cfg st' \<or>
    durable_under (covers (U - tomb_uuids (map snd batch))) de from_str cfg st'"
proof (cases "stamp_batch to_vec (map snd batch) (fl_wal st)")
  case (Pair r w')
  have mono: "w_sequence (fl_wal st) \<le> w_sequence w'"
    using stamp_batch_mono [of "fl_wal st" to_vec "map snd batch"] Pair by simp
  show ?thesis
  proof (cases r)
    case (Inl err)
    then have "rs = fail_batch batch err" "st' = st\<lparr> fl_wal := w' \<rparr>"
      using step ne Pair by (auto simp: flush_insert_batch_def)
    then show ?thesis using fail_batch_refused durable_refused [OF dur mono, of "fl_file st"] by simp
  next
    case (Inr p)
    then obtain es buf where r: "r = Inr (es, buf)" by (cases p) auto
    show ?thesis
    proof (cases "out = WriteOk")
      case True
      obtain rs' si' n' where "index_batch (zip (map fst batch) es) (fl_index st) (fl_since_compact st) = (rs', si', n')"
        by (metis prod_cases3)
      then have "all_ok rs"
        using flush_batch_step [OF _ ne, of to_vec st es buf w'] Pair r step True idx index_batch_replies
        by (metis fst_conv)
      then have "durable_under (covers (U - tomb_uuids (map snd batch))) de from_str cfg st'"
      proof (rule durable_batch [OF dur codec step [unfolded True] _ adm(2,1) _ ne])
        fix es s t
        assume e: "map unstamped es = map unstamped (map snd batch)" and "covers U s t" "batch_ok es s"
        then have "covers (U - tomb_uuids es) (fold sp_replay es s) (fold sp_replay es t)"
          using adm(3) by (intro covers_batch) (auto simp: unstamped_all [OF e])
        then show "covers (U - tomb_uuids (map snd batch)) (fold sp_replay es s) (fold sp_replay es t)"
          using tomb_uuids_unstamped [OF e] by simp
      qed
      then show ?thesis by blast
    next
      case False
      have "buf \<noteq> []" using stamped_buf_nonempty Pair r ne by blast
      then have "rs = fail_batch batch WriteFailed" "st' = st\<lparr> fl_wal := w', fl_file := Some (file_bytes (fl_file st)) \<rparr>"
        using False out step ne Pair r by (auto simp: flush_insert_batch_def write_batch_bytes_def write_and_sync_def)
      then show ?thesis
        using fail_batch_refused durable_refused [OF dur mono, of "Some (file_bytes (fl_file st))"] by simp
    qed
  qed
qed

section \<open>The rest of a round\<close>

lemma evict_wal:
  assumes "\<And>e. to_vec e \<noteq> None" and "w_sequence (fl_wal (evict_to_cap_step to_vec out n st)) \<noteq> - 1"
  shows "unat (w_sequence (fl_wal st)) + length (fst (evict_to_cap n (fl_index st))) < 2 ^ 64"
proof -
  obtain ev si1 where ev: "evict_to_cap n (fl_index st) = (ev, si1)" by fastforce
  obtain rb si2 where rb: "rebuild_dirty_namespaces si1 = (rb, si2)" by fastforce
  show ?thesis
  proof (cases "ev = []")
    case True
    then show ?thesis using ev unsigned_less [of "w_sequence (fl_wal st)", where ?'a = nat] by simp
  next
    case False
    let ?ts = "map (\<lambda>e. tombstone_entry (ee_uuid e) (ee_model_id e)) ev"
    obtain r w' where s: "stamp_batch to_vec ?ts (fl_wal st) = (r, w')" by fastforce
    have "fl_wal (evict_to_cap_step to_vec out n st) = w'"
      using ev rb False s by (auto simp: evict_to_cap_step_def Let_def split: sum.split prod.split)
    then have "\<not> isl r" using stamp_batch_exhausted [OF assms(1)] s assms(2) by (cases r) auto
    then obtain es buf where "stamp_batch to_vec ?ts (fl_wal st) = (Inr (es, buf), w')"
      using s by (cases r) auto
    from stamp_batch_Inr [OF this] have "unat (w_sequence w') = unat (w_sequence (fl_wal st)) + length ev" by simp
    then show ?thesis using ev unsigned_less [of "w_sequence w'", where ?'a = nat] by simp
  qed
qed

lemma compact_fields:
  "fl_wal (snd (snapshot_compact ser outs st)) = fl_wal st" "fl_index (snd (snapshot_compact ser outs st)) = fl_index st"
  by (simp_all add: snapshot_compact_def split_beta)

lemma note_compaction_fields [simp]:
  "fl_wal (note_compaction r st) = fl_wal st" "fl_file (note_compaction r st) = fl_file st"
  "fl_snap (note_compaction r st) = fl_snap st" "fl_index (note_compaction r st) = fl_index st"
  by (auto simp: note_compaction_def split: sum.split)

lemma durable_removed:
  assumes dur: "durable_under (covers U) de from_str cfg st" and "si_inv si'"
    and "si_abs si' = sp_drop P (si_abs (fl_index st))"
    and ps: "\<And>u. u \<in> V \<longleftrightarrow> (\<exists>m e. contents (fl_index st) m u = Some e \<and> P m u e)"
  shows "durable_under (covers (U \<union> V)) de from_str cfg (st\<lparr> fl_index := si' \<rparr>)"
proof (rule durable_index [OF dur assms(2)])
  have "sp_complete (si_abs (fl_index st))" using dur by (simp add: durable_under_def si_inv_def)
  then show "covers (U \<union> V) (si_abs si') t" if "covers U (si_abs (fl_index st)) t" for t
    unfolding assms(3) using covers_removed [OF that] ps by simp
qed

text \<open>
  An eviction whose tombstones were not written, because the counter is exhausted or the write failed
  before its first byte, leaves what it evicted unsettled.
\<close>

lemma evict_unwritten:
  assumes ev: "evict_to_cap n (fl_index st) = (ev, si1)" and rb: "rebuild_dirty_namespaces si1 = (rb, si2)"
    and "out = WriteFail 0 \<or>
      isl (fst (stamp_batch to_vec (map (\<lambda>e. tombstone_entry (ee_uuid e) (ee_model_id e)) ev) (fl_wal st)))"
    and st': "st' = evict_to_cap_step to_vec out n st"
  shows "fl_index st' = si2" "fl_snap st' = fl_snap st" "w_sequence (fl_wal st) \<le> w_sequence (fl_wal st')"
    "fl_file st' = fl_file st \<or> fl_file st' = Some (file_bytes (fl_file st))"
proof -
  let ?ts = "map (\<lambda>e. tombstone_entry (ee_uuid e) (ee_model_id e)) ev"
  obtain r w' where s: "stamp_batch to_vec ?ts (fl_wal st) = (r, w')" by fastforce
  have mono: "w_sequence (fl_wal st) \<le> w_sequence w'" using stamp_batch_mono [of "fl_wal st" to_vec ?ts] s by simp
  show "fl_index st' = si2" "fl_snap st' = fl_snap st" "w_sequence (fl_wal st) \<le> w_sequence (fl_wal st')"
    "fl_file st' = fl_file st \<or> fl_file st' = Some (file_bytes (fl_file st))"
    using ev rb s mono assms(3)
    by (auto simp: st' evict_to_cap_step_def Let_def write_batch_bytes_def write_and_sync_def split_beta split: sum.split)
qed

lemma round_evict:
  assumes dur: "durable_under (covers U) de from_str cfg st" and codec: "json_codec to_vec from_str"
    and tot: "\<And>e. to_vec e \<noteq> None" and out: "out \<in> {WriteOk, WriteFail 0}" and st': "st' = evict_to_cap_step to_vec out n st"
    and G: "U \<subseteq> G" "out = WriteOk \<and> w_sequence (fl_wal st') \<noteq> - 1 \<or>
      {u. namespace_for (fl_index st) u \<noteq> None \<and> namespace_for (fl_index st') u = None} \<subseteq> G"
  shows "durable_under (covers G) de from_str cfg st'"
proof (cases "out = WriteOk \<and> unat (w_sequence (fl_wal st)) + length (fst (evict_to_cap n (fl_index st))) < 2 ^ 64")
  case True
  then have "durable_under (covers U) de from_str cfg st'" unfolding st' using upto.keep_evict [OF dur codec tot] by simp
  then show ?thesis using G(1) by (rule durable_covers_mono)
next
  case False
  obtain ev si1 where ev: "evict_to_cap n (fl_index st) = (ev, si1)" by fastforce
  obtain rb si2 where rb: "rebuild_dirty_namespaces si1 = (rb, si2)" by fastforce
  let ?ts = "map (\<lambda>e. tombstone_entry (ee_uuid e) (ee_model_id e)) ev"
  have "isl (fst (stamp_batch to_vec ?ts (fl_wal st)))" if "out = WriteOk"
  proof (rule ccontr)
    assume "\<not> ?thesis"
    then obtain p w' where "stamp_batch to_vec ?ts (fl_wal st) = (Inr p, w')" by (metis isl_def sum.exhaust prod.collapse)
    then have "unat (w_sequence w') = unat (w_sequence (fl_wal st)) + length ev"
      using stamp_batch_Inr [of to_vec ?ts "fl_wal st"] by (cases p) auto
    then show False using False that ev unsigned_less [of "w_sequence w'", where ?'a = nat] by simp
  qed
  then have "out = WriteFail 0 \<or> isl (fst (stamp_batch to_vec ?ts (fl_wal st)))" using out by blast
  note N = evict_unwritten [OF ev rb this st']
  have inv: "si_inv (fl_index st)" using dur by (simp add: durable_under_def)
  note E = evicted_abs [OF inv ev rb]
  let ?P = "\<lambda>m u (_ :: cache_entry). u \<in> evicted_from n (fl_index st) m"
  let ?V = "{u. \<exists>m e. contents (fl_index st) m u = Some e \<and> ?P m u e}"
  have gone: "namespace_for (fl_index st) u \<noteq> None \<and> namespace_for si2 u = None" if u: "u \<in> ?V" for u
  proof -
    obtain m e where m: "contents (fl_index st) m u = Some e" "?P m u e" using u by blast
    then have "\<exists>m e. sp_content (si_abs (fl_index st)) m u = Some e \<and> ?P m u e" by auto
    then have "sp_owner (si_abs si2) u = None" unfolding E(2) by (simp add: sp_drop_def)
    then show ?thesis using si_inv_owner_iff [OF inv, of u m] m(1) by (simp add: namespace_for_def)
  qed
  have "{u. namespace_for (fl_index st) u \<noteq> None \<and> namespace_for (fl_index st') u = None} \<subseteq> G"
    using G(2) evict_wal [of to_vec out n st, OF tot] False st' by blast
  then have V: "U \<union> ?V \<subseteq> G" using G(1) gone N(1) by blast
  have "durable_under (covers (U \<union> ?V)) de from_str cfg (st\<lparr> fl_index := si2 \<rparr>)"
    by (rule durable_removed [OF dur E]) simp
  then have "durable_under (covers (U \<union> ?V)) de from_str cfg (st\<lparr> fl_index := si2, fl_wal := fl_wal st', fl_file := fl_file st' \<rparr>)"
    using durable_refused [of _ de from_str cfg "st\<lparr> fl_index := si2 \<rparr>" "fl_wal st'" "fl_file st'"] N(3,4) by simp
  then have "durable_under (covers (U \<union> ?V)) de from_str cfg st'"
    by (subst durable_under_fields [of _ "st\<lparr> fl_index := si2, fl_wal := fl_wal st', fl_file := fl_file st' \<rparr>"])
      (simp_all add: N(1,2))
  then show ?thesis using V by (rule durable_covers_mono)
qed

context recovery_relation
begin

lemma keep_auto_compact:
  assumes dur: "durable_under rel de from_str cfg st" and "bincode_codec ser de"
  shows "durable_under rel de from_str cfg (auto_compact ser outs n st)"
proof -
  have "durable_under rel de from_str cfg (st\<lparr> fl_since_compact := 0 \<rparr>)" using dur by (simp add: durable_under_def)
  from keep_compact [OF this assms(2), of outs] show ?thesis using dur
    by (auto simp: auto_compact_def split_beta durable_under_fields [of "note_compaction r s" s for r s])
qed

lemma keep_run_compact:
  assumes "durable_under rel de from_str cfg st" and "bincode_codec ser de"
  shows "durable_under rel de from_str cfg ((snd (run_compact ser outs rid st))\<lparr> fl_since_compact := 0 \<rparr>)"
  using keep_compact [OF assms, of outs]
  by (simp add: run_compact_def split_beta durable_under_def)

end

lemma round_wal:
  "fl_wal (auto_compact ser outs n st) = fl_wal st" "fl_wal (snd (run_compact ser outs rid st)) = fl_wal st"
  "fl_index (auto_compact ser outs n st) = fl_index st" "fl_index (snd (run_compact ser outs rid st)) = fl_index st"
  by (simp_all add: auto_compact_def run_compact_def split_beta compact_fields)

lemma collect_batch_cmds:
  "collect_batch cap batch avail = (batch', pending, rest) \<Longrightarrow>
     map (\<lambda>(rid, e). InsertCmd rid e) batch' @ (case pending of None \<Rightarrow> [] | Some rid \<Rightarrow> [CompactCmd rid]) @ rest =
     map (\<lambda>(rid, e). InsertCmd rid e) batch @ avail"
  by (induction cap batch avail rule: collect_batch.induct) (auto split: if_splits wal_command.splits)

lemma cmd_entries_inserts [simp]: "cmd_entries (map (\<lambda>(rid, e). InsertCmd rid e) batch) = map snd batch"
  by (induction batch) auto

lemma collect_batch_nonempty:
  "collect_batch cap batch avail = (batch', pending, rest) \<Longrightarrow> batch \<noteq> [] \<Longrightarrow> batch' \<noteq> []"
  by (induction cap batch avail rule: collect_batch.induct) (auto split: if_splits wal_command.splits)

lemma refused_append [simp]:
  "length cs = length rs \<Longrightarrow> refused (cs @ ds) (rs @ rs') = refused cs rs @ refused ds rs'"
  by (simp add: refused_def)

lemma refused_all: "length cs = length rs \<Longrightarrow> list_all refused_reply rs \<Longrightarrow> refused cs rs = cmd_entries cs"
  unfolding refused_def
proof (induction cs rs rule: list_induct2)
  case (Cons c cs r rs)
  then show ?case by (cases c) auto
qed simp

text \<open>
  A round settles the tombstones it acknowledges. What it takes from the channel is the batch and
  possibly a compaction, so the replies belong to the head of the channel.
\<close>

lemma round_taken:
  assumes "flush_round to_vec ser gc hcfg interval io (InsertCmd rid e) avail st = (rs, rest, st')"
  obtains batch pending rs1 rs2 st1 where
    "InsertCmd rid e # avail = map (\<lambda>(rid, e). InsertCmd rid e) batch @
       (case pending of None \<Rightarrow> [] | Some crid \<Rightarrow> [CompactCmd crid]) @ rest"
    "batch \<noteq> []" "flush_insert_batch to_vec (io_batch io) batch st = (rs1, st1)" "length rs1 = length batch"
    "rs = rs1 @ rs2" "length rs2 = (case pending of None \<Rightarrow> 0 | Some _ \<Rightarrow> 1)"
    "st' = (let st2 = (case max_entries_per_namespace hcfg of None \<Rightarrow> st1
                       | Some max_entries \<Rightarrow> evict_to_cap_step to_vec (io_tomb io) max_entries st1);
                st3 = auto_compact ser (io_auto io) interval st2
            in case pending of None \<Rightarrow> st3
               | Some crid \<Rightarrow> (snd (run_compact ser (io_compact io) crid st3))\<lparr> fl_since_compact := 0 \<rparr>)"
proof -
  obtain batch pending rest' where cb: "collect_batch (max (gc_batch_size gc) 1) [(rid, e)] avail = (batch, pending, rest')"
    by (metis prod_cases3)
  obtain rs1 st1 where b: "flush_insert_batch to_vec (io_batch io) batch st = (rs1, st1)" by fastforce
  have len: "length rs1 = length batch"
    using arg_cong [OF flush_insert_batch_ids [of to_vec "io_batch io" batch st], of length] b by simp
  note cmds = collect_batch_cmds [OF cb] and ne = collect_batch_nonempty [OF cb]
  show thesis
  proof (rule that [of batch pending rs1 st1 "drop (length rs1) rs"])
    show "InsertCmd rid e # avail = map (\<lambda>(rid, e). InsertCmd rid e) batch @
       (case pending of None \<Rightarrow> [] | Some crid \<Rightarrow> [CompactCmd crid]) @ rest"
      using assms cb b cmds by (auto simp: flush_round_def Let_def split_beta split: option.splits)
  qed (use assms cb b ne len in \<open>auto simp: flush_round_def run_compact_def Let_def split_beta split: option.splits\<close>)
qed

lemma round_settles:
  assumes dur: "durable_under (covers (tomb_uuids (cmd_entries (c # queue)) \<union> V)) de from_str cfg st"
    and codecs: "json_codec to_vec from_str" "bincode_codec ser de" "\<And>e. to_vec e \<noteq> None"
    and round: "flush_round to_vec ser gc hcfg interval io c (take k queue) st = (rs, rest, st')"
    and io: "io_batch io \<in> {WriteOk, WriteFail 0}" "io_tomb io \<in> {WriteOk, WriteFail 0}"
    and idx: "list_all (\<lambda>r. \<not> rejected_by_index r) rs"
    and fin: "list_all we_finite (cmd_entries (take (length rs) (c # queue)))"
    and fresh: "batch_fresh (cmd_entries (take (length rs) (c # queue))) (fl_index st)"
    and new: "list_all (\<lambda>w. we_tombstone w \<or> we_uuid w \<notin> tomb_uuids (cmd_entries (c # queue)) \<union> V)
      (cmd_entries (take (length rs) (c # queue)))"
  shows "durable_under (covers (tomb_uuids (cmd_entries (rest @ drop k queue)) \<union> V \<union> tomb_uuids (refused (c # queue) rs) \<union>
      (if io_tomb io = WriteOk \<and> w_sequence (fl_wal st') \<noteq> - 1 then {}
       else vanished (cmd_entries (take (length rs) (c # queue))) (fl_index st) (fl_index st'))))
    de from_str cfg st'"
proof (cases c)
  case (CompactCmd rid)
  have "durable_under (covers (tomb_uuids (cmd_entries queue) \<union> V)) de from_str cfg st'"
    using upto.keep_run_compact [OF dur codecs(2), of "io_compact io" rid] round CompactCmd by (auto simp: flush_round_def split_beta)
  moreover have "rest @ drop k queue = queue" using round CompactCmd by (auto simp: flush_round_def split_beta)
  ultimately show ?thesis by (elim durable_covers_mono) auto
next
  case (InsertCmd rid e)
  from round [unfolded InsertCmd] obtain batch pending rs1 rs2 st1 where
    cmds: "InsertCmd rid e # take k queue = map (\<lambda>(rid, e). InsertCmd rid e) batch @
       (case pending of None \<Rightarrow> [] | Some crid \<Rightarrow> [CompactCmd crid]) @ rest"
    and ne: "batch \<noteq> []" and b: "flush_insert_batch to_vec (io_batch io) batch st = (rs1, st1)"
    and len: "length rs1 = length batch" "length rs2 = (case pending of None \<Rightarrow> 0 | Some _ \<Rightarrow> 1)"
    and rs: "rs = rs1 @ rs2"
    and st': "st' = (let st2 = (case max_entries_per_namespace hcfg of None \<Rightarrow> st1
                       | Some max_entries \<Rightarrow> evict_to_cap_step to_vec (io_tomb io) max_entries st1);
                st3 = auto_compact ser (io_auto io) interval st2
            in case pending of None \<Rightarrow> st3
               | Some crid \<Rightarrow> (snd (run_compact ser (io_compact io) crid st3))\<lparr> fl_since_compact := 0 \<rparr>)"
    by (rule round_taken)
  have wf: "si_wf (fl_index st)" using dur by (simp add: durable_under_def si_inv_wf)
  let ?ins = "map (\<lambda>(rid, e). InsertCmd rid e) batch"
    and ?pend = "case pending of None \<Rightarrow> [] | Some crid \<Rightarrow> [CompactCmd crid]"
  let ?X = "if io_tomb io = WriteOk \<and> w_sequence (fl_wal st') \<noteq> - 1 then {}
    else vanished (cmd_entries (take (length rs) (c # queue))) (fl_index st) (fl_index st')"
  define G where "G = tomb_uuids (cmd_entries (rest @ drop k queue)) \<union> V \<union> tomb_uuids (refused (c # queue) rs) \<union> ?X"
  have q: "c # queue = ?ins @ ?pend @ rest @ drop k queue"
    using arg_cong [OF cmds, of "\<lambda>xs. xs @ drop k queue"] InsertCmd by simp
  have pend: "cmd_entries ?pend = []" "length ?pend = length rs2" using len(2) by (auto split: option.splits)
  have taken: "cmd_entries (take (length rs) (c # queue)) = map snd batch"
    using len(1) pend by (simp add: q rs)
  have ref: "tomb_uuids (refused ?ins rs1) \<subseteq> G" unfolding G_def q rs using len(1) by auto
  have "durable_under (covers G) de from_str cfg st1"
    using round_batch [OF dur codecs(1) b io(1) _ fin [unfolded taken] fresh [unfolded taken] new [unfolded taken] ne]
  proof
    show "list_all (\<lambda>r. \<not> rejected_by_index r) rs1" using idx rs by simp
  next
    assume "list_all refused_reply rs1 \<and> durable_under (covers (tomb_uuids (cmd_entries (c # queue)) \<union> V)) de from_str cfg st1"
    moreover from this have "tomb_uuids (map snd batch) \<subseteq> G" using refused_all [of ?ins rs1] len(1) ref by simp
    ultimately show ?thesis using pend by (elim conjE durable_covers_mono) (auto simp: q G_def)
  next
    assume "durable_under (covers (tomb_uuids (cmd_entries (c # queue)) \<union> V - tomb_uuids (map snd batch))) de from_str cfg st1"
    then show ?thesis by (rule durable_covers_mono) (use pend in \<open>auto simp: q G_def\<close>)
  qed
  then have "durable_under (covers G) de from_str cfg (case max_entries_per_namespace hcfg of None \<Rightarrow> st1
      | Some max_entries \<Rightarrow> evict_to_cap_step to_vec (io_tomb io) max_entries st1)"
  proof (cases "max_entries_per_namespace hcfg")
    case (Some max_entries)
    let ?st2 = "evict_to_cap_step to_vec (io_tomb io) max_entries st1"
    have st2: "fl_wal st' = fl_wal ?st2" "fl_index st' = fl_index ?st2"
      using Some by (simp_all add: st' round_wal Let_def split: option.split)
    have "{u. namespace_for (fl_index st1) u \<noteq> None \<and> namespace_for (fl_index ?st2) u = None} \<subseteq>
        vanished (map snd batch) (fl_index st) (fl_index st')"
      using flush_batch_owners [OF b wf] st2(2) by (auto simp: vanished_def image_image)
    then have "io_tomb io = WriteOk \<and> w_sequence (fl_wal ?st2) \<noteq> - 1 \<or>
        {u. namespace_for (fl_index st1) u \<noteq> None \<and> namespace_for (fl_index ?st2) u = None} \<subseteq> G"
      using st2(1) taken by (auto simp: G_def)
    from round_evict [OF \<open>durable_under (covers G) de from_str cfg st1\<close> codecs(1,3) io(2) refl order_refl this]
    show ?thesis using Some by simp
  qed simp
  from upto.keep_auto_compact [OF this codecs(2)] upto.keep_run_compact [OF upto.keep_auto_compact [OF this codecs(2)] codecs(2)]
  have "durable_under (covers G) de from_str cfg st'" by (auto simp: st' Let_def split: option.split)
  then show ?thesis by (simp only: G_def)
qed

section \<open>Every interleaving keeps the disk covering the index\<close>

lemma tomb_uuids_tombstones [simp]:
  "tomb_uuids (map (\<lambda>(u, m). tombstone_entry u m) ps) = fst ` set ps"
  "tomb_uuids (map (\<lambda>u. tombstone_entry u m) us) = set us"
  by (force simp: tomb_uuids_def tombstone_entry_def image_iff split_beta)+

definition task_inv :: "(u8 list \<Rightarrow> snapshot_entry list option) \<Rightarrow> (string \<Rightarrow> wal_entry option) \<Rightarrow> hnsw_config \<Rightarrow>
   channel_node \<Rightarrow> bool" where
  "task_inv de from_str cfg n \<longleftrightarrow> durable_under (covers (unsettled n)) de from_str cfg (cn_flush n)"

lemma task_restarted:
  assumes dur: "durable_under (covers U) de from_str cfg st"
    and start: "startup de from_str cfg now True (fl_snap st) (fl_file st) = (Inr (st1, ts), f')"
  shows "durable_under (covers (tomb_uuids ts)) de from_str cfg st1"
proof -
  obtain si n where rec: "recover de from_str cfg (fl_snap st) (fl_file st) = Inr (si, n)"
    and cov: "covers U (si_abs (fl_index st)) (si_abs si)"
    using dur by (auto simp: durable_under_def)
  have cov': "sp_sound (si_abs si)" "sp_complete (si_abs si)" using cov by (auto simp: covers_def)
  then have inv: "si_inv si" using recover_wf [OF rec] by (simp add: si_inv_def)
  have "covers {} (si_abs si) (si_abs si)" using upto.rel_recovers [OF recovers_refl cov'] .
  then have dur': "durable_under (covers {}) de from_str cfg (reopened n si st)"
    by (rule durable_reopened [OF dur rec inv, of "covers {}"])
  obtain ps si' where st1: "st1 = (reopened n si st)\<lparr> fl_index := si' \<rparr>" "ts = map (\<lambda>(u, m). tombstone_entry u m) ps"
    and S: "si_inv si'" "si_abs si' = sp_drop (\<lambda>_ _. expired now) (si_abs si)"
      "\<And>u. u \<in> fst ` set ps \<longleftrightarrow> (\<exists>m e. contents si m u = Some e \<and> expired now e)"
    by (rule startup_expired [OF start rec inv]) blast
  have "durable_under (covers ({} \<union> fst ` set ps)) de from_str cfg ((reopened n si st)\<lparr> fl_index := si' \<rparr>)"
    by (rule durable_removed [OF dur' S(1)]) (use S(2,3) in simp_all)
  then show ?thesis using st1 by simp
qed

lemma task_invariant:
  assumes codecs: "json_codec to_vec from_str" "bincode_codec ser de" "\<And>e. to_vec e \<noteq> None"
  shows "step_invariant (\<lambda>n. n = idle_node cfg) (task_step de from_str cfg to_vec ser gc interval) (task_inv de from_str cfg)"
proof unfold_locales
  show "task_inv de from_str cfg n" if "n = idle_node cfg" for n
    using blank_durable_under [of "covers {}" cfg de from_str] upto.rel_recovers [OF recovers_refl] si_inv_new [of cfg] that
    by (simp add: task_inv_def idle_node_def spawn_def unsettled_def si_inv_def si_wf_def)
next
  fix n n'
  assume step: "task_step de from_str cfg to_vec ser gc interval n n'" and "task_inv de from_str cfg n"
  then have dur: "durable_under (covers (unsettled n)) de from_str cfg (cn_flush n)" by (simp add: task_inv_def)
  have inv: "si_inv (fl_index (cn_flush n))" using dur by (simp add: durable_under_def)
  note st = si_wf_struct [OF si_inv_wf [OF inv]]
  from step show "task_inv de from_str cfg n'"
  proof cases
    case (task_insert e)
    then show ?thesis using dur by (simp add: task_inv_def unsettled_def)
  next
    case (task_delete u m)
    let ?V = "{v. \<exists>k e. contents (fl_index (cn_flush n)) k v = Some e \<and> v = u}"
    have "durable_under (covers (unsettled n \<union> ?V)) de from_str cfg
        ((cn_flush n)\<lparr> fl_index := snd (si_remove_by_uuid u (fl_index (cn_flush n))) \<rparr>)"
      by (rule durable_removed [OF dur si_inv_remove [OF inv] removed_abs [OF inv]]) auto
    moreover have "unsettled n' = insert u (unsettled n)"
      using task_delete by (simp add: unsettled_def tombstone_entry_def)
    ultimately show ?thesis using task_delete by (auto simp: task_inv_def elim: durable_covers_mono)
  next
    case (task_invalidate emb th m now removed si)
    have "durable_under (covers (unsettled n \<union> set removed)) de from_str cfg ((cn_flush n)\<lparr> fl_index := si \<rparr>)"
      by (rule durable_removed [OF dur invalidated [OF inv task_invalidate(2)]])
    moreover have "unsettled n' = unsettled n \<union> set removed"
      using task_invalidate by (auto simp: unsettled_def)
    ultimately show ?thesis using task_invalidate by (simp add: task_inv_def)
  next
    case (task_reap now exp_pairs si)
    have "durable_under (covers (unsettled n \<union> fst ` set exp_pairs)) de from_str cfg ((cn_flush n)\<lparr> fl_index := si \<rparr>)"
      by (rule durable_removed [OF dur reaper_abs [OF inv task_reap(2)]])
    moreover have "unsettled n' = unsettled n \<union> fst ` set exp_pairs"
      using task_reap by (auto simp: unsettled_def reaper_tombstones_def)
    ultimately show ?thesis using task_reap by (simp add: task_inv_def)
  next
    case (task_access now m i)
    then show ?thesis using upto.keep_access [OF dur] by (simp add: task_inv_def unsettled_def)
  next
    case (task_rehash si)
    then show ?thesis using upto.keep_rehash [OF dur] by (simp add: task_inv_def unsettled_def)
  next
    case (task_send xs e ys rid)
    then have "unsettled n' = unsettled n" by (auto simp: unsettled_def)
    then show ?thesis using dur task_send by (simp add: task_inv_def)
  next
    case (task_request_compact rid)
    then show ?thesis using dur by (simp add: task_inv_def unsettled_def)
  next
    case (task_give_up xs e ys)
    then have "unsettled n' = unsettled n" by (auto simp: unsettled_def)
    then show ?thesis using dur task_give_up by (simp add: task_inv_def)
  next
    case (task_round c queue io k rs rest st ws)
    let ?V = "tomb_uuids (cn_waiting n) \<union> cn_lost n"
    have U: "unsettled n = tomb_uuids (cmd_entries (c # queue)) \<union> ?V" using task_round by (simp add: unsettled_def Un_assoc)
    let ?X = "if io_tomb io = WriteOk \<and> w_sequence (fl_wal st) \<noteq> - 1 then {}
      else vanished (cmd_entries (take (length rs) (c # queue))) (fl_index (cn_flush n)) (fl_index st)"
    note adm = task_round(8) [unfolded batch_admissible_def U task_round(2,7)]
    have "durable_under (covers (tomb_uuids (cmd_entries (rest @ drop k queue)) \<union> ?V \<union> tomb_uuids (refused (c # queue) rs) \<union> ?X))
        de from_str cfg st"
      by (rule round_settles [OF dur [unfolded U] codecs task_round(3-6)]) (use adm in auto)
    moreover have "unsettled n' = tomb_uuids (cmd_entries (rest @ drop k queue)) \<union> ?V \<union> tomb_uuids (refused (c # queue) rs) \<union> ?X"
      using task_round by (auto simp: unsettled_def)
    ultimately show ?thesis using task_round by (simp add: task_inv_def)
  next
    case (task_restart now st ts f)
    then show ?thesis using task_restarted [OF dur task_restart(2)] by (simp add: task_inv_def unsettled_def spawn_def)
  qed
qed

lemma task_inv_recovers:
  assumes "task_inv de from_str cfg n"
  obtains si k where "recover de from_str cfg (fl_snap (cn_flush n)) (fl_file (cn_flush n)) = Inr (si, k)"
    "\<forall>m u e. contents (fl_index (cn_flush n)) m u = Some e \<longrightarrow> (\<exists>e'. contents si m u = Some e' \<and> core e' = core e)"
    "\<forall>m u. contents si m u \<noteq> None \<and> contents (fl_index (cn_flush n)) m u = None \<longrightarrow> u \<in> unsettled n"
    "\<forall>u. u \<notin> unsettled n \<longrightarrow> namespace_for si u = namespace_for (fl_index (cn_flush n)) u"
proof -
  obtain si k where rec: "recover de from_str cfg (fl_snap (cn_flush n)) (fl_file (cn_flush n)) = Inr (si, k)"
    and cov: "covers (unsettled n) (si_abs (fl_index (cn_flush n))) (si_abs si)"
    using assms unfolding task_inv_def durable_under_def by blast
  from cov obtain Q where Q: "Q \<subseteq> unsettled n" "recovers (si_abs (fl_index (cn_flush n))) (drop_uuids Q (si_abs si))"
    by (rule coversE)
  show thesis
  proof (rule that [OF rec])
    show "\<forall>m u e. contents (fl_index (cn_flush n)) m u = Some e \<longrightarrow> (\<exists>e'. contents si m u = Some e' \<and> core e' = core e)"
    proof (intro allI impI)
      fix m u e
      assume "contents (fl_index (cn_flush n)) m u = Some e"
      then have "sp_content (si_abs (fl_index (cn_flush n))) m u = Some e" by simp
      then obtain e' where "sp_content (drop_uuids Q (si_abs si)) m u = Some e'" "core e' = core e"
        by (rule recovers_Some [OF Q(2)])
      then show "\<exists>e'. contents si m u = Some e' \<and> core e' = core e" by (auto split: if_splits)
    qed
    show "\<forall>m u. contents si m u \<noteq> None \<and> contents (fl_index (cn_flush n)) m u = None \<longrightarrow> u \<in> unsettled n"
    proof (intro allI impI)
      fix m u
      assume "contents si m u \<noteq> None \<and> contents (fl_index (cn_flush n)) m u = None"
      then have "u \<in> Q" using recoversD(4) [OF Q(2), of m u] by (auto split: if_splits)
      then show "u \<in> unsettled n" using Q(1) by blast
    qed
    have "sp_owner (si_abs si) u = sp_owner (si_abs (fl_index (cn_flush n))) u" if "u \<notin> Q" for u
      using arg_cong [OF recoversD(2) [OF Q(2)], of "\<lambda>f. f u"] that by (simp add: drop_uuids_def sp_drop_def)
    then show "\<forall>u. u \<notin> unsettled n \<longrightarrow> namespace_for si u = namespace_for (fl_index (cn_flush n)) u"
      using Q(1) by (auto simp: namespace_for_def)
  qed
qed

end
