(* ===== verification/Durability_Properties.thy ===== *)
theory Durability_Properties
  imports Interleaving Samples
begin

text \<open>
  What the write-ahead log, the snapshots and the flush task promise together. The codecs of the log
  and of the snapshot are parameters with the laws \<open>json_codec\<close> and \<open>bincode_codec\<close>; the witnesses
  use the concrete ones of \<open>Wal\<close> and \<open>Snapshot\<close>.
\<close>

section \<open>A node with one entry\<close>

definition log_a :: wal_entry where
  "log_a = \<lparr> we_uuid = ''u1'', we_embedding = [f32_one], we_response = ''hi'', we_query_text = ''Hello'',
     we_model_id = ''m'', we_sequence = 0, we_inserted_at = 5, we_tombstone = False, we_expires_at = None \<rparr>"

definition log_line :: string where
  "log_line = the (line_to_vec (log_a\<lparr> we_sequence := 1 \<rparr>))"

definition node_one :: flush_state where
  "node_one = (blank_node cfg0)\<lparr> fl_wal := \<lparr> w_sequence = 1 \<rparr>, fl_file := Some (log_line @ [CHR 0x0A]),
     fl_index := si_a, fl_since_compact := 1 \<rparr>"

lemma line_total: "line_to_vec e \<noteq> None"
  by (simp add: line_to_vec_def)

lemma log_line_eq: "line_to_vec (log_a\<lparr> we_sequence := 1 \<rparr>) = Some log_line"
  using line_total by (simp add: log_line_def)

lemma log_a_finite: "we_finite log_a" "we_finite (log_a\<lparr> we_sequence := 1 \<rparr>)"
  by (simp_all add: we_finite_def log_a_def f32_finite_def f32_one_def)

lemma stamp_one: "stamp_batch line_to_vec [log_a] \<lparr> w_sequence = 0 \<rparr> =
    (Inr ([log_a\<lparr> we_sequence := 1 \<rparr>], log_line @ [CHR 0x0A]), \<lparr> w_sequence = 1 \<rparr>)"
  by (simp add: next_sequence_def checked_add_def log_line_eq)

lemma replay_one: "replay_entry (log_a\<lparr> we_sequence := 1 \<rparr>) (si_new cfg0) = (Inr (), si_a)"
proof -
  have w: "wal_to_cache (log_a\<lparr> we_sequence := 1 \<rparr>) = entry_a"
    by (simp add: wal_to_cache_def log_a_def entry_a_def)
  have "fst (insert_into ''m'' entry_a (si_new cfg0)) = Inr ()" by (simp add: si_evals)
  then have "insert_into ''m'' entry_a (si_new cfg0) = (Inr (), si_a)" by (simp add: si_a_def prod_eq_iff)
  with w show ?thesis by (simp add: replay_entry_def) (simp add: log_a_def)
qed

lemma replay_log_one: "wal_replay line_from_str (Some (log_line @ [CHR 0x0A])) = Inr [log_a\<lparr> we_sequence := 1 \<rparr>]"
  using append_batch_replay(1) [OF line_codec stamp_one, of None "[]"] log_a_finite
  by (simp add: file_bytes_def clean_def wal_replay_def)

lemma flush_one:
  "flush_insert_batch line_to_vec WriteOk [(7, log_a)] (blank_node cfg0) = ([InsertReply 7 (Inr 1)], node_one)"
proof -
  have "saturating_add 0 1 = (1 :: u64)" by (simp add: saturating_add_def)
  then have "index_batch [(7, log_a\<lparr> we_sequence := 1 \<rparr>)] (si_new cfg0) 0 = ([InsertReply 7 (Inr 1)], si_a, 1)"
    by (simp add: replay_one)
  then show ?thesis
    using flush_batch_step [of line_to_vec "[(7, log_a)]" "blank_node cfg0"] stamp_one
    by (simp add: blank_node_def node_one_def file_bytes_def del: stamp_batch.simps)
qed

lemma recover_one: "recover plain_de line_from_str cfg0 (fl_snap node_one) (fl_file node_one) = Inr (si_a, 1)"
  by (simp add: recover_def load_snapshot_def replay_log_one replay_one node_one_def blank_node_def) (simp add: log_a_def)

lemma torn_line: "utf8_valid (CHR '','' # log_line)" "line_from_str (CHR '','' # log_line) = None"
proof -
  have "utf8_valid log_line" using codec_line(2) [OF line_codec log_line_eq] .
  then show "utf8_valid (CHR '','' # log_line)"
    by (subst utf8_valid.simps) (simp add: utf8_len_def byte_val_def)
  have line: "log_line = concat (map (\<lambda>f. enc_str f @ [CHR 0x2C]) (field_list (log_a\<lparr> we_sequence := 1 \<rparr>)))"
    by (simp add: log_line_def line_to_vec_def)
  have "split_fields [] log_line = map enc_str (field_list (log_a\<lparr> we_sequence := 1 \<rparr>))"
    unfolding line by (rule split_fields_concat)
  then show "line_from_str (CHR '','' # log_line) = None"
    by (simp add: line_from_str_def field_list_def)
qed

lemma reachable_one:
  "reachable (\<lambda>st. st = blank_node cfg0) (life_step plain_de line_from_str cfg0 line_to_vec plain_ser) node_one"
proof (rule reachable_step [OF reachable_init])
  show "life_step plain_de line_from_str cfg0 line_to_vec plain_ser (blank_node cfg0) node_one"
    by (rule life_run [OF node_batch [OF flush_one]])
      (simp_all add: all_ok_def blank_node_def log_a_finite)
qed simp

definition io_ok :: flush_io where
  "io_ok = \<lparr> io_batch = WriteOk, io_tomb = WriteOk, io_auto = (SnapOk, TruncOk), io_compact = (SnapOk, TruncOk) \<rparr>"

lemma flush_log_a:
  "flush_round line_to_vec plain_ser default_group_commit_config cfg0 0 io_ok (InsertCmd 7 log_a) [] (blank_node cfg0) =
    ([InsertReply 7 (Inr 1)], [], node_one)"
  using flush_one by (simp add: flush_round_def io_ok_def auto_compact_def cfg0_def default_hnsw_config_def)

abbreviation sample_task_step :: "channel_node \<Rightarrow> channel_node \<Rightarrow> bool" where
  "sample_task_step \<equiv> task_step plain_de line_from_str cfg0 line_to_vec plain_ser default_group_commit_config 0"

definition node_flushed :: channel_node where
  "node_flushed = spawn node_one"

text \<open>The same node after a deletion whose tombstone has not been sent yet.\<close>

definition node_deleting :: channel_node where
  "node_deleting = \<lparr> cn_flush = node_one\<lparr> fl_index := snd (si_remove_by_uuid ''u1'' si_a) \<rparr>, cn_channel = [],
     cn_waiting = [tombstone_entry ''u1'' ''m''], cn_lost = {} \<rparr>"

lemma reachable_flushed: "reachable (\<lambda>n. n = idle_node cfg0) sample_task_step node_flushed"
proof -
  let ?n1 = "(idle_node cfg0)\<lparr> cn_waiting := [log_a] \<rparr>"
  let ?n2 = "(idle_node cfg0)\<lparr> cn_channel := [InsertCmd 7 log_a] \<rparr>"
  have 1: "sample_task_step (idle_node cfg0) ?n1" using task_insert [of log_a _ _ _ _ _ _ _ "idle_node cfg0"]
    by (simp add: idle_node_def spawn_def log_a_def)
  have 2: "sample_task_step ?n1 ?n2"
    using task_send [of ?n1 "[]" log_a "[]" default_group_commit_config _ _ _ _ _ _ 7]
    by (simp add: idle_node_def spawn_def capacity_def)
  have "sample_task_step ?n2 (?n2\<lparr> cn_flush := node_one, cn_channel := [] @ drop 0 [],
      cn_lost := cn_lost ?n2 \<union> tomb_uuids (refused (cn_channel ?n2) [InsertReply 7 (Inr 1)]) \<union>
        (if io_tomb io_ok = WriteOk \<and> w_sequence (fl_wal node_one) \<noteq> - 1 then {}
         else vanished [log_a] (fl_index (cn_flush ?n2)) (fl_index node_one)) \<rparr>)"
    by (rule task_round [where io = io_ok and k = 0 and queue = "[]" and c = "InsertCmd 7 log_a"])
      (use flush_log_a log_a_finite in \<open>simp_all add: idle_node_def spawn_def io_ok_def batch_admissible_def unsettled_def
        node_one_def blank_node_def\<close>)
  then have 3: "sample_task_step ?n2 node_flushed" 
    by (simp add: refused_def idle_node_def spawn_def node_flushed_def io_ok_def node_one_def)
  have "reachable (\<lambda>n. n = idle_node cfg0) sample_task_step (idle_node cfg0)" by (rule reachable_init) simp
  from this 1 2 3 show ?thesis by (rule reachable_step [OF reachable_step [OF reachable_step]])
qed

lemma reachable_deleting: "reachable (\<lambda>n. n = idle_node cfg0) sample_task_step node_deleting"
proof -
  have "sample_task_step node_flushed node_deleting"
    using task_delete [of _ _ _ _ _ _ _ node_flushed "''u1''" "''m''"]
    by (simp add: node_flushed_def spawn_def node_deleting_def node_one_def)
  with reachable_flushed show ?thesis by (rule reachable_step)
qed

section \<open>Durability\<close>



text \<open>Whatever a node did since it first started on an empty disk, over any number of runs and restarts
  (batches in which every entry was acknowledged, their UUIDs not taken by another namespace and
  their embeddings finite; accesses, evictions, deletions, invalidations, expiry passes that prune
  no conversation namespace, compactions that succeed or fail at any point), the next restart succeeds
  and recovers the cache it had: the same entries in the same namespaces, up to the access metadata
  the log does not carry, and the same owners.\<close>

lemma restart_recovers:
  assumes "json_codec to_vec from_str" and "bincode_codec ser de"
    and "reachable (\<lambda>st. st = blank_node cfg) (life_step de from_str cfg to_vec ser) st"
  shows "\<exists>si n. recover de from_str cfg (fl_snap st) (fl_file st) = Inr (si, n) \<and>
    (\<forall>m u. map_option core (contents si m u) = map_option core (contents (fl_index st) m u)) \<and>
    namespace_for si = namespace_for (fl_index st)"
proof -
  have "durable de from_str cfg st"
    using step_invariant.reachable_inv [OF durable_life [OF assms(1,2)] assms(3)] .
  then show ?thesis by (rule durable_recovers) blast
qed



text \<open>C14. Sequence numbers are never reused across a restart: every number the restarted log hands out is
  above everything on disk, log lines and snapshot watermark alike, so no later startup skips it.\<close>

theorem restart_sequence_fresh:
  assumes start: "startup de from_str cfg now True d f = (Inr (st, tombs), f')"
    and log: "wal_replay from_str f = Inr old"
    and stamp: "stamp_batch to_vec es (fl_wal st) = (Inr (es', buf), w')" and "e \<in> set es'"
  shows "(\<forall>e0 \<in> set old. we_sequence e0 < we_sequence e) \<and>
    (\<forall>wm. snd (load_snapshot de cfg d) = Some wm \<longrightarrow> wm < we_sequence e)"
proof -
  obtain si n where rec: "recover de from_str cfg d f = Inr (si, n)" and w: "w_sequence (fl_wal st) = n"
    using start by (auto simp: startup_def open_with_sequence_def split: sum.splits prod.splits)
  have "n < we_sequence e" using stamped_sequences(1) [OF stamp assms(4)] w by simp
  then show ?thesis using recover_bound [OF rec log] by (meson le_less_trans)
qed

theorem restart_sequence_fresh_witness:
  "wal_replay line_from_str (fl_file node_one) = Inr [log_a\<lparr> we_sequence := 1 \<rparr>] \<and>
   we_sequence (log_a\<lparr> we_sequence := 1 \<rparr>) < we_sequence (log_a\<lparr> we_sequence := 2 \<rparr>)"
proof -
  let ?log = "Some (log_line @ [CHR 0x0A])" and ?disk = "\<lparr> sd_snap = None, sd_tmp = None \<rparr>"
  have rec: "recover plain_de line_from_str cfg0 ?disk ?log = Inr (si_a, 1)"
    by (simp add: recover_def load_snapshot_def replay_log_one replay_one) (simp add: log_a_def)
  obtain ex si' where "collect_expired 0 si_a = (ex, si')" by fastforce
  with rec have start: "startup plain_de line_from_str cfg0 0 True ?disk ?log =
      (Inr (\<lparr> fl_wal = \<lparr> w_sequence = 1 \<rparr>, fl_file = ?log, fl_snap = ?disk, fl_index = si', fl_metrics = metrics_new,
              fl_since_compact = 0 \<rparr>, reaper_tombstones ex), ?log)"
    by (simp add: startup_def open_with_sequence_def file_bytes_def)
  obtain buf where "stamp_batch line_to_vec [log_a] \<lparr> w_sequence = 1 \<rparr> = (Inr ([log_a\<lparr> we_sequence := 2 \<rparr>], buf), \<lparr> w_sequence = 2 \<rparr>)"
    using line_total [of "log_a\<lparr> we_sequence := 2 \<rparr>"] by (auto simp: next_sequence_def checked_add_def)
  then show ?thesis
    using restart_sequence_fresh [OF start replay_log_one, of line_to_vec "[log_a]"] replay_log_one
    by (simp add: node_one_def del: stamp_batch.simps)
qed

section \<open>The log\<close>

text \<open>Stamping a batch gives its entries consecutive sequence numbers, starting one above the
  counter, changes nothing else of them, and leaves the counter at the last one. It succeeds whenever
  the entries serialise and the counter does not overflow.\<close>

lemma stamp_batch_consecutive:
  assumes "\<And>e. to_vec e \<noteq> None" and "unat (w_sequence w) + length es < 2 ^ 64"
  shows "\<exists>es' buf w'. stamp_batch to_vec es w = (Inr (es', buf), w') \<and>
    map unstamped es' = map unstamped es \<and>
    map (unat \<circ> we_sequence) es' = [Suc (unat (w_sequence w))..<Suc (unat (w_sequence w) + length es)] \<and>
    unat (w_sequence w') = unat (w_sequence w) + length es"
proof -
  obtain es' buf w' where stamp: "stamp_batch to_vec es w = (Inr (es', buf), w')"
    using stamp_batch_total [of to_vec w es, OF assms] by blast
  have "map unstamped es' = map unstamped es \<and>
      map (unat \<circ> we_sequence) es' = [Suc (unat (w_sequence w))..<Suc (unat (w_sequence w) + length es)] \<and>
      unat (w_sequence w') = unat (w_sequence w) + length es"
    using stamp_batch_Inr [OF stamp] by blast
  with stamp show ?thesis by blast
qed

text \<open>Writing a batch and replaying the file gives back the entries that were in it before and then
  the batch, provided the file ended in a complete line and the embeddings are finite.\<close>

lemma log_roundtrip:
  assumes "json_codec to_vec from_str" and "stamp_batch to_vec es w = (Inr (es', buf), w')"
    and "list_all we_finite es" and "clean (file_bytes f)" and "wal_replay from_str f = Inr old"
  shows "wal_replay from_str (snd (write_batch_bytes WriteOk buf f)) = Inr (old @ es')"
  using append_batch_replay(1) [OF assms] assms(5) stamp_batch_Inr [OF assms(2)]
  by (cases "buf = []") (auto simp: write_ok)



section \<open>Snapshots and compaction\<close>

text \<open>A snapshot that was written reads back as the entries and the watermark it was written with,
  through its little-endian header.\<close>

lemma snapshot_roundtrip:
  assumes "bincode_codec ser de" and "write_snapshot ser out es seq d = (Inr u, d')"
  shows "read_snapshot de (sd_snap d') = Inr (es, seq)"
  using snapshot_write_read [OF assms] .

text \<open>C13. Compaction is safe against a crash or an error at any point: the snapshot file and the log are
  either both untouched, or the snapshot is the complete new one and the log is the old one or
  empty. The log is never truncated while the old snapshot is in place.\<close>

theorem compact_crash_safe:
  assumes "bincode_codec ser de" and "compact ser so tro si w d f = (r, d', f')"
  shows "(sd_snap d' = sd_snap d \<and> f' = f \<and> isl r) \<or>
    (read_snapshot de (sd_snap d') = Inr (snapshot_entries si, w_sequence w) \<and> f' \<in> {f, Some []} \<and>
     (r \<noteq> Inr \<lparr> cr_entries_snapshotted = length (snapshot_entries si), cr_wal_sequence = w_sequence w \<rparr> \<longrightarrow> isl r) \<and>
     (\<not> isl r \<longrightarrow> f' = Some []))"
proof (rule compact_cases [OF assms(2)])
  fix body
  assume b: "ser (snapshot_entries si) = Some body" "f' = f \<or> f' = Some []" "isl r \<or> f' = Some []"
    and d': "sd_snap d' = Some (snapshot_bytes (w_sequence w) (length (snapshot_entries si)) body)"
  have "de body = Some (snapshot_entries si)" using assms(1) b(1) by (simp add: bincode_codec_def)
  then have "read_snapshot de (sd_snap d') = Inr (snapshot_entries si, w_sequence w)"
    by (simp add: d' read_snapshot_bytes)
  moreover have "isl r \<or> r = Inr \<lparr> cr_entries_snapshotted = length (snapshot_entries si), cr_wal_sequence = w_sequence w \<rparr>"
    using assms(2) by (auto simp: compact_def current_sequence_def Let_def split: prod.splits sum.splits)
  ultimately show ?thesis using b by blast
qed auto

theorem compact_crash_safe_witness:
  "let (r, d', f') = compact plain_ser SnapOk TruncOpenFail si_a \<lparr> w_sequence = 1 \<rparr> (fl_snap node_one) (fl_file node_one)
   in isl r \<and> f' = fl_file node_one \<and> read_snapshot plain_de (sd_snap d') = Inr (snapshot_entries si_a, 1)"
proof -
  obtain r d' f' where c: "compact plain_ser SnapOk TruncOpenFail si_a \<lparr> w_sequence = 1 \<rparr> (fl_snap node_one) (fl_file node_one) = (r, d', f')"
    by (metis prod_cases3)
  then have "isl r \<and> f' = fl_file node_one \<and> sd_snap d' \<noteq> sd_snap (fl_snap node_one)"
    by (auto simp: compact_def write_snapshot_def wal_truncate_def plain_ser_def node_one_def blank_node_def Let_def)
  with compact_crash_safe [OF plain_codec c] show ?thesis by (auto simp: c)
qed

section \<open>Entries the index rejects\<close>

text \<open>What a written batch adds to what a restart recovers.\<close>

lemma recover_stamped:
  assumes dur: "durable_under rel de from_str cfg st" and codec: "json_codec to_vec from_str"
    and stamp: "stamp_batch to_vec es (fl_wal st) = (Inr (es', buf), w')" and fin: "list_all we_finite es"
    and rec: "recover de from_str cfg (fl_snap st) (fl_file st) = Inr (si, n)"
  shows "\<exists>k. recover de from_str cfg (fl_snap st) (Some (file_bytes (fl_file st) @ buf)) =
    Inr (fold (\<lambda>w. snd \<circ> replay_entry w) es' si, k)"
proof -
  from dur obtain old where old: "wal_replay from_str (fl_file st) = Inr old" and cl: "clean (file_bytes (fl_file st))"
    and wm: "\<And>wm. snd (load_snapshot de cfg (fl_snap st)) = Some wm \<Longrightarrow> wm \<le> w_sequence (fl_wal st)"
    by (auto simp: durable_def)
  show ?thesis
  proof (rule recover_append [OF rec old append_batch_replay(1) [OF codec stamp fin cl old]])
    fix wm e
    assume "snd (load_snapshot de cfg (fl_snap st)) = Some wm" "e \<in> set es'"
    then show "wm < we_sequence e" using wm stamped_sequences(1) [OF stamp] by (metis le_less_trans)
  qed
qed

text \<open>A restart right after a successful compaction finds the entries of the index; a namespace without
  entries comes back without its dimension.\<close>

lemma recover_compacted:
  assumes "durable de from_str cfg st" and "bincode_codec ser de" and c: "snapshot_compact ser outs st = (Inr r, st')"
  shows "\<exists>si n. recover de from_str cfg (fl_snap st') (fl_file st') = Inr (si, n) \<and>
    locked_dim si m = (if contents (fl_index st) m = Map.empty then None else locked_dim (fl_index st) m)"
proof -
  have inv: "si_inv (fl_index st)" using assms(1) by (simp add: durable_def)
  obtain r' d' f' where c': "compact ser (fst outs) (snd outs) (fl_index st) (fl_wal st) (fl_snap st) (fl_file st) = (r', d', f')"
    by (metis prod_cases3)
  then have st': "st' = st\<lparr> fl_snap := d', fl_file := f' \<rparr>" "r' = Inr r" using c by (simp_all add: snapshot_compact_def)
  from c' show ?thesis
  proof (cases rule: compact_cases)
    case old
    then show ?thesis using st'(2) by simp
  next
    case (new body)
    then have "f' = Some []" using st'(2) by simp
    then show ?thesis
      using load_snapshot_bytes [OF assms(2) new(1,2), of cfg] snapshot_reload(3) [OF inv, of cfg m]
      by (simp add: st'(1) recover_eq Let_def wal_replay_def)
  qed
qed

lemma cache_uuid: "ce_uuid (wal_to_cache w) = we_uuid w" "ce_embedding (wal_to_cache w) = we_embedding w"
  by (simp_all add: wal_to_cache_def)

lemma sp_insert_cases:
  "\<not> sp_accepts m e s \<Longrightarrow> snd (sp_insert m e s) = s"
  "sp_accepts m e s \<Longrightarrow> sp_content (snd (sp_insert m e s)) m (ce_uuid e) \<noteq> None"
  "u \<noteq> ce_uuid e \<Longrightarrow> sp_content (snd (sp_insert m e s)) k u = sp_content s k u"
  "sp_accepts m e s \<Longrightarrow> sp_dim (snd (sp_insert m e s)) m = Some (length (ce_embedding e))"
  by (auto simp: sp_insert_def)

text \<open>An entry whose dimension is not that of its namespace is answered with an error; the next one is not.\<close>

lemma flush_rejected:
  assumes wf: "si_wf (fl_index st)" and lock: "locked_dim (fl_index st) m = Some d"
    and stamp: "stamp_batch to_vec [bad, good] (fl_wal st) = (Inr ([bad', good'], buf), w')"
    and bad: "\<not> we_tombstone bad'" "we_model_id bad' = m" "length (we_embedding bad') \<noteq> d"
    and good: "\<not> we_tombstone good'" "we_model_id good' = m" "length (we_embedding good') = d"
  shows "\<exists>si' n'. flush_insert_batch to_vec WriteOk [(r1, bad), (r2, good)] st =
      ([InsertReply r1 (Inl (IndexErr (DimensionMismatch d (length (we_embedding bad'))))), InsertReply r2 (Inr (we_sequence good'))],
       st\<lparr> fl_wal := w', fl_file := Some (file_bytes (fl_file st) @ buf), fl_index := si', fl_since_compact := n' \<rparr>) \<and>
    contents si' m (we_uuid good') \<noteq> None"
proof -
  obtain x1 si1 where b: "replay_entry bad' (fl_index st) = (x1, si1)" by fastforce
  obtain x2 si2 where g: "replay_entry good' si1 = (x2, si2)" by fastforce
  have x1: "x1 = Inl (DimensionMismatch d (length (we_embedding bad')))"
    using replay_entry_result [OF wf, of bad'] bad lock b by (simp add: sp_insert_def sp_accepts_def wal_to_cache_def)
  have wf1: "si_wf si1" and abs1: "si_abs si1 = si_abs (fl_index st)"
    using wal_replay.step_inv [OF wf, of bad'] wal_replay.step_abs [OF wf, of bad'] b bad lock
    by (simp_all add: sp_replay_def sp_insert_def sp_accepts_def wal_to_cache_def)
  have x2: "x2 = Inr ()"
    using replay_entry_result [OF wf1, of good'] abs1 good lock g by (simp add: sp_insert_def sp_accepts_def wal_to_cache_def)
  have "si_abs si2 = snd (sp_insert m (wal_to_cache good') (si_abs si1))"
    using wal_replay.step_abs [OF wf1, of good'] g good by (simp add: sp_replay_def)
  moreover have "sp_accepts m (wal_to_cache good') (si_abs si1)"
    using abs1 good lock by (simp add: sp_accepts_def wal_to_cache_def)
  ultimately have "sp_content (si_abs si2) m (we_uuid good') \<noteq> None"
    using sp_insert_cases(2) by (metis cache_uuid)
  then have "contents si2 m (we_uuid good') \<noteq> None" by simp
  moreover have "flush_insert_batch to_vec WriteOk [(r1, bad), (r2, good)] st =
      ([InsertReply r1 (Inl (IndexErr (DimensionMismatch d (length (we_embedding bad'))))), InsertReply r2 (Inr (we_sequence good'))],
       st\<lparr> fl_wal := w', fl_file := Some (file_bytes (fl_file st) @ buf), fl_index := si2,
           fl_since_compact := saturating_add (fl_since_compact st) 1 \<rparr>)"
    using flush_batch_step [of to_vec "[(r1, bad), (r2, good)]" st "[bad', good']" buf w'] stamp b g x1 x2
    by (simp del: stamp_batch.simps)
  ultimately show ?thesis by blast
qed

text \<open>Replayed on an index without a dimension for the namespace, the entry that comes first wins.\<close>

lemma replay_shadows:
  assumes wf: "si_wf si" and "locked_dim si m = None"
    and bad: "\<not> we_tombstone bad" "we_model_id bad = m" "length (we_embedding bad) \<noteq> length (we_embedding good)"
    and good: "\<not> we_tombstone good" "we_model_id good = m" "we_uuid good \<noteq> we_uuid bad"
  shows "contents (fold (\<lambda>w. snd \<circ> replay_entry w) [bad, good] si) m (we_uuid good) = None"
    and "contents (fold (\<lambda>w. snd \<circ> replay_entry w) [bad, good] si) m (we_uuid bad) \<noteq> None"
proof -
  let ?s1 = "snd (sp_insert m (wal_to_cache bad) (si_abs si))"
  have "sp_accepts m (wal_to_cache bad) (si_abs si)" using assms(2) by (simp add: sp_accepts_def)
  note S1 = sp_insert_cases(2,4) [OF this, unfolded cache_uuid]
  have "\<not> sp_accepts m (wal_to_cache good) ?s1" using S1(2) bad(3) by (simp add: sp_accepts_def cache_uuid)
  then have abs: "si_abs (fold (\<lambda>w. snd \<circ> replay_entry w) [bad, good] si) = ?s1"
    using wal_replay.replay_abs [OF wf, of "[bad, good]"] bad good by (simp add: sp_replay_def sp_insert_cases(1))
  have "contents si m (we_uuid good) = None"
    using si_abs_keyed [OF si_wf_struct [OF wf]] assms(2)
    by (cases "contents si m (we_uuid good)") (auto simp: sp_keyed_def)
  then show "contents (fold (\<lambda>w. snd \<circ> replay_entry w) [bad, good] si) m (we_uuid good) = None"
      "contents (fold (\<lambda>w. snd \<circ> replay_entry w) [bad, good] si) m (we_uuid bad) \<noteq> None"
    using arg_cong [OF abs, of sp_content] S1(1) sp_insert_cases(3) [of "we_uuid good" "wal_to_cache bad" m "si_abs si" m] good(3)
    by (simp_all add: cache_uuid)
qed

text \<open>C38. An entry is logged before the index checks its dimension, and a rejected entry stays in the log. When
  a namespace was empty at a compaction, the snapshot does not carry its dimension; if then an insert of
  another dimension is rejected and one of the right dimension is acknowledged, the next restart takes
  the rejected entry, fixes the namespace to its dimension and loses the acknowledged one.\<close>

theorem rejected_entry_shadows:
  assumes codecs: "json_codec to_vec from_str" "bincode_codec ser de" "\<forall>e. to_vec e \<noteq> None"
    and dur: "durable de from_str cfg st0" and compacted: "snapshot_compact ser outs st0 = (Inr r, st)"
    and lock: "locked_dim (fl_index st0) m = Some d" "contents (fl_index st0) m = Map.empty"
    and bad: "\<not> we_tombstone bad" "we_model_id bad = m" "length (we_embedding bad) \<noteq> d" "we_finite bad"
    and good: "\<not> we_tombstone good" "we_model_id good = m" "length (we_embedding good) = d" "we_finite good"
      "we_uuid good \<noteq> we_uuid bad"
    and room: "unat (w_sequence (fl_wal st)) + 2 < 2 ^ 64"
  shows "\<exists>s st' si k. flush_insert_batch to_vec WriteOk [(r1, bad), (r2, good)] st =
      ([InsertReply r1 (Inl (IndexErr (DimensionMismatch d (length (we_embedding bad))))), InsertReply r2 (Inr s)], st') \<and>
    contents (fl_index st') m (we_uuid good) \<noteq> None \<and>
    recover de from_str cfg (fl_snap st') (fl_file st') = Inr (si, k) \<and>
    contents si m (we_uuid good) = None \<and> contents si m (we_uuid bad) \<noteq> None"
proof -
  have st: "fl_index st = fl_index st0" "fl_wal st = fl_wal st0"
    using compacted by (auto simp: snapshot_compact_def split: prod.splits)
  have dst: "durable de from_str cfg st" using exact.keep_compact [OF dur codecs(2), of outs] compacted by simp
  obtain si0 n where rec: "recover de from_str cfg (fl_snap st) (fl_file st) = Inr (si0, n)" "locked_dim si0 m = None"
    using recover_compacted [OF dur codecs(2) compacted, of m] lock(2) by auto
  obtain es buf w' where stamp0: "stamp_batch to_vec [bad, good] (fl_wal st) = (Inr (es, buf), w')"
    using stamp_batch_total [of to_vec "fl_wal st" "[bad, good]"] codecs(3) room by auto
  have "map unstamped es = map unstamped [bad, good]" using stamp_batch_Inr [OF stamp0] by blast
  then obtain bad' good' where es: "es = [bad', good']" "unstamped bad' = unstamped bad" "unstamped good' = unstamped good"
    by auto
  note stamp = stamp0 [unfolded es(1)] and B = unstamped_fields [OF es(2)] and G = unstamped_fields [OF es(3)]
  have wf: "si_wf (fl_index st)" using dst by (simp add: durable_def si_inv_wf)
  obtain si' n' where flush: "flush_insert_batch to_vec WriteOk [(r1, bad), (r2, good)] st =
      ([InsertReply r1 (Inl (IndexErr (DimensionMismatch d (length (we_embedding bad))))), InsertReply r2 (Inr (we_sequence good'))],
       st\<lparr> fl_wal := w', fl_file := Some (file_bytes (fl_file st) @ buf), fl_index := si', fl_since_compact := n' \<rparr>)"
    and live: "contents si' m (we_uuid good) \<noteq> None"
    using flush_rejected [OF wf _ stamp, of m d r1 r2] lock(1) st(1) B G bad good by auto
  let ?st' = "st\<lparr> fl_wal := w', fl_file := Some (file_bytes (fl_file st) @ buf), fl_index := si', fl_since_compact := n' \<rparr>"
  have "list_all we_finite [bad, good]" using bad(4) good(4) by simp
  from recover_stamped [OF dst codecs(1) stamp this rec(1)] obtain k where
    rec': "recover de from_str cfg (fl_snap ?st') (fl_file ?st') = Inr (fold (\<lambda>w. snd \<circ> replay_entry w) [bad', good'] si0, k)"
    by auto
  have "contents (fold (\<lambda>w. snd \<circ> replay_entry w) [bad', good'] si0) m (we_uuid good) = None"
      "contents (fold (\<lambda>w. snd \<circ> replay_entry w) [bad', good'] si0) m (we_uuid bad) \<noteq> None"
    using replay_shadows [OF recover_wf [OF rec(1)] rec(2), of bad' good'] B G bad good by simp_all
  moreover have "contents (fl_index ?st') m (we_uuid good) \<noteq> None" using live by simp
  ultimately show ?thesis using flush rec' by blast
qed

definition node_emptied :: flush_state where
  "node_emptied = flush_each line_to_vec [(8, tombstone_entry ''u1'' ''m'')]
     (node_one\<lparr> fl_index := snd (si_remove_by_uuid ''u1'' si_a) \<rparr>)"

definition log_wide :: wal_entry where
  "log_wide = log_a\<lparr> we_uuid := ''u2'', we_embedding := [f32_one, f32_one] \<rparr>"

lemma node_emptied_facts:
  "durable plain_de line_from_str cfg0 node_emptied" "locked_dim (fl_index node_emptied) ''m'' = Some 1"
  "contents (fl_index node_emptied) ''m'' = Map.empty" "w_sequence (fl_wal node_emptied) = 2"
proof -
  let ?si = "snd (si_remove_by_uuid ''u1'' si_a)" and ?t = "tombstone_entry ''u1'' ''m''"
  let ?st = "node_one\<lparr> fl_index := ?si \<rparr>"
  have dur: "durable plain_de line_from_str cfg0 node_one"
    using step_invariant.reachable_inv [OF durable_life [OF line_codec plain_codec] reachable_one] .
  show "durable plain_de line_from_str cfg0 node_emptied"
    using exact.keep_delete [OF dur line_codec line_total, of "''u1''" "''m''" 8] owner_a
    by (simp add: node_emptied_def node_one_def)
  note abs = removed_abs [OF si_inv_a, of "''u1''"]
  have gone: "namespace_for ?si ''u1'' = None" "contents ?si ''m'' = Map.empty" "locked_dim ?si ''m'' = Some 1"
    using arg_cong [OF abs, of sp_owner] arg_cong [OF abs, of sp_content] arg_cong [OF abs, of sp_dim]
    by (auto simp: namespace_for_def sp_drop_def contents_a dim_a fun_eq_iff)
  have "\<exists>es buf w'. stamp_batch line_to_vec [?t] (fl_wal ?st) = (Inr (es, buf), w')"
    by (rule stamp_batch_total) (use line_total in \<open>simp_all add: node_one_def\<close>)
  then obtain t' buf w' where st: "stamp_batch line_to_vec [?t] (fl_wal ?st) = (Inr ([t'], buf), w')"
    by (metis stamp_batch_length length_Suc_conv length_0_conv list.size(3,4))
  note S = stamp_batch_Inr [OF st]
  have t': "we_tombstone t'" "we_uuid t' = ''u1''"
    using unstamped_fields [of t' ?t] S by (simp_all add: tombstone_entry_def)
  have r: "replay_entry t' ?si = (Inr (), ?si)"
    using t' gone(1) by (simp add: replay_entry_def si_remove_by_uuid_def namespace_for_def)
  have "fl_index node_emptied = ?si \<and> fl_wal node_emptied = w'"
    unfolding node_emptied_def using flush_batch_step [of line_to_vec "[(8, ?t)]" ?st "[t']" buf w'] st r
    by (simp add: node_one_def del: stamp_batch.simps)
  then show "locked_dim (fl_index node_emptied) ''m'' = Some 1" "contents (fl_index node_emptied) ''m'' = Map.empty"
      "w_sequence (fl_wal node_emptied) = 2"
    using gone S by (simp_all add: node_one_def word_unat_eq_iff)
qed

lemma node_emptied_compacts:
  "\<exists>r st. snapshot_compact plain_ser (SnapOk, TruncOk) node_emptied = (Inr r, st) \<and> fl_wal st = fl_wal node_emptied"
  by (auto simp: snapshot_compact_def compact_def write_snapshot_def wal_truncate_def plain_ser_def Let_def)

theorem rejected_entry_shadows_witness:
  "\<exists>r st s st' si k. snapshot_compact plain_ser (SnapOk, TruncOk) node_emptied = (Inr r, st) \<and>
    flush_insert_batch line_to_vec WriteOk [(1, log_wide), (2, log_a)] st =
      ([InsertReply 1 (Inl (IndexErr (DimensionMismatch 1 2))), InsertReply 2 (Inr s)], st') \<and>
    contents (fl_index st') ''m'' ''u1'' \<noteq> None \<and>
    recover plain_de line_from_str cfg0 (fl_snap st') (fl_file st') = Inr (si, k) \<and>
    contents si ''m'' ''u1'' = None \<and> contents si ''m'' ''u2'' \<noteq> None"
proof -
  obtain r st where c: "snapshot_compact plain_ser (SnapOk, TruncOk) node_emptied = (Inr r, st)"
      "fl_wal st = fl_wal node_emptied"
    using node_emptied_compacts by blast
  have tot: "\<forall>e. line_to_vec e \<noteq> None" using line_total by blast
  have wide: "\<not> we_tombstone log_wide" "we_model_id log_wide = ''m''" "length (we_embedding log_wide) \<noteq> 1" "we_finite log_wide"
    using log_a_finite(1) by (simp_all add: log_wide_def log_a_def we_finite_def)
  have narrow: "\<not> we_tombstone log_a" "we_model_id log_a = ''m''" "length (we_embedding log_a) = 1" "we_finite log_a"
      "we_uuid log_a \<noteq> we_uuid log_wide"
    using log_a_finite(1) by (simp_all add: log_wide_def log_a_def)
  have room: "unat (w_sequence (fl_wal st)) + 2 < 2 ^ 64" using c(2) node_emptied_facts(4) by simp
  have uuids: "we_uuid log_a = ''u1''" "we_uuid log_wide = ''u2''" "length (we_embedding log_wide) = 2"
    by (simp_all add: log_wide_def log_a_def)
  show ?thesis
    using rejected_entry_shadows [OF line_codec plain_codec tot node_emptied_facts(1) c(1) node_emptied_facts(2,3)
        wide narrow room, of 1 2] c(1)
    unfolding uuids by blast
qed

section \<open>The flush task\<close>

text \<open>Every command is answered exactly once, in the order of the channel: the replies of a run of
  the loop are those of a prefix of the queue, and what is left is the rest of it.\<close>

lemma flush_loop_fifo:
  assumes "flush_loop to_vec ser cfg hcfg n rounds queue st = (rs, queue', st')"
  shows "map reply_id rs @ map cmd_id queue' = map cmd_id queue"
  using flush_loop_ids [OF assms] .

text \<open>C15. The flush task is never stuck: with one round per queued command, whatever the disk does in each
  round and however the commands arrive, the queue is drained and every command has its reply.\<close>

theorem flush_loop_drains_all:
  assumes "length queue \<le> length rounds"
  shows "\<exists>rs st'. flush_loop to_vec ser cfg hcfg n rounds queue st = (rs, [], st') \<and>
    map reply_id rs = map cmd_id queue"
proof -
  obtain rs queue' st' where l: "flush_loop to_vec ser cfg hcfg n rounds queue st = (rs, queue', st')"
    by (metis prod_cases3)
  with flush_loop_drains [OF assms l] flush_loop_ids [OF l] show ?thesis by simp
qed

theorem flush_loop_drains_all_witness:
  "\<exists>rs st'. flush_loop line_to_vec plain_ser default_group_commit_config cfg0 0
       [(\<lparr> io_batch = WriteOk, io_tomb = WriteOk, io_auto = (SnapOk, TruncOk), io_compact = (SnapOk, TruncOk) \<rparr>, 0)]
       [InsertCmd 4 log_a] node_one = (rs, [], st') \<and> map reply_id rs = [4]"
  using flush_loop_drains_all [of "[InsertCmd 4 log_a]"
      "[(\<lparr> io_batch = WriteOk, io_tomb = WriteOk, io_auto = (SnapOk, TruncOk), io_compact = (SnapOk, TruncOk) \<rparr>, 0)]"]
  by (simp del: flush_loop.simps)

end
