(* ===== verification/Ring.thy ===== *)
theory Ring
  imports Rust_Float
begin

text \<open>
  The consistent-hash ring of \<open>src/ring.rs\<close>: FNV-1a positions of the virtual nodes in a \<open>BTreeMap\<close>,
  walked clockwise from the key of an embedding.
\<close>

section \<open>Hashing\<close>

definition FNV_OFFSET_BASIS :: u64 where "FNV_OFFSET_BASIS = 0xcbf29ce484222325"
definition FNV_PRIME :: u64 where "FNV_PRIME = 0x100000001b3"

definition fnv1a_hash :: "u8 list \<Rightarrow> u64" where
  "fnv1a_hash data = foldl (\<lambda>hash byte. (hash XOR ucast byte) * FNV_PRIME) FNV_OFFSET_BASIS data"

definition as_bytes :: "string \<Rightarrow> u8 list" where
  "as_bytes s = map (\<lambda>c. of_nat (of_char c)) s"

text \<open>The first two components, big-endian; missing ones are zero bytes.\<close>

definition embedding_to_key :: "f32 list \<Rightarrow> u64" where
  "embedding_to_key embedding =
     (let bytes = concat (map f32_to_be_bytes (take 2 embedding))
      in u64_from_be_bytes (bytes @ replicate (8 - length bytes) 0))"

section \<open>The ring\<close>

record hash_ring =
  ring :: "(u64, string) btmap"
  ring_virtual_nodes :: nat

definition ring_new :: "nat \<Rightarrow> hash_ring" where
  "ring_new vn = \<lparr> ring = [], ring_virtual_nodes = max vn 1 \<rparr>"

definition vnode_label :: "string \<Rightarrow> nat \<Rightarrow> string" where
  "vnode_label nid i = nid @ ''-'' @ show_nat i"

definition vnode_pos :: "string \<Rightarrow> nat \<Rightarrow> u64" where
  "vnode_pos nid i = fnv1a_hash (as_bytes (vnode_label nid i))"

definition add_node :: "string \<Rightarrow> hash_ring \<Rightarrow> hash_ring" where
  "add_node nid r =
     r\<lparr> ring := fold (\<lambda>i. bt_insert (vnode_pos nid i) nid) [0..<ring_virtual_nodes r] (ring r) \<rparr>"

definition remove_node :: "string \<Rightarrow> hash_ring \<Rightarrow> hash_ring" where
  "remove_node nid r =
     r\<lparr> ring := fold (\<lambda>i. bt_remove (vnode_pos nid i)) [0..<ring_virtual_nodes r] (ring r) \<rparr>"

definition get_node :: "u64 \<Rightarrow> hash_ring \<Rightarrow> string option" where
  "get_node key r =
     (if ring r = [] then None
      else case bt_range_from key (ring r) of
             (_, node) # _ \<Rightarrow> Some node
           | [] \<Rightarrow> (case ring r of (_, node) # _ \<Rightarrow> Some node | [] \<Rightarrow> None))"

definition get_node_for_embedding :: "f32 list \<Rightarrow> hash_ring \<Rightarrow> string option" where
  "get_node_for_embedding embedding r = get_node (embedding_to_key embedding) r"

text \<open>The walk: \<open>seen\<close> is the set of the nodes already taken, \<open>n\<close> how many are still wanted.\<close>

fun walk_nodes :: "string list \<Rightarrow> nat \<Rightarrow> (u64 \<times> string) list \<Rightarrow> string list" where
  "walk_nodes seen n [] = []"
| "walk_nodes seen n ((_, node) # rest) =
     (if node \<in> set seen then walk_nodes seen n rest
      else if n = 1 then [node]
      else node # walk_nodes (node # seen) (n - 1) rest)"

definition clockwise :: "u64 \<Rightarrow> hash_ring \<Rightarrow> (u64 \<times> string) list" where
  "clockwise key r = bt_range_from key (ring r) @ bt_range_to key (ring r)"

definition get_n_nodes :: "u64 \<Rightarrow> nat \<Rightarrow> hash_ring \<Rightarrow> string list" where
  "get_n_nodes key n r =
     (if ring r = [] \<or> n = 0 then [] else walk_nodes [] n (clockwise key r))"

definition get_n_nodes_for_embedding :: "f32 list \<Rightarrow> nat \<Rightarrow> hash_ring \<Rightarrow> string list" where
  "get_n_nodes_for_embedding embedding n r = get_n_nodes (embedding_to_key embedding) n r"

definition nodes :: "hash_ring \<Rightarrow> string list" where
  "nodes r = sort (remdups (map snd (ring r)))"

definition node_count :: "hash_ring \<Rightarrow> nat" where
  "node_count r = length (nodes r)"

section \<open>The invariant\<close>

text \<open>The positions are sorted, and every entry is a virtual node of the node it names.\<close>

definition ring_inv :: "hash_ring \<Rightarrow> bool" where
  "ring_inv r \<longleftrightarrow> bt_wf (ring r) \<and> 1 \<le> ring_virtual_nodes r \<and>
     (\<forall>(p, x) \<in> set (ring r). \<exists>i < ring_virtual_nodes r. p = vnode_pos x i)"

lemma ring_fold_insert:
  assumes "bt_wf m"
  shows "bt_wf (fold (\<lambda>i. bt_insert (vnode_pos x i) x) is m)"
    and "map_of (fold (\<lambda>i. bt_insert (vnode_pos x i) x) is m) p =
      (if p \<in> vnode_pos x ` set is then Some x else map_of m p)"
  using assms by (induction "is" arbitrary: m) (auto simp: bt_wf_insert)

lemma ring_fold_remove:
  assumes "bt_wf m"
  shows "bt_wf (fold (\<lambda>i. bt_remove (vnode_pos x i)) is m)"
    and "map_of (fold (\<lambda>i. bt_remove (vnode_pos x i)) is m) p =
      (if p \<in> vnode_pos x ` set is then None else map_of m p)"
  using assms by (induction "is" arbitrary: m) (auto simp: bt_wf_remove)

definition positions :: "string \<Rightarrow> hash_ring \<Rightarrow> u64 set" where
  "positions x r = vnode_pos x ` {0..<ring_virtual_nodes r}"

lemma bt_in_iff: "bt_wf m \<Longrightarrow> (k, v) \<in> set m \<longleftrightarrow> map_of m k = Some v"
  by (rule hm_in_iff [OF bt_wf_distinct])

lemma bt_ball: "bt_wf m \<Longrightarrow> (\<forall>(p, x) \<in> set m. Q p x) \<longleftrightarrow> (\<forall>p x. map_of m p = Some x \<longrightarrow> Q p x)"
  using bt_in_iff [of m] by fast

lemma map_of_add_node:
  assumes "ring_inv r"
  shows "map_of (ring (add_node x r)) p = (if p \<in> positions x r then Some x else map_of (ring r) p)"
  using assms ring_fold_insert(2) [of "ring r" x "[0..<ring_virtual_nodes r]" p]
  by (simp add: ring_inv_def add_node_def positions_def)

lemma map_of_remove_node:
  assumes "ring_inv r"
  shows "map_of (ring (remove_node x r)) p = (if p \<in> positions x r then None else map_of (ring r) p)"
  using assms ring_fold_remove(2) [of "ring r" x "[0..<ring_virtual_nodes r]" p]
  by (simp add: ring_inv_def remove_node_def positions_def)

lemma ring_vn [simp]:
  "ring_virtual_nodes (add_node x r) = ring_virtual_nodes r"
  "ring_virtual_nodes (remove_node x r) = ring_virtual_nodes r"
  by (simp_all add: add_node_def remove_node_def)

lemma ring_inv_alt:
  "ring_inv r \<longleftrightarrow> bt_wf (ring r) \<and> 1 \<le> ring_virtual_nodes r \<and>
     (\<forall>p x. map_of (ring r) p = Some x \<longrightarrow> p \<in> positions x r)"
proof -
  have "p \<in> positions x r \<longleftrightarrow> (\<exists>i < ring_virtual_nodes r. p = vnode_pos x i)" for p x
    by (auto simp: positions_def)
  then show ?thesis
    unfolding ring_inv_def using bt_ball [of "ring r" "\<lambda>p x. \<exists>i < ring_virtual_nodes r. p = vnode_pos x i"]
    by (simp only: cong: conj_cong)
qed

lemma ring_inv_new: "ring_inv (ring_new n)"
  by (simp add: ring_inv_def ring_new_def bt_wf_def)

lemma positions_upd [simp]:
  "positions y (add_node x r) = positions y r" "positions y (remove_node x r) = positions y r"
  by (simp_all add: positions_def)

lemma ring_inv_add_node:
  assumes "ring_inv r"
  shows "ring_inv (add_node x r)"
proof -
  have "bt_wf (ring (add_node x r))" using assms by (simp add: add_node_def ring_fold_insert(1) ring_inv_def)
  moreover have "p \<in> positions y r" if "map_of (ring (add_node x r)) p = Some y" for p y
    using that assms by (auto simp: map_of_add_node ring_inv_alt split: if_splits)
  ultimately show ?thesis using assms by (simp add: ring_inv_alt)
qed

lemma ring_inv_remove_node:
  assumes "ring_inv r"
  shows "ring_inv (remove_node x r)"
proof -
  have "bt_wf (ring (remove_node x r))" using assms by (simp add: remove_node_def ring_fold_remove(1) ring_inv_def)
  moreover have "p \<in> positions y r" if "map_of (ring (remove_node x r)) p = Some y" for p y
    using that assms by (auto simp: map_of_remove_node ring_inv_alt split: if_splits)
  ultimately show ?thesis using assms by (simp add: ring_inv_alt)
qed

section \<open>Membership\<close>

lemma set_nodes:
  assumes "ring_inv r"
  shows "x \<in> set (nodes r) \<longleftrightarrow> (\<exists>p. map_of (ring r) p = Some x)"
proof -
  have "bt_wf (ring r)" using assms by (simp add: ring_inv_def)
  then show ?thesis by (force simp: nodes_def bt_in_iff [symmetric])
qed

lemma distinct_nodes: "distinct (nodes r)"
  by (simp add: nodes_def)

lemma positions_nonempty: "ring_inv r \<Longrightarrow> positions x r \<noteq> {}"
  by (auto simp: positions_def ring_inv_def)

lemma nodes_add_node:
  assumes "ring_inv r"
  shows "x \<in> set (nodes (add_node x r))" "y \<in> set (nodes (add_node x r)) \<Longrightarrow> y = x \<or> y \<in> set (nodes r)"
proof -
  note S = set_nodes [OF ring_inv_add_node [OF assms], of _ x] and M = map_of_add_node [OF assms]
  obtain p where "p \<in> positions x r" using positions_nonempty [OF assms] by blast
  then have "map_of (ring (add_node x r)) p = Some x" by (simp add: M)
  then show "x \<in> set (nodes (add_node x r))" unfolding S by blast
  show "y = x \<or> y \<in> set (nodes r)" if "y \<in> set (nodes (add_node x r))"
    using that unfolding S set_nodes [OF assms] by (auto simp: M split: if_splits)
qed

text \<open>A removed node has left the ring completely.\<close>

lemma nodes_remove_node:
  assumes "ring_inv r"
  shows "x \<notin> set (nodes (remove_node x r))" "y \<in> set (nodes (remove_node x r)) \<Longrightarrow> y \<in> set (nodes r)"
proof -
  note S = set_nodes [OF ring_inv_remove_node [OF assms], of _ x] and M = map_of_remove_node [OF assms]
  have "p \<in> positions y r" if "map_of (ring r) p = Some y" for p y
    using assms that by (simp add: ring_inv_alt)
  then show "x \<notin> set (nodes (remove_node x r))" unfolding S by (auto simp: M split: if_splits)
  show "y \<in> set (nodes r)" if "y \<in> set (nodes (remove_node x r))"
    using that unfolding S set_nodes [OF assms] by (auto simp: M split: if_splits)
qed

section \<open>The walk\<close>

lemma walk_nodes_props:
  assumes "0 < n"
  shows "distinct (walk_nodes seen n w) \<and> set (walk_nodes seen n w) \<subseteq> snd ` set w - set seen \<and>
    length (walk_nodes seen n w) = min n (card (snd ` set w - set seen))"
  using assms
proof (induction seen n w rule: walk_nodes.induct)
  case (1 seen n)
  then show ?case by simp
next
  case (2 seen n p node rest)
  show ?case
  proof (cases "node \<in> set seen")
    case True
    then have "snd ` set ((p, node) # rest) - set seen = snd ` set rest - set seen" by auto
    then show ?thesis using 2 True by simp
  next
    case False
    have fin: "finite (snd ` set rest - set seen)" by simp
    have eq: "snd ` set ((p, node) # rest) - set seen = insert node (snd ` set rest - set (node # seen))"
      using False by auto
    then have card: "card (snd ` set ((p, node) # rest) - set seen) = Suc (card (snd ` set rest - set (node # seen)))"
      by (simp add: card_insert_if)
    show ?thesis
    proof (cases "n = 1")
      case True
      then show ?thesis using False card eq by (simp add: min_def)
    next
      case n: False
      then have IH: "distinct (walk_nodes (node # seen) (n - 1) rest) \<and>
          set (walk_nodes (node # seen) (n - 1) rest) \<subseteq> snd ` set rest - set (node # seen) \<and>
          length (walk_nodes (node # seen) (n - 1) rest) = min (n - 1) (card (snd ` set rest - set (node # seen)))"
        using 2 False by simp
      then have "length (walk_nodes seen n ((p, node) # rest)) = min n (card (snd ` set ((p, node) # rest) - set seen))"
        unfolding card using False n "2.prems" by (auto simp: min_def)
      then show ?thesis using IH False n by auto
    qed
  qed
qed

lemma set_clockwise: "set (clockwise key r) = set (ring r)"
  by (auto simp: clockwise_def bt_range_from_def bt_range_to_def)

lemma get_n_nodes_props:
  "distinct (get_n_nodes key n r) \<and> set (get_n_nodes key n r) \<subseteq> set (nodes r) \<and>
   length (get_n_nodes key n r) = min n (node_count r)"
proof (cases "ring r = [] \<or> n = 0")
  case True
  then show ?thesis by (auto simp: get_n_nodes_def node_count_def nodes_def)
next
  case False
  have "card (snd ` set (ring r)) = node_count r"
    by (simp add: node_count_def nodes_def card_set [symmetric] length_remdups_card_conv)
  then show ?thesis using False walk_nodes_props [of n "[]" "clockwise key r"]
    by (auto simp: get_n_nodes_def set_clockwise nodes_def)
qed

lemma clockwise_Nil_iff: "clockwise key r = [] \<longleftrightarrow> ring r = []"
  using set_clockwise [of key r] by (metis set_empty)

text \<open>The primary replica is the node a single lookup returns.\<close>

lemma get_node_clockwise:
  "get_node key r = (case clockwise key r of [] \<Rightarrow> None | (_, x) # _ \<Rightarrow> Some x)"
proof (cases "bt_range_from key (ring r)")
  case Nil
  then have "bt_range_to key (ring r) = ring r"
    by (auto simp: bt_range_from_def bt_range_to_def filter_empty_conv filter_id_conv not_le)
  then show ?thesis using Nil by (auto simp: get_node_def clockwise_def split: list.split)
next
  case (Cons p ps)
  then have "ring r \<noteq> []" by (auto simp: bt_range_from_def)
  then show ?thesis using Cons by (cases p) (simp add: get_node_def clockwise_def)
qed

lemma get_n_nodes_head:
  assumes "0 < n"
  shows "get_node key r = (case get_n_nodes key n r of [] \<Rightarrow> None | x # _ \<Rightarrow> Some x)"
proof (cases "clockwise key r")
  case Nil
  then show ?thesis using clockwise_Nil_iff [of key r] by (simp add: get_node_clockwise get_n_nodes_def)
next
  case (Cons p ps)
  then show ?thesis using clockwise_Nil_iff [of key r] assms
    by (cases p) (auto simp: get_node_clockwise get_n_nodes_def)
qed

section \<open>Removing a node moves only its own keys\<close>

lemma filter_head_stable:
  assumes "filter P m = (p, x) # ps" "Q (p, x)"
  shows "\<exists>ps'. filter P (filter Q m) = (p, x) # ps'"
proof -
  from filter_eq_ConsD [OF assms(1)] obtain us vs where
    m: "m = us @ (p, x) # vs" "\<forall>u \<in> set us. \<not> P u" "P (p, x)" by blast
  have "filter P (filter Q us) = []" using m(2) by (auto simp: filter_empty_conv)
  then show ?thesis using m(1,3) assms(2) by simp
qed

lemma ring_remove_node_filter: "ring (remove_node x r) = filter (\<lambda>p. fst p \<notin> positions x r) (ring r)"
proof -
  have "fold (\<lambda>i. AList.delete (vnode_pos x i)) is m = filter (\<lambda>p. fst p \<notin> vnode_pos x ` set is) m" for "is" m
    by (induction "is" arbitrary: m) (auto simp: AList.delete_eq conj_commute intro!: filter_cong)
  from this [of "[0..<ring_virtual_nodes r]" "ring r"] show ?thesis by (simp add: remove_node_def positions_def)
qed

lemma clockwise_remove_node: "clockwise key (remove_node x r) = filter (\<lambda>p. fst p \<notin> positions x r) (clockwise key r)"
  by (auto simp: clockwise_def ring_remove_node_filter bt_range_from_def bt_range_to_def conj_commute
      intro!: filter_cong)

lemma get_node_remove_other:
  assumes "ring_inv r" and own: "\<And>p. p \<in> positions x r \<Longrightarrow> map_of (ring r) p \<in> {None, Some x}"
    and "get_node key r = Some y" "y \<noteq> x"
  shows "get_node key (remove_node x r) = Some y"
proof -
  from assms(3) obtain p ps where c: "clockwise key r = (p, y) # ps"
    by (auto simp: get_node_clockwise split: list.splits)
  have "map_of (ring r) p = Some y"
    using c set_clockwise [of key r] assms(1) by (auto simp: bt_in_iff [symmetric] ring_inv_def)
  then have "p \<notin> positions x r" using own [of p] assms(4) by auto
  then show ?thesis by (simp add: get_node_clockwise clockwise_remove_node c)
qed

lemma embedding_to_key_prefix: "take 2 a = take 2 b \<Longrightarrow> embedding_to_key a = embedding_to_key b"
  by (simp add: embedding_to_key_def)

end
