(* ===== verification/Failure_Detector.thy ===== *)
theory Failure_Detector
  imports Rust_Float Machines Config
begin

text \<open>
  The phi-accrual failure detector of \<open>src/failure_detector.rs\<close>. An \<open>Instant\<close> is a number of
  nanoseconds; statistics are computed in the reals.
\<close>

section \<open>State\<close>

datatype peer_status = Alive | Suspected | Dead

record peer_state =
  heartbeat_history :: "real list"
  last_heartbeat :: nat
  peer_status_of :: peer_status

record phi_accrual_detector =
  pd_peers :: "(string, peer_state) hmap"
  pd_phi_threshold :: real
  pd_window_size :: nat
  pd_min_std_dev_ms :: real

definition pd_new :: "real \<Rightarrow> nat \<Rightarrow> real \<Rightarrow> phi_accrual_detector" where
  "pd_new threshold window min_std_dev =
     \<lparr> pd_peers = [], pd_phi_threshold = threshold, pd_window_size = max window 2,
       pd_min_std_dev_ms = max min_std_dev 1 \<rparr>"

section \<open>Phi\<close>

text \<open>\<open>at.saturating_duration_since(last).as_secs_f64() * 1000.0\<close>\<close>

definition elapsed_ms :: "nat \<Rightarrow> nat \<Rightarrow> real" where
  "elapsed_ms t0 t1 = real (t0 - t1) / 10 ^ 9 * 1000"

definition erf :: "real \<Rightarrow> real" where
  "erf x0 =
     (let s = (if x0 \<ge> 0 then 1 else - 1); x = \<bar>x0\<bar>;
          t = 1 / (1 + 3275911 / 10 ^ 7 * x);
          y = 1 - (((((1061405429 / 10 ^ 9 * t - 1453152027 / 10 ^ 9) * t) + 1421413741 / 10 ^ 9) * t
                - 284496736 / 10 ^ 9) * t + 254829592 / 10 ^ 9) * t * exp (- x * x)
      in s * y)"

definition normal_cdf :: "real \<Rightarrow> real \<Rightarrow> real \<Rightarrow> real" where
  "normal_cdf x mean std_dev = (let z = (x - mean) / std_dev in 1 / 2 * (1 + erf (z / sqrt 2)))"

definition F64_MIN_POSITIVE :: real where "F64_MIN_POSITIVE = 1 / 2 ^ 1022"

definition compute_phi :: "phi_accrual_detector \<Rightarrow> real \<Rightarrow> real list \<Rightarrow> real" where
  "compute_phi d elapsed history =
     (let n = real (length history);
          mean = sum_list history / n;
          variance = (if n > 1 then sum_list (map (\<lambda>x. (x - mean) ^ 2) history) / n else 0);
          std_dev = max (sqrt variance) (pd_min_std_dev_ms d);
          p = max (1 - normal_cdf elapsed mean std_dev) F64_MIN_POSITIVE
      in - log 10 p)"

definition phi_at :: "phi_accrual_detector \<Rightarrow> string \<Rightarrow> nat \<Rightarrow> real option" where
  "phi_at d nid t0 =
     (case hm_get (pd_peers d) nid of
        None \<Rightarrow> None
      | Some st \<Rightarrow>
          if heartbeat_history st = [] then None
          else Some (compute_phi d (elapsed_ms t0 (last_heartbeat st)) (heartbeat_history st)))"

text \<open>The phi of a tracked peer as \<open>check_all_at\<close> and \<open>snapshot_at\<close> compute it: 0 without samples.\<close>

definition phi_of :: "phi_accrual_detector \<Rightarrow> nat \<Rightarrow> peer_state \<Rightarrow> real" where
  "phi_of d t0 st =
     (if heartbeat_history st = [] then 0
      else compute_phi d (elapsed_ms t0 (last_heartbeat st)) (heartbeat_history st))"

section \<open>Operations\<close>

definition beat :: "nat \<Rightarrow> nat \<Rightarrow> peer_state \<Rightarrow> peer_state" where
  "beat window t0 st =
     (let elapsed = elapsed_ms t0 (last_heartbeat st);
          h = heartbeat_history st;
          h' = (if elapsed > 0 then (if length h \<ge> window then tl h else h) @ [elapsed] else h)
      in st\<lparr> heartbeat_history := h', last_heartbeat := t0, peer_status_of := Alive \<rparr>)"

definition record_heartbeat_at :: "string \<Rightarrow> nat \<Rightarrow> phi_accrual_detector \<Rightarrow> phi_accrual_detector" where
  "record_heartbeat_at nid t0 d =
     (case hm_get (pd_peers d) nid of
        None \<Rightarrow>
          d\<lparr> pd_peers := hm_insert nid
               \<lparr> heartbeat_history = [], last_heartbeat = t0, peer_status_of = Alive \<rparr> (pd_peers d) \<rparr>
      | Some st \<Rightarrow> d\<lparr> pd_peers := hm_insert nid (beat (pd_window_size d) t0 st) (pd_peers d) \<rparr>)"

definition next_status :: "real \<Rightarrow> real \<Rightarrow> peer_status \<Rightarrow> peer_status" where
  "next_status threshold phi s =
     (case s of
        Alive \<Rightarrow> if phi \<ge> threshold then Suspected else Alive
      | Suspected \<Rightarrow> if phi \<ge> 2 * threshold then Dead else Suspected
      | Dead \<Rightarrow> Dead)"

definition check_peer :: "phi_accrual_detector \<Rightarrow> nat \<Rightarrow> peer_state \<Rightarrow> peer_state" where
  "check_peer d t0 st =
     st\<lparr> peer_status_of := next_status (pd_phi_threshold d) (phi_of d t0 st) (peer_status_of st) \<rparr>"

definition check_all_at ::
  "nat \<Rightarrow> phi_accrual_detector \<Rightarrow> (string, peer_status \<times> real) hmap \<times> phi_accrual_detector" where
  "check_all_at t0 d =
     (AList.map_ran (\<lambda>_ st. (peer_status_of (check_peer d t0 st), phi_of d t0 st)) (pd_peers d),
      d\<lparr> pd_peers := AList.map_ran (\<lambda>_ st. check_peer d t0 st) (pd_peers d) \<rparr>)"

definition remove_peer :: "string \<Rightarrow> phi_accrual_detector \<Rightarrow> phi_accrual_detector" where
  "remove_peer nid d = d\<lparr> pd_peers := hm_remove nid (pd_peers d) \<rparr>"

definition peer_statuses :: "phi_accrual_detector \<Rightarrow> (string, peer_status) hmap" where
  "peer_statuses d = AList.map_ran (\<lambda>_ st. peer_status_of st) (pd_peers d)"

definition peers_with :: "peer_status \<Rightarrow> phi_accrual_detector \<Rightarrow> string list" where
  "peers_with s d = map fst (filter (\<lambda>(_, st). peer_status_of st = s) (pd_peers d))"

definition alive_peers :: "phi_accrual_detector \<Rightarrow> string list" where
  "alive_peers = peers_with Alive"

definition suspected_peers :: "phi_accrual_detector \<Rightarrow> string list" where
  "suspected_peers = peers_with Suspected"

definition dead_peers :: "phi_accrual_detector \<Rightarrow> string list" where
  "dead_peers = peers_with Dead"

definition snapshot_at :: "nat \<Rightarrow> phi_accrual_detector \<Rightarrow> (string \<times> peer_status \<times> real) list" where
  "snapshot_at t0 d = map (\<lambda>(nid, st). (nid, peer_status_of st, phi_of d t0 st)) (pd_peers d)"

section \<open>The invariant\<close>

text \<open>
  A window is never longer than its bound and holds positive samples only; the parameters are the
  clamped ones, so the deviation phi divides by is at least one millisecond.
\<close>

definition pd_inv :: "phi_accrual_detector \<Rightarrow> bool" where
  "pd_inv d \<longleftrightarrow> hm_wf (pd_peers d) \<and> 2 \<le> pd_window_size d \<and> 1 \<le> pd_min_std_dev_ms d \<and>
     (\<forall>nid st. hm_get (pd_peers d) nid = Some st \<longrightarrow>
        length (heartbeat_history st) \<le> pd_window_size d \<and> (\<forall>x \<in> set (heartbeat_history st). 0 < x))"

lemma pd_inv_new: "pd_inv (pd_new t w m)"
  by (simp add: pd_inv_def pd_new_def)

lemma set_tl_subset: "set (tl xs) \<subseteq> set xs"
  by (cases xs) auto

lemma beat_history:
  assumes "length (heartbeat_history st) \<le> w" "2 \<le> w" "\<forall>x \<in> set (heartbeat_history st). 0 < x"
  shows "length (heartbeat_history (beat w t0 st)) \<le> w \<and> (\<forall>x \<in> set (heartbeat_history (beat w t0 st)). 0 < x)"
  using assms set_tl_subset [of "heartbeat_history st"] by (auto simp: beat_def Let_def)

lemma pd_inv_heartbeat:
  assumes "pd_inv d"
  shows "pd_inv (record_heartbeat_at nid t0 d)"
proof (cases "map_of (pd_peers d) nid")
  case None
  then show ?thesis using assms by (auto simp: pd_inv_def record_heartbeat_at_def)
next
  case (Some st)
  have "length (heartbeat_history (beat (pd_window_size d) t0 st)) \<le> pd_window_size d \<and>
      (\<forall>x \<in> set (heartbeat_history (beat (pd_window_size d) t0 st)). 0 < x)"
    using assms Some by (intro beat_history) (auto simp: pd_inv_def)
  then show ?thesis using assms Some by (auto simp: pd_inv_def record_heartbeat_at_def)
qed

lemma pd_inv_check: "pd_inv d \<Longrightarrow> pd_inv (snd (check_all_at t0 d))"
  by (auto simp: pd_inv_def check_all_at_def check_peer_def AList.map_ran_def split_beta comp_def
      map_of_map_ran [unfolded AList.map_ran_def])

lemma pd_inv_remove: "pd_inv d \<Longrightarrow> pd_inv (remove_peer nid d)"
  by (auto simp: pd_inv_def remove_peer_def split: if_splits)

section \<open>The status machine\<close>

inductive pd_step :: "phi_accrual_detector \<Rightarrow> phi_accrual_detector \<Rightarrow> bool" where
  pd_heartbeat: "pd_step d (record_heartbeat_at nid t0 d)"
| pd_check: "pd_step d (snd (check_all_at t0 d))"
| pd_remove: "pd_step d (remove_peer nid d)"

inductive_cases pd_stepE: "pd_step d d'"

interpretation detector: step_invariant "\<lambda>d. \<exists>t w m. d = pd_new t w m" pd_step pd_inv
proof
  show "pd_inv d" if "\<exists>t w m. d = pd_new t w m" for d using that pd_inv_new by blast
  show "pd_inv d'" if "pd_step d d'" "pd_inv d" for d d'
    using that by (cases rule: pd_step.cases) (auto intro: pd_inv_heartbeat pd_inv_check pd_inv_remove)
qed

text \<open>One step moves a peer at most one stage down; only a heartbeat moves it back up.\<close>

definition status_edge :: "peer_status \<Rightarrow> peer_status \<Rightarrow> bool" where
  "status_edge s s' \<longleftrightarrow> s' = s \<or> (s = Alive \<and> s' = Suspected) \<or> (s = Suspected \<and> s' = Dead)"

lemma next_status_edge: "status_edge s (next_status t phi s)"
  by (cases s) (auto simp: next_status_def status_edge_def)

lemma check_status:
  "hm_get (pd_peers (snd (check_all_at t0 d))) nid = map_option (check_peer d t0) (hm_get (pd_peers d) nid)"
  by (simp add: check_all_at_def)

lemma heartbeat_alive:
  "\<exists>st. hm_get (pd_peers (record_heartbeat_at nid t0 d)) nid = Some st \<and> peer_status_of st = Alive \<and>
     last_heartbeat st = t0"
  by (auto simp: record_heartbeat_at_def beat_def Let_def split: option.split)

lemma heartbeat_other:
  "nid' \<noteq> nid \<Longrightarrow> hm_get (pd_peers (record_heartbeat_at nid t0 d)) nid' = hm_get (pd_peers d) nid'"
  by (auto simp: record_heartbeat_at_def split: option.split)

text \<open>Phi is capped: the floor of the tail probability keeps it below 308.\<close>

lemma compute_phi_le: "compute_phi d e h \<le> 308"
proof -
  have "- log 10 p \<le> 308" if "F64_MIN_POSITIVE \<le> p" for p :: real
  proof -
    have pos: "0 < F64_MIN_POSITIVE" by (simp add: F64_MIN_POSITIVE_def)
    have "(2 :: real) ^ 1022 \<le> 10 ^ 308" by simp
    then have "1 / 10 ^ 308 \<le> F64_MIN_POSITIVE" by (simp add: F64_MIN_POSITIVE_def divide_simps)
    with that have "1 / 10 ^ 308 \<le> p" by linarith
    then have "log 10 (1 / 10 ^ 308) \<le> log 10 p" using pos that by (subst log_le_cancel_iff) auto
    moreover have "log 10 (1 / 10 ^ n) = - real n" for n :: nat by (simp add: log_divide log_nat_power)
    from this [of 308] have "log 10 (1 / 10 ^ 308) = - 308" by (simp only: of_nat_numeral)
    ultimately show ?thesis by linarith
  qed
  then show ?thesis by (simp add: compute_phi_def Let_def)
qed

text \<open>A peer heard from only once has no samples, so it is never suspected.\<close>

lemma no_samples_stays:
  assumes "0 < pd_phi_threshold d" "heartbeat_history st = []" "peer_status_of st = Alive"
  shows "check_peer d t0 st = st"
  using assms by (simp add: check_peer_def phi_of_def next_status_def)

lemma partition_of_peers:
  assumes "hm_wf (pd_peers d)"
  shows "nid \<in> set (peers_with s d) \<longleftrightarrow> (\<exists>st. hm_get (pd_peers d) nid = Some st \<and> peer_status_of st = s)"
  by (force simp: peers_with_def hm_in_iff [OF assms, symmetric])

end
