(* ===== verification/Cluster.thy ===== *)
theory Cluster
  imports Ring Failure_Detector Metrics
begin

text \<open>
  Cluster membership, \<open>src/cluster.rs\<close>: the reconciler that runs every two seconds moves peers between
  the ring, the address book and the set of dead nodes. The gossip library is an input: the
  snapshot of the live members and their addresses.
\<close>

section \<open>State\<close>

record cluster_state =
  cl_ring :: hash_ring
  cl_addrs :: "(string, string) hmap"
  cl_dead_nodes :: "string hset"
  cl_self_node_id :: string
  cl_self_api_addr :: string
  cl_gossip_addr :: string
  cl_detector :: phi_accrual_detector

text \<open>
  \<open>parse\<close> is the parser of socket addresses, by the printed form of what it accepts; \<open>gossip_ok\<close> is
  whether the gossip library could start.
\<close>

datatype cluster_error = InvalidGossipAddr string | SpawnChitchatFailed

definition cluster_initial :: "string \<Rightarrow> cluster_config \<Rightarrow> string \<Rightarrow> string \<Rightarrow> cluster_state" where
  "cluster_initial nid config gossip forward_addr =
     \<lparr> cl_ring = add_node nid (ring_new (virtual_nodes config)),
       cl_addrs = hm_insert nid forward_addr [], cl_dead_nodes = [],
       cl_self_node_id = nid, cl_self_api_addr = forward_addr, cl_gossip_addr = gossip,
       cl_detector = pd_new (phi_threshold config) (phi_window_size config) (phi_min_std_dev_ms config) \<rparr>"

definition cluster_new ::
  "(string \<Rightarrow> string option) \<Rightarrow> bool \<Rightarrow> string \<Rightarrow> cluster_config \<Rightarrow> string \<Rightarrow> cluster_error + cluster_state" where
  "cluster_new parse gossip_ok nid config forward_addr =
     (case parse (gossip_addr config) of
        None \<Rightarrow> Inl (InvalidGossipAddr (gossip_addr config))
      | Some gossip \<Rightarrow>
          if \<not> gossip_ok then Inl SpawnChitchatFailed
          else Inr (cluster_initial nid config gossip forward_addr))"

section \<open>Lookups\<close>

definition cl_peer_status :: "cluster_state \<Rightarrow> string \<Rightarrow> peer_status" where
  "cl_peer_status cs nid =
     (case hm_get (peer_statuses (cl_detector cs)) nid of Some s \<Rightarrow> s | None \<Rightarrow> Alive)"

definition get_target_addr :: "cluster_state \<Rightarrow> f32 list \<Rightarrow> (string \<times> string) option" where
  "get_target_addr cs embedding =
     (case get_node_for_embedding embedding (cl_ring cs) of
        None \<Rightarrow> None
      | Some nid \<Rightarrow>
          (case hm_get (cl_addrs cs) nid of None \<Rightarrow> None | Some addr \<Rightarrow> Some (nid, addr)))"

definition replica_addr :: "cluster_state \<Rightarrow> string \<Rightarrow> string option" where
  "replica_addr cs nid =
     (if nid = cl_self_node_id cs then Some (cl_self_api_addr cs) else hm_get (cl_addrs cs) nid)"

definition get_replica_addrs :: "cluster_state \<Rightarrow> f32 list \<Rightarrow> nat \<Rightarrow> (string \<times> string) list" where
  "get_replica_addrs cs embedding rf =
     List.map_filter (\<lambda>nid. map_option (\<lambda>a. (nid, a)) (replica_addr cs nid))
       (get_n_nodes_for_embedding embedding rf (cl_ring cs))"

definition live_nodes :: "cluster_state \<Rightarrow> string list" where
  "live_nodes cs = nodes (cl_ring cs)"

definition ring_node_count :: "cluster_state \<Rightarrow> nat" where
  "ring_node_count cs = node_count (cl_ring cs)"

definition dead_nodes :: "cluster_state \<Rightarrow> string list" where
  "dead_nodes cs = sort (cl_dead_nodes cs)"

definition all_peer_addrs :: "cluster_state \<Rightarrow> (string \<times> string) list" where
  "all_peer_addrs cs = filter (\<lambda>(nid, _). nid \<noteq> cl_self_node_id cs) (cl_addrs cs)"

section \<open>Reconciliation\<close>

text \<open>The snapshot the reconciler takes of the gossip state: members that advertise an address, and itself.\<close>

definition chitchat_snapshot ::
  "(string \<times> string option) list \<Rightarrow> cluster_state \<Rightarrow> (string, string) hmap" where
  "chitchat_snapshot members cs =
     hm_insert (cl_self_node_id cs) (cl_self_api_addr cs)
       (fold (\<lambda>(nid, addr) m. case addr of None \<Rightarrow> m | Some a \<Rightarrow> hm_insert nid a m) members [])"

text \<open>Step 1: addresses.\<close>

definition reconcile_addrs :: "(string, string) hmap \<Rightarrow> cluster_state \<Rightarrow> cluster_state" where
  "reconcile_addrs snapshot cs =
     cs\<lparr> cl_addrs := hm_insert (cl_self_node_id cs) (cl_self_api_addr cs)
           (fold (\<lambda>(nid, addr). hm_insert nid addr) snapshot (cl_addrs cs)) \<rparr>"

text \<open>Step 2: a heartbeat, at its own instant, for every peer of the snapshot but this node.\<close>

definition reconcile_heartbeats ::
  "(string \<Rightarrow> nat) \<Rightarrow> (string, string) hmap \<Rightarrow> cluster_state \<Rightarrow> cluster_state" where
  "reconcile_heartbeats beat_time snapshot cs =
     cs\<lparr> cl_detector := fold (\<lambda>nid d. if nid \<noteq> cl_self_node_id cs
            then record_heartbeat_at nid (beat_time nid) d else d) (map fst snapshot) (cl_detector cs) \<rparr>"

text \<open>Step 3: members that are not in the ring join it, and leave the dead set.\<close>

definition to_add :: "(string, string) hmap \<Rightarrow> cluster_state \<Rightarrow> string list" where
  "to_add snapshot cs = filter (\<lambda>nid. nid \<notin> set (nodes (cl_ring cs))) (map fst snapshot)"

definition reconcile_joins ::
  "(string, string) hmap \<Rightarrow> cluster_state \<times> metrics \<Rightarrow> cluster_state \<times> metrics" where
  "reconcile_joins snapshot = (\<lambda>(cs, m).
     let joins = to_add snapshot cs
     in if joins \<noteq> []
        then (cs\<lparr> cl_ring := fold add_node joins (cl_ring cs),
                  cl_dead_nodes := fold removeAll joins (cl_dead_nodes cs) \<rparr>,
              fold (\<lambda>_. record_ring_change) joins m)
        else (cs, m))"

text \<open>Steps 4 and 5: the detector tick, then the removal of the peers it reports dead.\<close>

definition to_remove :: "(string, peer_status \<times> real) hmap \<Rightarrow> cluster_state \<Rightarrow> string list" where
  "to_remove statuses cs =
     map fst (filter (\<lambda>(nid, (s, _)). s = Dead \<and> nid \<in> set (nodes (cl_ring cs))) statuses)"

definition reconcile_removals ::
  "(string, peer_status \<times> real) hmap \<Rightarrow> cluster_state \<times> metrics \<Rightarrow> cluster_state \<times> metrics" where
  "reconcile_removals statuses = (\<lambda>(cs, m).
     let gone = to_remove statuses cs
     in if gone \<noteq> []
        then (cs\<lparr> cl_ring := fold remove_node gone (cl_ring cs),
                  cl_addrs := fold hm_remove gone (cl_addrs cs),
                  cl_dead_nodes := fold hs_insert gone (cl_dead_nodes cs) \<rparr>,
              fold (\<lambda>_. record_ring_change) gone m)
        else (cs, m))"

definition reconcile_step ::
  "(string, string) hmap \<Rightarrow> (string \<Rightarrow> nat) \<Rightarrow> nat \<Rightarrow> bool \<Rightarrow> cluster_state \<times> metrics \<Rightarrow>
   cluster_state \<times> metrics" where
  "reconcile_step snapshot beat_time check_time removal_enabled = (\<lambda>(cs, m).
     let cs2 = reconcile_heartbeats beat_time snapshot (reconcile_addrs snapshot cs);
         (cs3, m3) = reconcile_joins snapshot (cs2, m);
         (statuses, d') = check_all_at check_time (cl_detector cs3);
         cs4 = cs3\<lparr> cl_detector := d' \<rparr>
     in if removal_enabled then reconcile_removals statuses (cs4, m3) else (cs4, m3))"

section \<open>The invariant\<close>

text \<open>
  The node itself is never tracked by the detector; a dead node is not in the ring; every node of
  the ring has an address.
\<close>

definition cluster_inv :: "cluster_state \<Rightarrow> bool" where
  "cluster_inv cs \<longleftrightarrow> ring_inv (cl_ring cs) \<and> pd_inv (cl_detector cs) \<and> hm_wf (cl_addrs cs) \<and>
     hm_get (pd_peers (cl_detector cs)) (cl_self_node_id cs) = None \<and>
     hm_get (cl_addrs cs) (cl_self_node_id cs) \<noteq> None \<and>
     set (cl_dead_nodes cs) \<inter> set (nodes (cl_ring cs)) = {} \<and>
     (\<forall>nid \<in> set (nodes (cl_ring cs)). hm_get (cl_addrs cs) nid \<noteq> None)"

lemma nodes_new: "nodes (ring_new n) = []"
  by (simp add: nodes_def ring_new_def)

lemma cluster_inv_new: "cluster_inv (cluster_initial nid config gossip addr)"
proof -
  have "set (nodes (add_node nid (ring_new (virtual_nodes config)))) \<subseteq> {nid}"
    using nodes_add_node(2) [OF ring_inv_new, of _ nid] by (auto simp: nodes_new)
  then show ?thesis
    by (auto simp: cluster_inv_def cluster_initial_def ring_inv_add_node ring_inv_new pd_inv_new)
      (simp add: pd_new_def)
qed

lemma fold_add_nodes:
  assumes "ring_inv r"
  shows "ring_inv (fold add_node xs r) \<and> 
    set (nodes (fold add_node xs r)) \<subseteq> set xs \<union> set (nodes r)"
  using assms
proof (induction xs arbitrary: r)
  case (Cons x xs)
  have "set (nodes (add_node x r)) \<subseteq> insert x (set (nodes r))"
    using nodes_add_node(2) [OF Cons.prems, of _ x] by blast
  then show ?case using Cons.IH [OF ring_inv_add_node [OF Cons.prems, of x]] by auto
qed simp

lemma fold_remove_nodes:
  assumes "ring_inv r"
  shows "ring_inv (fold remove_node xs r) \<and> set (nodes (fold remove_node xs r)) \<subseteq> set (nodes r) - set xs"
  using assms
proof (induction xs arbitrary: r)
  case (Cons x xs)
  note IH = Cons.IH [OF ring_inv_remove_node [OF Cons.prems, of x]]
  have "x \<notin> set (nodes (remove_node x r))" "set (nodes (remove_node x r)) \<subseteq> set (nodes r)"
    using nodes_remove_node [OF Cons.prems] by auto
  then show ?case using IH by auto
qed simp

lemma fold_removeAll: "set (fold removeAll xs ys) = set ys - set xs"
  by (induction xs arbitrary: ys) auto

lemma fold_hs_insert: "set (fold List.insert xs ys) = set xs \<union> set ys"
  by (induction xs arbitrary: ys) auto

lemma fold_hm_insert:
  "hm_wf m \<Longrightarrow> hm_wf (fold (\<lambda>(k, v). AList.update k v) ps m)"
  "map_of (fold (\<lambda>(k, v). AList.update k v) ps m) k \<noteq> None \<longleftrightarrow> map_of m k \<noteq> None \<or> k \<in> fst ` set ps"
  by (induction ps arbitrary: m) auto

lemma fold_heartbeats:
  fixes bt :: "string \<Rightarrow> nat" and ids :: "string list"
  assumes "pd_inv d" "hm_get (pd_peers d) self = None"
  defines "d' \<equiv> fold (\<lambda>nid d. if nid \<noteq> self then record_heartbeat_at nid (bt nid) d else d) ids d"
  shows "pd_inv d' \<and> hm_get (pd_peers d') self = None \<and>
    (\<forall>nid \<in> set ids. nid \<noteq> self \<longrightarrow> (\<exists>st. hm_get (pd_peers d') nid = Some st \<and> peer_status_of st = Alive))"
  unfolding d'_def using assms(1,2)
proof (induction ids rule: rev_induct)
  case (snoc x xs)
  let ?d = "fold (\<lambda>nid d. if nid \<noteq> self then record_heartbeat_at nid (bt nid) d else d) xs d"
  note IH = snoc.IH [OF snoc.prems]
  show ?case
  proof (cases "x = self")
    case True
    then show ?thesis using IH by auto
  next
    case False
    have n: "nid = x \<or> hm_get (pd_peers (record_heartbeat_at x (bt x) ?d)) nid = hm_get (pd_peers ?d) nid" for nid
      using heartbeat_other [of nid x "bt x" ?d] by blast
    have "\<exists>st. hm_get (pd_peers (record_heartbeat_at x (bt x) ?d)) nid = Some st \<and> peer_status_of st = Alive"
      if "nid \<in> set (xs @ [x])" "nid \<noteq> self" for nid
      using that IH n [of nid] heartbeat_alive [of x "bt x" ?d] by (cases "nid = x") auto
    moreover have "hm_get (pd_peers (record_heartbeat_at x (bt x) ?d)) self = None"
      using IH heartbeat_other [of self x "bt x" ?d] False by simp
    moreover have "pd_inv (record_heartbeat_at x (bt x) ?d)" using IH pd_inv_heartbeat by blast
    ultimately show ?thesis using False by simp
  qed
qed simp

text \<open>Steps 1 and 2.\<close>

lemma reconcile_front:
  fixes bt :: "string \<Rightarrow> nat" and snap :: "(string, string) hmap"
  assumes inv: "cluster_inv cs"
  defines "cs2 \<equiv> reconcile_heartbeats bt snap (reconcile_addrs snap cs)"
  shows "cluster_inv cs2" "cl_self_node_id cs2 = cl_self_node_id cs" "cl_ring cs2 = cl_ring cs"
    "cl_dead_nodes cs2 = cl_dead_nodes cs"
    "\<And>nid. nid \<in> fst ` set snap \<Longrightarrow> hm_get (cl_addrs cs2) nid \<noteq> None"
    "\<And>nid. nid \<in> fst ` set snap \<Longrightarrow> nid \<noteq> cl_self_node_id cs \<Longrightarrow>
       \<exists>st. hm_get (pd_peers (cl_detector cs2)) nid = Some st \<and> peer_status_of st = Alive"
proof -
  have det: "pd_inv (cl_detector cs)" "hm_get (pd_peers (cl_detector cs)) (cl_self_node_id cs) = None"
    using inv by (simp_all add: cluster_inv_def)
  note H = fold_heartbeats [OF det, where ids = "map fst snap" and bt = bt]
  show same: "cl_self_node_id cs2 = cl_self_node_id cs" "cl_ring cs2 = cl_ring cs"
    "cl_dead_nodes cs2 = cl_dead_nodes cs"
    by (simp_all add: cs2_def reconcile_heartbeats_def reconcile_addrs_def)
  have ad: "hm_wf (cl_addrs cs2)" "hm_get (cl_addrs cs2) (cl_self_node_id cs) \<noteq> None"
    using inv by (simp_all add: cs2_def reconcile_heartbeats_def reconcile_addrs_def cluster_inv_def fold_hm_insert)
  have keep: "hm_get (cl_addrs cs2) nid \<noteq> None"
    if "hm_get (cl_addrs cs) nid \<noteq> None \<or> nid \<in> fst ` set snap" for nid
  proof -
    have "hm_get (fold (\<lambda>(nid, addr). hm_insert nid addr) snap (cl_addrs cs)) nid \<noteq> None"
      using that fold_hm_insert(2) [of snap "cl_addrs cs" nid] by blast
    then show ?thesis by (simp add: cs2_def reconcile_heartbeats_def reconcile_addrs_def)
  qed
  show "hm_get (cl_addrs cs2) nid \<noteq> None" if "nid \<in> fst ` set snap" for nid using keep that by blast
  have d2: "cl_detector cs2 = fold (\<lambda>nid d. if nid \<noteq> cl_self_node_id cs then record_heartbeat_at nid (bt nid) d else d)
      (map fst snap) (cl_detector cs)"
    by (simp add: cs2_def reconcile_heartbeats_def reconcile_addrs_def)
  show "\<exists>st. hm_get (pd_peers (cl_detector cs2)) nid = Some st \<and> peer_status_of st = Alive"
    if "nid \<in> fst ` set snap" "nid \<noteq> cl_self_node_id cs" for nid
    using H that unfolding d2 by auto
  show "cluster_inv cs2"
    using inv H ad keep unfolding cluster_inv_def same d2 [symmetric] by auto
qed

text \<open>Step 3.\<close>

lemma reconcile_joins_inv:
  assumes inv: "cluster_inv cs" and ad: "\<And>nid. nid \<in> fst ` set snap \<Longrightarrow> hm_get (cl_addrs cs) nid \<noteq> None"
    and j: "reconcile_joins snap (cs, m) = (cs', m')"
  shows "cluster_inv cs'" "cl_self_node_id cs' = cl_self_node_id cs" "cl_detector cs' = cl_detector cs"
    "cl_addrs cs' = cl_addrs cs"
proof -
  let ?j = "to_add snap cs"
  have ring: "ring_inv (fold add_node ?j (cl_ring cs))"
    "set (nodes (fold add_node ?j (cl_ring cs))) \<subseteq> set ?j \<union> set (nodes (cl_ring cs))"
    using fold_add_nodes [of "cl_ring cs" ?j] inv by (auto simp: cluster_inv_def)
  have cs': "cs' = cs \<or> cs' = cs\<lparr> cl_ring := fold add_node ?j (cl_ring cs),
      cl_dead_nodes := fold removeAll ?j (cl_dead_nodes cs) \<rparr>"
    using j by (auto simp: reconcile_joins_def Let_def split: if_splits)
  then show "cl_self_node_id cs' = cl_self_node_id cs" "cl_detector cs' = cl_detector cs"
    "cl_addrs cs' = cl_addrs cs" by auto
  have "set ?j \<subseteq> fst ` set snap" by (auto simp: to_add_def)
  then have "hm_get (cl_addrs cs) nid \<noteq> None" if "nid \<in> set ?j" for nid using ad that by blast
  moreover have N: "\<forall>nid \<in> set (nodes (cl_ring cs)). hm_get (cl_addrs cs) nid \<noteq> None"
    and D: "set (cl_dead_nodes cs) \<inter> set (nodes (cl_ring cs)) = {}"
    using inv unfolding cluster_inv_def by blast+
  ultimately have "\<forall>nid \<in> set (nodes (fold add_node ?j (cl_ring cs))). hm_get (cl_addrs cs) nid \<noteq> None"
    using ring(2) by blast
  moreover have "set (fold removeAll ?j (cl_dead_nodes cs)) \<inter> set (nodes (fold add_node ?j (cl_ring cs))) = {}"
    using ring(2) D unfolding fold_removeAll by blast
  ultimately show "cluster_inv cs'"
    using cs' inv ring(1) by (auto simp: cluster_inv_def)
qed

text \<open>Steps 4 and 5.\<close>

lemma check_inv:
  assumes "cluster_inv cs"
  shows "cluster_inv (cs\<lparr> cl_detector := snd (check_all_at t (cl_detector cs)) \<rparr>)"
  using assms by (simp add: cluster_inv_def pd_inv_check check_status)

lemma reconcile_removals_inv:
  assumes inv: "cluster_inv cs" and self: "hm_get statuses (cl_self_node_id cs) = None"
    and r: "reconcile_removals statuses (cs, m) = (cs', m')"
  shows "cluster_inv cs'" "cl_self_node_id cs' = cl_self_node_id cs" "cl_detector cs' = cl_detector cs"
    "set (nodes (cl_ring cs')) \<subseteq> set (nodes (cl_ring cs)) - set (to_remove statuses cs)"
proof -
  let ?g = "to_remove statuses cs"
  have ring: "ring_inv (fold remove_node ?g (cl_ring cs))"
    "set (nodes (fold remove_node ?g (cl_ring cs))) \<subseteq> set (nodes (cl_ring cs)) - set ?g"
    using fold_remove_nodes [of "cl_ring cs" ?g] inv by (auto simp: cluster_inv_def)
  have cs': "?g = [] \<and> cs' = cs \<or> cs' = cs\<lparr> cl_ring := fold remove_node ?g (cl_ring cs),
      cl_addrs := fold hm_remove ?g (cl_addrs cs), cl_dead_nodes := fold hs_insert ?g (cl_dead_nodes cs) \<rparr>"
    using r by (auto simp: reconcile_removals_def Let_def split: if_splits)
  then show "cl_self_node_id cs' = cl_self_node_id cs" "cl_detector cs' = cl_detector cs"
    "set (nodes (cl_ring cs')) \<subseteq> set (nodes (cl_ring cs)) - set ?g" using ring(2) by auto
  have wf: "hm_wf (cl_addrs cs)" using inv by (simp add: cluster_inv_def)
  have "cl_self_node_id cs \<notin> set ?g"
    using self by (auto simp: to_remove_def map_of_eq_None_iff image_iff)
  moreover have "hm_get (fold hm_remove ?g (cl_addrs cs)) nid = (if nid \<in> set ?g then None else hm_get (cl_addrs cs) nid)" for nid
    by (rule hm.get_del_all [OF wf])
  moreover have "hm_wf (fold hm_remove ?g (cl_addrs cs))" by (rule hm.wf_del_all [OF wf])
  moreover have N: "\<forall>nid \<in> set (nodes (cl_ring cs)). hm_get (cl_addrs cs) nid \<noteq> None"
    and D: "set (cl_dead_nodes cs) \<inter> set (nodes (cl_ring cs)) = {}"
    using inv unfolding cluster_inv_def by blast+
  moreover have "set (fold hs_insert ?g (cl_dead_nodes cs)) \<inter> set (nodes (fold remove_node ?g (cl_ring cs))) = {}"
    using ring(2) D unfolding fold_hs_insert by blast
  moreover have "\<forall>nid \<in> set (nodes (fold remove_node ?g (cl_ring cs))). hm_get (cl_addrs cs) nid \<noteq> None \<and> nid \<notin> set ?g"
    using ring(2) N by blast
  ultimately show "cluster_inv cs'"
    using cs' inv ring(1) by (auto simp: cluster_inv_def)
qed

lemma statuses_get:
  "hm_get (fst (check_all_at t d)) nid =
     map_option (\<lambda>st. (peer_status_of (check_peer d t st), phi_of d t st)) (hm_get (pd_peers d) nid)"
  by (simp add: check_all_at_def)

lemma reconcile_step_inv:
  assumes inv: "cluster_inv cs" and step: "reconcile_step snap bt ct removal (cs, m) = (cs', m')"
  shows "cluster_inv cs'" "cl_self_node_id cs' = cl_self_node_id cs"
proof -
  let ?cs2 = "reconcile_heartbeats bt snap (reconcile_addrs snap cs)"
  note F = reconcile_front [OF inv, where bt = bt and snap = snap]
  obtain cs3 m3 where j: "reconcile_joins snap (?cs2, m) = (cs3, m3)" by (cases "reconcile_joins snap (?cs2, m)")
  note J = reconcile_joins_inv [OF F(1) F(5) j]
  obtain sts d4 where c: "check_all_at ct (cl_detector cs3) = (sts, d4)" by (cases "check_all_at ct (cl_detector cs3)")
  let ?cs4 = "cs3\<lparr> cl_detector := d4 \<rparr>"
  have C: "cluster_inv ?cs4" using check_inv [OF J(1), of ct] c by simp
  have "hm_get sts (cl_self_node_id ?cs4) = None"
    using J(1) statuses_get [of ct "cl_detector cs3"] c by (simp add: cluster_inv_def)
  note R = reconcile_removals_inv [OF C this]
  have "(if removal then reconcile_removals sts (?cs4, m3) else (?cs4, m3)) = (cs', m')"
    using step j c by (simp add: reconcile_step_def Let_def)
  then show "cluster_inv cs'" "cl_self_node_id cs' = cl_self_node_id cs"
    using R C J(2) F(2) by (auto split: if_splits)
qed

text \<open>
  What one step does to the ring: the nodes that leave it were reported dead by the detector, and
  none of them is this node or a member of the current snapshot.
\<close>

lemma reconcile_removed:
  assumes inv: "cluster_inv cs" and step: "reconcile_step snap bt ct removal (cs, m) = (cs', m')"
    and dead: "nid \<in> set (cl_dead_nodes cs')" "nid \<notin> set (cl_dead_nodes cs)"
  shows "removal \<and> nid \<noteq> cl_self_node_id cs \<and> nid \<notin> fst ` set snap \<and>
    (\<exists>st. hm_get (pd_peers (cl_detector cs')) nid = Some st \<and> peer_status_of st = Dead)"
proof -
  let ?cs2 = "reconcile_heartbeats bt snap (reconcile_addrs snap cs)"
  note F = reconcile_front [OF inv, where bt = bt and snap = snap]
  obtain cs3 m3 where j: "reconcile_joins snap (?cs2, m) = (cs3, m3)" by (cases "reconcile_joins snap (?cs2, m)")
  note J = reconcile_joins_inv [OF F(1) F(5) j]
  have d3: "set (cl_dead_nodes cs3) \<subseteq> set (cl_dead_nodes cs)"
    using j F(4) by (auto simp: reconcile_joins_def Let_def fold_removeAll split: if_splits)
  obtain sts d4 where c: "check_all_at ct (cl_detector cs3) = (sts, d4)" by (cases "check_all_at ct (cl_detector cs3)")
  have end_eq: "(if removal then reconcile_removals sts (cs3\<lparr> cl_detector := d4 \<rparr>, m3) else (cs3\<lparr> cl_detector := d4 \<rparr>, m3)) = (cs', m')"
    using step j c by (simp add: reconcile_step_def Let_def)
  have rem: "removal" and gone: "nid \<in> set (to_remove sts (cs3\<lparr> cl_detector := d4 \<rparr>))"
    using end_eq dead d3 by (auto simp: reconcile_removals_def Let_def fold_hs_insert split: if_splits)
  have det': "cl_detector cs' = d4"
    using end_eq by (auto simp: reconcile_removals_def Let_def split: if_splits)
  have sts: "sts = AList.map_ran (\<lambda>_ st. (peer_status_of (check_peer (cl_detector cs3) ct st), phi_of (cl_detector cs3) ct st)) (pd_peers (cl_detector cs3))"
    and d4: "d4 = snd (check_all_at ct (cl_detector cs3))"
    using c by (simp_all add: check_all_at_def)
  have wf: "hm_wf (pd_peers (cl_detector cs3))" using J(1) by (simp add: cluster_inv_def pd_inv_def)
  from gone obtain st where st: "hm_get (pd_peers (cl_detector cs3)) nid = Some st"
      "peer_status_of (check_peer (cl_detector cs3) ct st) = Dead"
    by (auto simp: to_remove_def sts set_map_ran hm_in_iff [OF wf])
  have self: "nid \<noteq> cl_self_node_id cs" using st(1) J(1,2) F(2) by (auto simp: cluster_inv_def)
  have "nid \<notin> fst ` set snap"
  proof
    assume "nid \<in> fst ` set snap"
    from F(6) [OF this self] st(1) J(3) have "peer_status_of st = Alive" by auto
    with st(2) show False by (auto simp: check_peer_def next_status_def split: if_splits)
  qed
  moreover have "\<exists>st. hm_get (pd_peers (cl_detector cs')) nid = Some st \<and> peer_status_of st = Dead"
    using st by (simp add: det' d4 check_status)
  ultimately show ?thesis using rem self by blast
qed

text \<open>Routing never dead-ends: every node the ring returns has an address.\<close>

lemma get_target_addr_total:
  assumes "cluster_inv cs" "nodes (cl_ring cs) \<noteq> []"
  shows "\<exists>nid addr. get_target_addr cs emb = Some (nid, addr) \<and> nid \<in> set (nodes (cl_ring cs))"
proof -
  have "node_count (cl_ring cs) \<noteq> 0" using assms(2) by (simp add: node_count_def)
  then obtain x xs where x: "get_n_nodes (embedding_to_key emb) 1 (cl_ring cs) = x # xs" "x \<in> set (nodes (cl_ring cs))"
    using get_n_nodes_props [of "embedding_to_key emb" 1 "cl_ring cs"]
    by (cases "get_n_nodes (embedding_to_key emb) 1 (cl_ring cs)") auto
  then have "get_node_for_embedding emb (cl_ring cs) = Some x"
    using get_n_nodes_head [of 1 "embedding_to_key emb" "cl_ring cs"] by (simp add: get_node_for_embedding_def)
  moreover obtain a where "hm_get (cl_addrs cs) x = Some a" using assms(1) x(2) by (auto simp: cluster_inv_def)
  ultimately show ?thesis using x(2) by (simp add: get_target_addr_def)
qed

lemma map_filter_all: "(\<And>x. x \<in> set xs \<Longrightarrow> f x \<noteq> None) \<Longrightarrow> List.map_filter f xs = map (the \<circ> f) xs"
  by (induction xs) (auto simp: List.map_filter_def)

lemma get_replica_addrs_nodes:
  assumes "cluster_inv cs"
  shows "map fst (get_replica_addrs cs emb rf) = get_n_nodes_for_embedding emb rf (cl_ring cs)"
proof -
  have "replica_addr cs nid \<noteq> None" if "nid \<in> set (get_n_nodes_for_embedding emb rf (cl_ring cs))" for nid
    using that get_n_nodes_props [of "embedding_to_key emb" rf "cl_ring cs"] assms
    by (auto simp: replica_addr_def get_n_nodes_for_embedding_def cluster_inv_def)
  then have "get_replica_addrs cs emb rf =
      map (the \<circ> (\<lambda>nid. map_option (\<lambda>a. (nid, a)) (replica_addr cs nid))) (get_n_nodes_for_embedding emb rf (cl_ring cs))"
    unfolding get_replica_addrs_def by (intro map_filter_all) simp
  moreover have "fst (the (map_option (\<lambda>a. (nid, a)) (replica_addr cs nid))) = nid"
    if "nid \<in> set (get_n_nodes_for_embedding emb rf (cl_ring cs))" for nid
    using \<open>\<And>nid. nid \<in> set (get_n_nodes_for_embedding emb rf (cl_ring cs)) \<Longrightarrow> replica_addr cs nid \<noteq> None\<close> [OF that]
    by auto
  ultimately show ?thesis by (simp add: comp_def map_idI)
qed

section \<open>One tick of the reconciler\<close>

text \<open>The snapshot of the gossip state, then the step.\<close>

definition reconcile_tick ::
  "(string \<times> string option) list \<Rightarrow> (string \<Rightarrow> nat) \<Rightarrow> nat \<Rightarrow> bool \<Rightarrow> cluster_state \<times> metrics \<Rightarrow> cluster_state \<times> metrics" where
  "reconcile_tick members bt ct removal st = reconcile_step (chitchat_snapshot members (fst st)) bt ct removal st"

section \<open>The reconciler as a state machine\<close>

inductive cluster_step :: "cluster_state \<Rightarrow> cluster_state \<Rightarrow> bool" where
  reconcile: "reconcile_step snap bt ct removal (cs, m) = (cs', m') \<Longrightarrow> cluster_step cs cs'"

interpretation membership: step_invariant "\<lambda>cs. \<exists>nid config gossip addr. cs = cluster_initial nid config gossip addr" cluster_step cluster_inv
proof
  show "cluster_inv cs" if "\<exists>nid config gossip addr. cs = cluster_initial nid config gossip addr" for cs
    using that cluster_inv_new by blast
  show "cluster_inv cs'" if "cluster_step cs cs'" "cluster_inv cs" for cs cs'
    using that by (cases rule: cluster_step.cases) (rule reconcile_step_inv(1))
qed

lemma tick_steps: "cluster_step cs (fst (reconcile_tick members bt ct removal (cs, m)))"
  unfolding reconcile_tick_def
  using cluster_step.reconcile [of "chitchat_snapshot members cs" bt ct removal cs m] by (metis fst_conv prod.collapse)

end
