(* ===== verification/Models.thy ===== *)
theory Models
  imports Cluster Semantic_Index
begin

text \<open>
  The request and response bodies of \<open>src/models.rs\<close>, and the errors a client can see.
\<close>

record query_request =
  qr_embedding :: "f32 list"
  qr_threshold :: f32
  qr_model_id :: "string option"
  qr_query_text :: "string option"
  qr_cache_scope :: "string option"
  qr_conversation_id :: "string option"

record query_response =
  qp_hit :: bool
  qp_id :: "string option"
  qp_response :: "string option"
  qp_similarity :: "flt option"
  qp_exact_match :: "bool option"
  qp_scope :: "string option"

record insert_request =
  ir_embedding :: "f32 list"
  ir_response :: string
  ir_query_text :: string
  ir_model_id :: "string option"
  ir_uuid :: "string option"
  ir_ttl_seconds :: "u64 option"
  ir_cache_scope :: "string option"
  ir_conversation_id :: "string option"

record insert_response =
  ip_id :: string
  ip_status :: string

record full_entry_response =
  fr_uuid :: string
  fr_embedding :: "f32 list"
  fr_response :: string
  fr_query_text :: string
  fr_model_id :: string
  fr_inserted_at :: u64
  fr_last_accessed_at :: u64
  fr_access_count :: u64
  fr_expires_at :: "u64 option"

record read_repair_request =
  rr_uuid :: string
  rr_embedding :: "f32 list"
  rr_response :: string
  rr_query_text :: string
  rr_model_id :: string

record read_repair_response =
  rp_status :: string
  rp_repaired :: bool

record invalidate_request =
  vr_embedding :: "f32 list"
  vr_threshold :: f32
  vr_model_id :: "string option"
  vr_cache_scope :: "string option"

record invalidate_response =
  vp_invalidated_count :: nat
  vp_uuids :: "string list"

record health_response =
  hp_status :: string
  hp_node_id :: string
  hp_entry_count :: nat

record counters_response =
  cp_queries_total :: u64
  cp_queries_hit :: u64
  cp_queries_miss :: u64
  cp_hit_rate :: real
  cp_inserts_total :: u64
  cp_replication_forwards :: u64
  cp_replication_failures :: u64
  cp_replication_retries :: u64
  cp_compactions :: u64
  cp_read_repairs :: u64
  cp_read_repair_failures :: u64
  cp_evictions_total :: u64
  cp_index_rebuilds :: u64
  cp_expirations_total :: u64
  cp_deletions_total :: u64
  cp_invalidations_total :: u64
  cp_exact_match_hits_total :: u64

record stats_hnsw =
  sh_max_nb_connection :: nat
  sh_ef_construction :: nat
  sh_ef_search :: nat
  sh_dimension :: "nat option"

record top_entry_row =
  tr_uuid :: string
  tr_access_count :: u64
  tr_last_accessed_at :: u64
  tr_query_text_preview :: string

record namespace_top_entries =
  nt_top_entries :: "top_entry_row list"

record entry_stats_response =
  es_namespaces :: "(string, namespace_top_entries) hmap"

record namespace_stats_entry =
  ne_entry_count :: nat
  ne_dimension :: "nat option"
  ne_oldest_entry_ts :: u64
  ne_newest_entry_ts :: u64
  ne_total_accesses :: u64
  ne_evicted_ghost_count :: nat

record stats_response =
  sr_entry_count :: nat
  sr_wal_path :: string
  sr_hnsw :: stats_hnsw
  sr_namespaces :: "(string, namespace_stats_entry) hmap"
  sr_counters :: counters_response

record compact_response =
  kp_status :: string
  kp_entries_snapshotted :: nat
  kp_wal_sequence :: u64

record peer_health =
  ph_status :: peer_status
  ph_phi :: real

record cluster_status_response =
  zp_mode :: string
  zp_self_node_id :: string
  zp_gossip_addr :: "string option"
  zp_nodes :: "string list"
  zp_node_count :: nat
  zp_peer_health :: "(string, peer_health) hmap"
  zp_dead_nodes :: "string list"
  zp_read_repair_enabled :: bool

text \<open>The text of an \<open>ErrorResponse\<close>, by what it reports.\<close>

datatype error_msg =
  EmbeddingEmpty | EmbeddingTooLong nat | ModelIdRequired | UuidRequired
  | ThresholdOutOfRange f32 | ResponseTooLong nat | IndexMessage index_error
  | PersistenceFailed | CompactionFailed | EntryNotFound | UpstreamUnavailable | UnauthorizedMsg

datatype body =
  ErrorBody error_msg | QueryBody query_response | InsertBody insert_response
  | FullEntryBody full_entry_response | ReadRepairBody read_repair_response | DeleteBody bool
  | InvalidateBody invalidate_response | CompactBody compact_response
  | HealthBody health_response | StatsBody stats_response | EntryStatsBody entry_stats_response
  | ClusterStatusBody cluster_status_response | MetricsBody string | EmptyBody

record response =
  status_code :: nat
  resp_body :: body

definition error_response :: "nat \<Rightarrow> error_msg \<Rightarrow> response" where
  "error_response code msg = \<lparr> status_code = code, resp_body = ErrorBody msg \<rparr>"

definition ok_response :: "body \<Rightarrow> response" where
  "ok_response b = \<lparr> status_code = 200, resp_body = b \<rparr>"

definition miss_response :: query_response where
  "miss_response = \<lparr> qp_hit = False, qp_id = None, qp_response = None, qp_similarity = None,
     qp_exact_match = None, qp_scope = None \<rparr>"

end
