(* ===== verification/Auth.thy ===== *)
theory Auth
  imports Models
begin

text \<open>
  The bearer-token middleware of \<open>src/auth.rs\<close> and its installation by \<open>build_router\<close> of
  \<open>src/server.rs\<close>. \<open>to_str\<close> is the header library's conversion of a header value to text
  and \<open>ct_eq\<close> the constant-time comparison of the crypto library.
\<close>

definition is_exempt :: "string \<Rightarrow> bool" where
  "is_exempt path \<longleftrightarrow> path = ''/health'' \<or> path = ''/metrics''"

datatype gate = PassOn | Reject response

definition unauthorized :: response where
  "unauthorized = error_response 401 UnauthorizedMsg"

definition auth_middleware ::
  "(string \<Rightarrow> string \<Rightarrow> bool) \<Rightarrow> (string \<Rightarrow> string option) \<Rightarrow> string \<Rightarrow> string \<Rightarrow> string option \<Rightarrow> gate" where
  "auth_middleware ct_eq to_str token path header =
     (if is_exempt path then PassOn
      else case (case header of None \<Rightarrow> None | Some v \<Rightarrow> to_str v) of
             None \<Rightarrow> Reject unauthorized
           | Some v \<Rightarrow>
               (case strip_prefix ''Bearer '' v of
                  None \<Rightarrow> Reject unauthorized
                | Some provided \<Rightarrow>
                    if length token \<noteq> length provided \<or> \<not> ct_eq token provided
                    then Reject unauthorized else PassOn))"

text \<open>The layer is installed only for a token that is set and not empty.\<close>

definition auth_layer ::
  "(string \<Rightarrow> string \<Rightarrow> bool) \<Rightarrow> (string \<Rightarrow> string option) \<Rightarrow> string option \<Rightarrow> string \<Rightarrow> string option \<Rightarrow> gate" where
  "auth_layer ct_eq to_str token path header =
     (case token of
        Some t \<Rightarrow> if t \<noteq> [] then auth_middleware ct_eq to_str t path header else PassOn
      | None \<Rightarrow> PassOn)"

text \<open>The constant-time comparison decides equality of byte strings of the same length.\<close>

definition ct_eq_law :: "(string \<Rightarrow> string \<Rightarrow> bool) \<Rightarrow> bool" where
  "ct_eq_law ct_eq \<longleftrightarrow> (\<forall>a b. length a = length b \<longrightarrow> ct_eq a b = (a = b))"

lemma auth_middleware_pass:
  assumes "ct_eq_law ct_eq"
  shows "auth_middleware ct_eq to_str token path header = PassOn \<longleftrightarrow>
     is_exempt path \<or> (\<exists>v. header = Some v \<and> to_str v = Some (''Bearer '' @ token))"
proof (cases "case header of None \<Rightarrow> None | Some v \<Rightarrow> to_str v")
  case None
  then show ?thesis by (auto simp: auth_middleware_def split: option.splits)
next
  case (Some v)
  then have h: "(\<exists>w. header = Some w \<and> to_str w = Some (''Bearer '' @ token)) \<longleftrightarrow> v = ''Bearer '' @ token"
    by (auto split: option.splits)
  show ?thesis
  proof (cases "strip_prefix ''Bearer '' v")
    case None
    then have "v \<noteq> ''Bearer '' @ token" using strip_prefix_iff [of "''Bearer ''" v token] by simp
    then show ?thesis using Some None unfolding h by (simp add: auth_middleware_def)
  next
    case (Some t)
    then have "v = ''Bearer '' @ t" using strip_prefix_iff by blast
    then show ?thesis using \<open>(case header of None \<Rightarrow> None | Some v \<Rightarrow> to_str v) = Some v\<close> Some unfolding h
      using assms by (cases "length token = length t") (auto simp: auth_middleware_def ct_eq_law_def)
  qed
qed

lemma auth_middleware_reject:
  "auth_middleware ct_eq to_str token path header \<noteq> PassOn \<Longrightarrow>
     auth_middleware ct_eq to_str token path header = Reject unauthorized"
  by (auto simp: auth_middleware_def split: option.splits if_splits)

lemma auth_layer_reject:
  assumes "auth_layer ct_eq to_str token path header = Reject r"
  shows "r = unauthorized"
proof (cases token)
  case None
  then show ?thesis using assms by (simp add: auth_layer_def)
next
  case (Some t)
  then show ?thesis using assms auth_middleware_reject [of ct_eq to_str t path header]
    by (cases "t = []") (simp_all add: auth_layer_def)
qed

end
