(* ===== verification/Router.thy ===== *)
theory Router
  imports Models
begin

text \<open>
  Forwarding to peers, \<open>src/router.rs\<close>. The network is a parameter: what a request answers at each
  attempt, a transport error or a status with a body that may fail to decode. The random jitter is
  a parameter too.
\<close>

section \<open>Errors and delays\<close>

record req_error =
  re_connect :: bool
  re_timeout :: bool
  re_status :: "nat option"

definition is_retryable :: "req_error \<Rightarrow> bool" where
  "is_retryable e =
     (if re_connect e \<or> re_timeout e then True
      else case re_status e of None \<Rightarrow> False | Some s \<Rightarrow> 500 \<le> s \<and> s < 600)"

definition MAX_RETRY_DELAY_MS :: u64 where "MAX_RETRY_DELAY_MS = 5000"

text \<open>\<open>50u64.checked_shl(shift)\<close>: \<open>None\<close> when the shift is 64 or more; the bits shifted out are lost.\<close>

definition checked_shl :: "u64 \<Rightarrow> nat \<Rightarrow> u64 option" where
  "checked_shl x shift = (if shift < 64 then Some (push_bit shift x) else None)"

definition retry_base_ms :: "nat \<Rightarrow> u64" where
  "retry_base_ms attempt =
     (let shift = attempt mod 2 ^ 32 - 1
      in min (case checked_shl 50 shift of Some b \<Rightarrow> b | None \<Rightarrow> MAX_RETRY_DELAY_MS) MAX_RETRY_DELAY_MS)"

text \<open>\<open>gen\<close> draws from the inclusive range it is given.\<close>

definition compute_retry_delay :: "(int \<Rightarrow> int \<Rightarrow> int) \<Rightarrow> nat \<Rightarrow> nat" where
  "compute_retry_delay gen attempt =
     (let base_ms = uint (retry_base_ms attempt);
          jitter_ms = base_ms * 2 div 10;
          signed_jitter = (if jitter_ms > 0 then gen (- jitter_ms) jitter_ms else 0)
      in nat (max (base_ms + signed_jitter) 1))"

section \<open>Retrying\<close>

datatype forward_error = Permanent req_error | Exhausted req_error

text \<open>
  The loop from \<open>attempt\<close> with \<open>left\<close> attempts left and the last error: the result and the sleeps.
\<close>

fun retry_loop ::
  "(int \<Rightarrow> int \<Rightarrow> int) \<Rightarrow> (nat \<Rightarrow> req_error + 'a) \<Rightarrow> nat \<Rightarrow> nat \<Rightarrow> req_error \<Rightarrow>
   (forward_error + 'a) \<times> nat list" where
  "retry_loop gen make_request attempt 0 last_err = (Inl (Exhausted last_err), [])"
| "retry_loop gen make_request attempt (Suc left) last_err =
     (let delays = (if attempt > 0 then [compute_retry_delay gen attempt] else [])
      in case make_request attempt of
           Inr v \<Rightarrow> (Inr v, delays)
         | Inl e \<Rightarrow>
             if is_retryable e
             then let (r, ds) = retry_loop gen make_request (Suc attempt) left e in (r, delays @ ds)
             else (Inl (Permanent e), delays))"

text \<open>The initial error is never reported: at least one attempt is made.\<close>

definition no_error :: req_error where
  "no_error = \<lparr> re_connect = False, re_timeout = False, re_status = None \<rparr>"

definition forward_with_retry ::
  "(int \<Rightarrow> int \<Rightarrow> int) \<Rightarrow> nat \<Rightarrow> (nat \<Rightarrow> req_error + 'a) \<Rightarrow> metrics \<Rightarrow>
   (forward_error + 'a) \<times> nat list \<times> metrics" where
  "forward_with_retry gen max_retries make_request m =
     (let total = min (max_retries + 1) (2 ^ 64 - 1);
          (r, ds) = retry_loop gen make_request 0 total no_error
      in (r, ds, fold (\<lambda>_. record_replication_retry) ds m))"

section \<open>Requests\<close>

record cluster_router =
  ro_auth_token :: "string option"
  ro_tls_enabled :: bool

definition scheme :: "cluster_router \<Rightarrow> string" where
  "scheme r = (if ro_tls_enabled r then ''https'' else ''http'')"

definition with_auth :: "cluster_router \<Rightarrow> string option" where
  "with_auth r = map_option (\<lambda>t. ''Bearer '' @ t) (ro_auth_token r)"

datatype out_body = QueryOut query_request | InsertOut insert_request | InvalidateOut invalidate_request | NoBody

record http_out =
  ho_method :: string
  ho_url :: string
  ho_authorization :: "string option"
  ho_body :: out_body

type_synonym 'b net = "http_out \<Rightarrow> nat \<Rightarrow> req_error + nat \<times> 'b option"

text \<open>The network that answers nothing.\<close>

definition no_net :: "'b net" where "no_net r n = Inl no_error"

definition status_error :: "nat \<Rightarrow> req_error" where
  "status_error s = \<lparr> re_connect = False, re_timeout = False, re_status = Some s \<rparr>"

text \<open>\<open>send\<close>, \<open>error_for_status\<close>, \<open>json\<close>.\<close>

definition decode_reply :: "req_error + nat \<times> 'b option \<Rightarrow> req_error + 'b" where
  "decode_reply r =
     (case r of
        Inl e \<Rightarrow> Inl e
      | Inr (status, b) \<Rightarrow>
          if 400 \<le> status \<and> status < 600 then Inl (status_error status)
          else (case b of None \<Rightarrow> Inl no_error | Some v \<Rightarrow> Inr v))"

definition out_request :: "cluster_router \<Rightarrow> string \<Rightarrow> string \<Rightarrow> string \<Rightarrow> out_body \<Rightarrow> http_out" where
  "out_request r method target_addr path b =
     \<lparr> ho_method = method, ho_url = scheme r @ ''://'' @ target_addr @ path,
       ho_authorization = with_auth r, ho_body = b \<rparr>"

definition router_forward_query ::
  "query_response net \<Rightarrow> cluster_router \<Rightarrow> string \<Rightarrow> query_request \<Rightarrow> nat \<Rightarrow> req_error + query_response" where
  "router_forward_query net r target_addr req n =
     decode_reply (net (out_request r ''POST'' target_addr ''/query?local=true&repair=true'' (QueryOut req)) n)"

definition forward_query_no_repair ::
  "query_response net \<Rightarrow> cluster_router \<Rightarrow> string \<Rightarrow> query_request \<Rightarrow> req_error + query_response" where
  "forward_query_no_repair net r target_addr req =
     decode_reply (net (out_request r ''POST'' target_addr ''/query?local=true&repair=false'' (QueryOut req)) 0)"

definition forward_get_entry ::
  "full_entry_response net \<Rightarrow> cluster_router \<Rightarrow> string \<Rightarrow> string \<Rightarrow> req_error + full_entry_response option" where
  "forward_get_entry net r target_addr uuid =
     (let reply = net (out_request r ''GET'' target_addr (''/internal/entry/'' @ uuid @ ''?local=true'') NoBody) 0
      in case reply of
           Inl e \<Rightarrow> Inl e
         | Inr (status, _) \<Rightarrow>
             if status = 404 then Inr None
             else (case decode_reply reply of Inl e \<Rightarrow> Inl e | Inr v \<Rightarrow> Inr (Some v)))"

definition delete_out :: "cluster_router \<Rightarrow> string \<Rightarrow> string \<Rightarrow> http_out" where
  "delete_out r target_addr uuid =
     out_request r ''DELETE'' target_addr (''/entry/'' @ uuid @ ''?local=true'') NoBody"

definition forward_delete_entry ::
  "unit net \<Rightarrow> cluster_router \<Rightarrow> string \<Rightarrow> string \<Rightarrow> req_error + nat" where
  "forward_delete_entry net r target_addr uuid =
     (case net (delete_out r target_addr uuid) 0 of
        Inl e \<Rightarrow> Inl e
      | Inr (status, _) \<Rightarrow> Inr status)"

definition invalidate_out :: "cluster_router \<Rightarrow> string \<Rightarrow> invalidate_request \<Rightarrow> http_out" where
  "invalidate_out r target_addr req =
     out_request r ''POST'' target_addr ''/admin/invalidate?local=true'' (InvalidateOut req)"

definition forward_invalidate ::
  "invalidate_response net \<Rightarrow> cluster_router \<Rightarrow> string \<Rightarrow> invalidate_request \<Rightarrow> req_error + invalidate_response" where
  "forward_invalidate net r target_addr req = decode_reply (net (invalidate_out r target_addr req) 0)"

definition forward_insert ::
  "insert_response net \<Rightarrow> cluster_router \<Rightarrow> string \<Rightarrow> insert_request \<Rightarrow> nat \<Rightarrow> req_error + insert_response" where
  "forward_insert net r target_addr req n =
     decode_reply (net (out_request r ''POST'' target_addr ''/insert?local=true'' (InsertOut req)) n)"

section \<open>Correctness\<close>

lemma retry_base_bounds: "uint (retry_base_ms attempt) \<le> 5000"
proof -
  have "retry_base_ms attempt \<le> MAX_RETRY_DELAY_MS" by (simp add: retry_base_ms_def Let_def)
  then show ?thesis by (simp add: MAX_RETRY_DELAY_MS_def word_le_def)
qed

text \<open>Every sleep is between one millisecond and six seconds.\<close>

lemma retry_delay_bounds:
  assumes "\<And>lo hi. lo \<le> hi \<Longrightarrow> lo \<le> gen lo hi \<and> gen lo hi \<le> hi"
  shows "1 \<le> compute_retry_delay gen attempt \<and> compute_retry_delay gen attempt \<le> 6000"
proof -
  let ?b = "uint (retry_base_ms attempt)"
  have b: "0 \<le> ?b" "?b \<le> 5000" using retry_base_bounds by simp_all
  have "gen (- (?b * 2 div 10)) (?b * 2 div 10) \<le> 1000" if "?b * 2 div 10 > 0"
    using assms [of "- (?b * 2 div 10)" "?b * 2 div 10"] that b by linarith
  then show ?thesis using b by (auto simp: compute_retry_delay_def Let_def)
qed

text \<open>
  The attempts stop at the first that succeeds or fails for good, or when they run out; every
  attempt before the last failed in a way that is retried.
\<close>

definition retry_outcome :: "(nat \<Rightarrow> req_error + 'a) \<Rightarrow> nat \<Rightarrow> nat \<Rightarrow> nat \<Rightarrow> forward_error + 'a \<Rightarrow> bool" where
  "retry_outcome f a left k r \<longleftrightarrow>
     k < left \<and> (\<forall>j < k. \<exists>e. f (a + j) = Inl e \<and> is_retryable e) \<and>
     (case r of
        Inr v \<Rightarrow> f (a + k) = Inr v
      | Inl (Permanent e) \<Rightarrow> f (a + k) = Inl e \<and> \<not> is_retryable e
      | Inl (Exhausted e) \<Rightarrow> Suc k = left \<and> f (a + k) = Inl e \<and> is_retryable e)"

lemma retry_outcome_Suc:
  assumes "f a = Inl e" "is_retryable e" "retry_outcome f (Suc a) left k r"
  shows "retry_outcome f a (Suc left) (Suc k) r"
proof -
  have "\<exists>e. f (a + j) = Inl e \<and> is_retryable e" if "j < Suc k" for j
    using assms that by (cases j) (auto simp: retry_outcome_def)
  then show ?thesis using assms(3) by (simp add: retry_outcome_def split: sum.splits forward_error.splits)
qed

lemma retry_loop_outcome:
  assumes "0 < left"
  shows "\<exists>k. retry_outcome f a left k (fst (retry_loop gen f a left e0)) \<and>
    length (snd (retry_loop gen f a left e0)) = (if a = 0 then k else Suc k)"
  using assms
proof (induction left arbitrary: a e0)
  case (Suc left)
  show ?case
  proof (cases "f a")
    case (Inr v)
    then show ?thesis by (intro exI [of _ 0]) (simp add: retry_outcome_def)
  next
    case (Inl e)
    show ?thesis
    proof (cases "is_retryable e \<and> left \<noteq> 0")
      case True
      then obtain k where k: "retry_outcome f (Suc a) left k (fst (retry_loop gen f (Suc a) left e))"
          "length (snd (retry_loop gen f (Suc a) left e)) = Suc k"
        using Suc.IH [of "Suc a" e] by auto
      have "retry_outcome f a (Suc left) (Suc k) (fst (retry_loop gen f (Suc a) left e))"
        using retry_outcome_Suc [OF Inl _ k(1)] True by blast
      then show ?thesis using Inl True k(2) by (intro exI [of _ "Suc k"]) (simp add: split_beta)
    next
      case False
      then show ?thesis using Inl by (intro exI [of _ 0]) (auto simp: retry_outcome_def)
    qed
  qed
qed simp

text \<open>Every sleep is a delay of the backoff.\<close>

lemma retry_loop_delays:
  assumes "d \<in> set (snd (retry_loop gen f a left e0))"
  shows "\<exists>k. d = compute_retry_delay gen k"
  using assms
  by (induction gen f a left e0 rule: retry_loop.induct) (auto simp: Let_def split: sum.splits prod.splits if_splits)

end
