(* ===== verification/Cluster_Properties.thy ===== *)
theory Cluster_Properties
  imports Auth Router
begin

text \<open>
  What the ring, the failure detector, the membership reconciler, the router, the authentication layer
  and the counters promise.
\<close>

section \<open>The hash ring\<close>

definition ring_ab :: hash_ring where "ring_ab = add_node ''b'' (add_node ''a'' (ring_new 1))"

lemma show_zero: "show_nat 0 = ''0''"
  by code_simp

lemma vnode_pos_ab:
  "vnode_pos ''a'' 0 = 16580676136240137209" "vnode_pos ''b'' 0 = 18405343170562580984"
  by (simp_all add: show_zero vnode_pos_def vnode_label_def as_bytes_def fnv1a_hash_def FNV_PRIME_def
      FNV_OFFSET_BASIS_def)

lemma ring_ab_eq:
  "ring ring_ab = [(16580676136240137209, ''a''), (18405343170562580984, ''b'')]" "ring_virtual_nodes ring_ab = 1"
  by (simp_all add: ring_ab_def add_node_def ring_new_def vnode_pos_ab)

lemma ring_ab_inv: "ring_inv ring_ab"
  by (simp add: ring_ab_def ring_inv_add_node ring_inv_new)

text \<open>C26. The replica set of a key: as many distinct members as were asked for, or all of them if there
  are fewer, and the first is the owner of the key.\<close>

theorem replica_set:
  "distinct (get_n_nodes key n r) \<and> set (get_n_nodes key n r) \<subseteq> set (nodes r) \<and>
   length (get_n_nodes key n r) = min n (node_count r) \<and>
   (get_n_nodes key n r = [] \<or> get_node key r = Some (hd (get_n_nodes key n r)))"
proof -
  have "get_n_nodes key n r = [] \<or> get_node key r = Some (hd (get_n_nodes key n r))"
  proof (cases n)
    case 0
    then show ?thesis using get_n_nodes_props [of key n r] by auto
  next
    case (Suc k)
    then show ?thesis using get_n_nodes_head [of n key r] by (cases "get_n_nodes key n r") auto
  qed
  then show ?thesis using get_n_nodes_props [of key n r] by blast
qed

text \<open>C27. Consistent hashing: removing a node takes all of it out of the ring and moves only its own
  keys; a key of another node keeps its owner, unless one of the removed positions had been taken
  over by a third node through a hash collision.\<close>

theorem remove_moves_own_keys:
  assumes "ring_inv r" and "\<And>p. p \<in> positions x r \<Longrightarrow> hm_get (ring r) p \<in> {None, Some x}"
    and "get_node key r = Some y" and "y \<noteq> x"
  shows "get_node key (remove_node x r) = Some y \<and> x \<notin> set (nodes (remove_node x r))"
  using get_node_remove_other [OF assms] nodes_remove_node(1) [OF assms(1)] by blast

theorem remove_moves_own_keys_witness:
  "get_node 7 (remove_node ''b'' ring_ab) = Some ''a''"
proof -
  have "get_node 7 ring_ab = Some ''a''" by (simp add: get_node_def ring_ab_eq bt_range_from_def)
  then show ?thesis
    using remove_moves_own_keys [OF ring_ab_inv, of "''b''" 7 "''a''"]
    by (simp add: positions_def ring_ab_eq vnode_pos_ab)
qed

section \<open>Failure detection and membership\<close>





text \<open>C24. In every reachable membership state the ring, the address book, the detector and the set of dead
  nodes agree: every member of the ring has an address, no dead node is in the ring, the node itself
  is never tracked as a peer; so a query always has a target to go to.\<close>

theorem membership_consistent:
  assumes "reachable (\<lambda>cs. \<exists>nid config gossip addr. cs = cluster_initial nid config gossip addr) cluster_step cs"
  shows "cluster_inv cs \<and>
    (nodes (cl_ring cs) \<noteq> [] \<longrightarrow>
       (\<exists>nid addr. get_target_addr cs emb = Some (nid, addr) \<and> nid \<in> set (nodes (cl_ring cs)))) \<and>
    length (get_replica_addrs cs emb rf) = min rf (node_count (cl_ring cs))"
proof -
  have inv: "cluster_inv cs" using membership.reachable_inv [OF assms] .
  have "length (get_replica_addrs cs emb rf) = length (get_n_nodes_for_embedding emb rf (cl_ring cs))"
    using arg_cong [OF get_replica_addrs_nodes [OF inv, of emb rf], of length] by simp
  also have "\<dots> = min rf (node_count (cl_ring cs))"
    using get_n_nodes_props by (simp add: get_n_nodes_for_embedding_def)
  finally show ?thesis using inv get_target_addr_total [OF inv] by blast
qed

theorem membership_consistent_witness:
  "length (get_replica_addrs (cluster_initial ''n'' default_cluster_config ''g'' ''a'') [] 3) =
     min 3 (node_count (cl_ring (cluster_initial ''n'' default_cluster_config ''g'' ''a'')))"
  using membership_consistent [OF reachable_init] by blast

text \<open>C25. A node enters the dead set in a reconciliation only if removal is enabled, the detector has it
  dead, it is not the node itself, and the gossip snapshot does not list it.\<close>

theorem removed_only_if_dead:
  assumes "cluster_inv cs" and "reconcile_step snap bt ct removal (cs, m) = (cs', m')"
    and "nid \<in> set (cl_dead_nodes cs')" and "nid \<notin> set (cl_dead_nodes cs)"
  shows "removal \<and> nid \<noteq> cl_self_node_id cs \<and> nid \<notin> fst ` set snap \<and>
    (\<exists>st. hm_get (pd_peers (cl_detector cs')) nid = Some st \<and> peer_status_of st = Dead)"
  by (rule reconcile_removed [OF assms])

definition small_config :: cluster_config where
  "small_config = default_cluster_config\<lparr> virtual_nodes := 1, phi_threshold := 0 \<rparr>"

definition cs_two :: cluster_state where
  "cs_two = fst (reconcile_step [(''b'', ''y'')] (\<lambda>_. 5) 5 True (cluster_initial ''a'' small_config ''g'' ''x'', metrics_new))"

lemma cs_two_inv: "cluster_inv cs_two"
  using reconcile_step_inv(1) [OF cluster_inv_new] unfolding cs_two_def by (metis prod.collapse)

lemmas cluster_evals = reconcile_step_def reconcile_addrs_def reconcile_heartbeats_def reconcile_joins_def
  reconcile_removals_def to_add_def to_remove_def cluster_initial_def small_config_def default_cluster_config_def
  pd_new_def record_heartbeat_at_def check_all_at_def check_peer_def phi_of_def next_status_def add_node_def
  ring_new_def nodes_def vnode_pos_ab

lemma cs_two_dead:
  "''b'' \<in> set (cl_dead_nodes (fst (reconcile_step [] (\<lambda>_. 0) 9 True (cs_two, metrics_new))))"
  "cl_dead_nodes cs_two = []"
  by (simp_all add: cs_two_def cluster_evals Let_def AList.map_ran_def)

theorem removed_only_if_dead_witness:
  "\<exists>cs' m' st. reconcile_step [] (\<lambda>_. 0) 9 True (cs_two, metrics_new) = (cs', m') \<and>
     hm_get (pd_peers (cl_detector cs')) ''b'' = Some st \<and> peer_status_of st = Dead"
proof -
  obtain cs' m' where s: "reconcile_step [] (\<lambda>_. 0) 9 True (cs_two, metrics_new) = (cs', m')" by fastforce
  from removed_only_if_dead [OF cs_two_inv s, of "''b''"] cs_two_dead s show ?thesis by simp
qed

section \<open>Forwarding\<close>

text \<open>C30. A forward makes at most one attempt more than the configured retries, sleeps once before each
  attempt but the first, and counts each sleep as a retry; it stops at the first success or
  permanent error, and gives up only when the last allowed attempt failed in a retryable way. Each
  sleep takes between one millisecond and six seconds, whatever the attempt number and the jitter.\<close>

theorem forward_with_retry_outcome:
  assumes "max_retries < 2 ^ 64 - 1" and "\<And>lo hi. lo \<le> hi \<Longrightarrow> lo \<le> gen lo hi \<and> gen lo hi \<le> hi"
  shows "\<exists>k ds. forward_with_retry gen max_retries f m =
      (fst (forward_with_retry gen max_retries f m), ds, fold (\<lambda>_. record_replication_retry) ds m) \<and>
    length ds = k \<and> k \<le> max_retries \<and> (\<forall>d \<in> set ds. 1 \<le> d \<and> d \<le> 6000) \<and>
    (\<forall>j < k. \<exists>e. f j = Inl e \<and> is_retryable e) \<and>
    (case fst (forward_with_retry gen max_retries f m) of
       Inr v \<Rightarrow> f k = Inr v
     | Inl (Permanent e) \<Rightarrow> f k = Inl e \<and> \<not> is_retryable e
     | Inl (Exhausted e) \<Rightarrow> k = max_retries \<and> f k = Inl e \<and> is_retryable e)"
proof -
  have total: "min (max_retries + 1) (2 ^ 64 - 1) = Suc max_retries" using assms by simp
  obtain r ds where l: "retry_loop gen f 0 (Suc max_retries) no_error = (r, ds)" by fastforce
  obtain k where k: "retry_outcome f 0 (Suc max_retries) k r" "length ds = k"
    using retry_loop_outcome [of "Suc max_retries" f 0 gen no_error] l by auto
  have "forward_with_retry gen max_retries f m = (r, ds, fold (\<lambda>_. record_replication_retry) ds m)"
    unfolding forward_with_retry_def total using l by simp
  moreover have "\<forall>d \<in> set ds. 1 \<le> d \<and> d \<le> 6000"
    using retry_loop_delays [of _ gen f 0 "Suc max_retries" no_error] retry_delay_bounds [of gen, OF assms(2)] l by fastforce
  ultimately show ?thesis
    using k by (intro exI [of _ k] exI [of _ ds]) (auto simp: retry_outcome_def split: sum.splits forward_error.splits)
qed

theorem forward_with_retry_outcome_witness:
  "\<exists>ds. forward_with_retry (\<lambda>lo hi. lo) 2 (\<lambda>n. if n = 0 then Inl (status_error 503) else Inr ''ok'') metrics_new =
     (Inr ''ok'', ds, fold (\<lambda>_. record_replication_retry) ds metrics_new) \<and> length ds = 1"
proof -
  have "min (2 + 1) (2 ^ 64 - 1) = Suc (Suc (Suc 0))" by simp
  then have "fst (forward_with_retry (\<lambda>lo hi. lo) 2 (\<lambda>n. if n = 0 then Inl (status_error 503) else Inr ''ok'') metrics_new) = Inr ''ok''"
    unfolding forward_with_retry_def by (simp only: Let_def) (simp add: is_retryable_def status_error_def)
  moreover have "k = 1" if "\<forall>j < k. \<exists>e. (if j = 0 then Inl (status_error 503) else Inr ''ok'') = Inl e \<and> is_retryable e"
      "(if k = 0 then Inl (status_error 503) else Inr ''ok'') = Inr ''ok''" for k :: nat
    using that(1) [rule_format, of 1] that(2) by (cases "k = 0"; cases "k = 1") auto
  ultimately show ?thesis
    using forward_with_retry_outcome [of 2 "\<lambda>lo hi. lo" "\<lambda>n. if n = 0 then Inl (status_error 503) else Inr ''ok''" metrics_new]
    by auto
qed

section \<open>Authentication\<close>

text \<open>With a token configured a request passes if and only if its path is exempt or it carries exactly
  that token as a bearer token; everything else is answered with 401.\<close>

lemma auth_exact:
  assumes "ct_eq_law ct_eq" and "token \<noteq> []"
  shows "auth_layer ct_eq to_str (Some token) path header =
    (if path \<in> {''/health'', ''/metrics''} \<or> (\<exists>v. header = Some v \<and> to_str v = Some (''Bearer '' @ token))
     then PassOn else Reject unauthorized)"
  using auth_middleware_pass [OF assms(1), of to_str token path header]
    auth_middleware_reject [of ct_eq to_str token path header] assms(2)
  by (auto simp: auth_layer_def is_exempt_def)

section \<open>Counters and keys\<close>

text \<open>Whatever sequence of events is recorded, the totals stay the sums of the per-namespace counters
  and every query is counted as a hit or a miss, as wrapping 64-bit numbers.\<close>

lemma counters_agree: "metrics_inv (fold apply_event evs metrics_new)"
proof -
  have "metrics_inv (fold apply_event evs m)" if "metrics_inv m" for m
    using that by (induction evs arbitrary: m) (auto intro: metrics_inv_event)
  then show ?thesis using metrics_inv_new .
qed

text \<open>A label value can be read back from its escaped form and never contains a raw newline, so a
  namespace name cannot break the exposition format or forge another line.\<close>

lemma label_escaping_invertible:
  "unescape_label (escape_label s) = s \<and> CHR 0x0A \<notin> set (escape_label s)"
  using unescape_escape escape_label_chars by simp



text \<open>The normal form of a query text is stable under a second normalisation, and empty exactly for
  blank texts, which are never indexed for exact matches.\<close>

lemma normal_form_stable:
  "normalize_query_text (normalize_query_text t) = normalize_query_text t \<and>
   (normalize_query_text t = [] \<longleftrightarrow> trim t = [])"
  using normalize_idem normalize_Nil_iff by simp

end
