(* ===== verification/Server.thy ===== *)
theory Server
  imports Router Flush
begin

text \<open>
  The HTTP handlers of \<open>src/server.rs\<close>. A handler is a function of the state, the request and what
  its environment does: the clock, fresh UUIDs, the reply of the flush task (\<open>wal_result\<close>), the
  answers of peers. It returns the response, the new state and what it sent: commands to the flush
  task and requests to peers. What the flush task does with a command is \<open>Flush\<close>.
\<close>

section \<open>State and parameters\<close>

record app_state =
  as_node_id :: string
  as_index :: semantic_index
  as_wal_path :: string
  as_snapshot_path :: string
  as_hnsw_config :: hnsw_config
  as_cluster :: "cluster_state option"
  as_router :: "cluster_router option"
  as_replication_factor :: nat
  as_metrics :: metrics
  as_auth_token :: "string option"
  as_max_replication_retries :: nat
  as_read_repair_enabled :: bool
  as_conversation_ttl_seconds :: "u64 option"

definition app_state_new ::
  "string \<Rightarrow> semantic_index \<Rightarrow> string \<Rightarrow> string \<Rightarrow> hnsw_config \<Rightarrow> cluster_state option \<Rightarrow> cluster_router option \<Rightarrow>
   nat \<Rightarrow> metrics \<Rightarrow> string option \<Rightarrow> nat \<Rightarrow> bool \<Rightarrow> u64 option \<Rightarrow> app_state" where
  "app_state_new nid index path snapshot_path config cluster router rf m token retries repair ttl =
     \<lparr> as_node_id = nid, as_index = index, as_wal_path = path, as_snapshot_path = snapshot_path,
       as_hnsw_config = config, as_cluster = cluster, as_router = router, as_replication_factor = rf,
       as_metrics = m, as_auth_token = token, as_max_replication_retries = retries,
       as_read_repair_enabled = repair, as_conversation_ttl_seconds = ttl \<rparr>"

definition MAX_EMBEDDING_DIM :: nat where "MAX_EMBEDDING_DIM = 4096"
definition MAX_RESPONSE_BYTES :: nat where "MAX_RESPONSE_BYTES = 102400"

record local_param =
  lp_local :: "bool option"
  lp_repair :: "bool option"

definition is_local :: "local_param \<Rightarrow> bool" where
  "is_local p = (case lp_local p of Some b \<Rightarrow> b | None \<Rightarrow> False)"

definition try_repair :: "local_param \<Rightarrow> bool" where
  "try_repair p = (case lp_repair p of Some v \<Rightarrow> v | None \<Rightarrow> \<not> is_local p)"

text \<open>Sending a command to the flush task and awaiting its reply.\<close>

datatype wal_result = ChannelClosed | ReplyDropped | Replied "insert_error + u64"

section \<open>Validation\<close>

definition bad_request :: "error_msg \<Rightarrow> response" where "bad_request msg = error_response 400 msg"
definition bad_gateway :: "error_msg \<Rightarrow> response" where "bad_gateway msg = error_response 502 msg"
definition not_found :: "error_msg \<Rightarrow> response" where "not_found msg = error_response 404 msg"
definition internal_error :: "error_msg \<Rightarrow> response" where "internal_error msg = error_response 500 msg"

definition validate_model_id :: "string option \<Rightarrow> error_msg + string" where
  "validate_model_id model_id =
     (case model_id of
        Some s \<Rightarrow> if trim s \<noteq> [] then Inr s else Inl ModelIdRequired
      | None \<Rightarrow> Inl ModelIdRequired)"

definition validate_embedding :: "f32 list \<Rightarrow> error_msg + unit" where
  "validate_embedding embedding =
     (if embedding = [] then Inl EmbeddingEmpty
      else if length embedding > MAX_EMBEDDING_DIM then Inl (EmbeddingTooLong (length embedding))
      else Inr ())"

text \<open>\<open>(0.0..=1.0).contains(&threshold)\<close>\<close>

definition threshold_ok :: "f32 \<Rightarrow> bool" where
  "threshold_ok t \<longleftrightarrow> flt_le (Fin 0) (f32_value t) \<and> flt_le (f32_value t) (Fin 1)"

section \<open>Queries\<close>

text \<open>A repair that was spawned: the peer, its address, the UUID and the namespace.\<close>

type_synonym repair_task = "string \<times> string \<times> string \<times> string"

definition repair_peers :: "app_state \<Rightarrow> cluster_state \<Rightarrow> query_request \<Rightarrow> (string \<times> string) list" where
  "repair_peers st cluster req =
     filter (\<lambda>(nid, _). nid \<noteq> cl_self_node_id cluster \<and> cl_peer_status cluster nid \<noteq> Dead)
       (get_replica_addrs cluster (qr_embedding req) (as_replication_factor st))"

fun first_hit ::
  "((string \<times> string) \<times> (req_error + query_response)) list \<Rightarrow> (string \<times> string \<times> query_response) option" where
  "first_hit [] = None"
| "first_hit (((nid, addr), r) # rest) =
     (case r of
        Inr qr \<Rightarrow> if qp_hit qr then Some (nid, addr, qr) else first_hit rest
      | Inl _ \<Rightarrow> first_hit rest)"

definition attempt_read_repair ::
  "query_response net \<Rightarrow> app_state \<Rightarrow> cluster_state \<Rightarrow> string \<Rightarrow> query_request \<Rightarrow>
   query_response option \<times> repair_task option \<times> metrics" where
  "attempt_read_repair net st cluster model_id req =
     (case as_router st of
        None \<Rightarrow> (None, None, as_metrics st)
      | Some router \<Rightarrow>
          (let peers = repair_peers st cluster req
           in if peers = [] then (None, None, as_metrics st)
              else case first_hit (map (\<lambda>(nid, addr).
                          ((nid, addr), forward_query_no_repair net router addr req)) peers) of
                     None \<Rightarrow> (None, None, as_metrics st)
                   | Some (nid, addr, qr) \<Rightarrow>
                       (case qp_id qr of
                          None \<Rightarrow> (Some qr, None, record_read_repair_failure (as_metrics st))
                        | Some uuid \<Rightarrow> (Some qr, Some (nid, addr, uuid, model_id), as_metrics st))))"

definition hit_response :: "query_hit \<Rightarrow> hit_scope option \<Rightarrow> query_response" where
  "hit_response hit scope =
     \<lparr> qp_hit = True, qp_id = Some (qh_id hit), qp_response = Some (qh_response hit),
       qp_similarity = Some (qh_similarity hit), qp_exact_match = Some (qh_exact_match hit),
       qp_scope = map_option (\<lambda>s. case s of Conversation \<Rightarrow> ''conversation'' | Global \<Rightarrow> ''global'') scope \<rparr>"

text \<open>The lookup under the read lock: result, namespace of the hit and its level.\<close>

definition query_index ::
  "hnsw_search \<Rightarrow> u64 \<Rightarrow> string \<Rightarrow> query_request \<Rightarrow> semantic_index \<Rightarrow>
   index_error + query_hit option \<times> string \<times> hit_scope option" where
  "query_index search now model_id req si =
     (let base = base_namespace model_id (qr_cache_scope req);
          threshold = f32_value (qr_threshold req)
      in case nonblank (qr_conversation_id req) of
           Some cid \<Rightarrow>
             query_two_level search (qr_embedding req) threshold
               (conversation_namespace model_id (qr_cache_scope req) cid) base (qr_query_text req) now si
         | None \<Rightarrow>
             (case si_query_with_text search (qr_embedding req) threshold base (qr_query_text req) now si of
                Inl err \<Rightarrow> Inl err
              | Inr hit \<Rightarrow> Inr (hit, base, None)))"

text \<open>
  \<open>other\<close> is what other tasks do to the index between the read lock of the lookup and the write
  lock of the access bookkeeping.
\<close>

definition process_query_locally ::
  "hnsw_search \<Rightarrow> query_response net \<Rightarrow> u64 \<Rightarrow> flt \<Rightarrow> (semantic_index \<Rightarrow> semantic_index) \<Rightarrow>
   query_request \<Rightarrow> bool \<Rightarrow> app_state \<Rightarrow> response \<times> repair_task option \<times> app_state" where
  "process_query_locally search net now elapsed other req repair st =
     (case validate_model_id (qr_model_id req) of
        Inl msg \<Rightarrow> (bad_request msg, None, st)
      | Inr model_id \<Rightarrow>
          (let base = base_namespace model_id (qr_cache_scope req)
           in case query_index search now model_id req (as_index st) of
                Inl err \<Rightarrow> (bad_request (IndexMessage err), None, st)
              | Inr (Some hit, hit_ns, scope) \<Rightarrow>
                  (let m1 = record_query_hit hit_ns elapsed (as_metrics st);
                       m2 = (if qh_exact_match hit then record_exact_match_hit hit_ns m1 else m1)
                   in (ok_response (QueryBody (hit_response hit scope)), None,
                       st\<lparr> as_index := si_record_access now hit_ns (qh_internal_id hit) (other (as_index st)),
                           as_metrics := m2 \<rparr>))
              | Inr (None, _, _) \<Rightarrow>
                  (let st1 = st\<lparr> as_metrics := record_query_miss base elapsed (as_metrics st) \<rparr>;
                       miss = ok_response (QueryBody miss_response)
                   in if repair \<and> as_read_repair_enabled st1 \<and> as_replication_factor st1 > 1
                      then case as_cluster st1 of
                             None \<Rightarrow> (miss, None, st1)
                           | Some cluster \<Rightarrow>
                               (case attempt_read_repair net st1 cluster base req of
                                  (Some repaired, task, m) \<Rightarrow>
                                    (ok_response (QueryBody repaired), task, st1\<lparr> as_metrics := m \<rparr>)
                                | (None, task, m) \<Rightarrow> (miss, task, st1\<lparr> as_metrics := m \<rparr>))
                      else (miss, None, st1))))"

definition server_forward_query ::
  "query_response net \<Rightarrow> (int \<Rightarrow> int \<Rightarrow> int) \<Rightarrow> string \<Rightarrow> query_request \<Rightarrow> app_state \<Rightarrow> response \<times> app_state" where
  "server_forward_query net gen target_addr req st =
     (case as_router st of
        None \<Rightarrow> (bad_gateway UpstreamUnavailable, st)
      | Some router \<Rightarrow>
          (case forward_with_retry gen (as_max_replication_retries st)
                  (router_forward_query net router target_addr req) (as_metrics st) of
             (Inr qr, _, m) \<Rightarrow> (ok_response (QueryBody qr), st\<lparr> as_metrics := m \<rparr>)
           | (Inl _, _, m) \<Rightarrow> (bad_gateway UpstreamUnavailable, st\<lparr> as_metrics := m \<rparr>)))"

text \<open>The node a query has to be forwarded to, if any.\<close>

definition forward_target :: "local_param \<Rightarrow> app_state \<Rightarrow> f32 list \<Rightarrow> (cluster_state \<times> string \<times> string) option" where
  "forward_target params st embedding =
     (if is_local params then None
      else case as_cluster st of
             None \<Rightarrow> None
           | Some cluster \<Rightarrow>
               (case get_target_addr cluster embedding of
                  None \<Rightarrow> None
                | Some (target_id, target_addr) \<Rightarrow>
                    if target_id \<noteq> cl_self_node_id cluster then Some (cluster, target_id, target_addr) else None))"

definition query_handler ::
  "hnsw_search \<Rightarrow> query_response net \<Rightarrow> (int \<Rightarrow> int \<Rightarrow> int) \<Rightarrow> u64 \<Rightarrow> flt \<Rightarrow> (semantic_index \<Rightarrow> semantic_index) \<Rightarrow>
   local_param \<Rightarrow> query_request \<Rightarrow> app_state \<Rightarrow> response \<times> repair_task option \<times> app_state" where
  "query_handler search net gen now elapsed other params req st =
     (case validate_embedding (qr_embedding req) of
        Inl msg \<Rightarrow> (bad_request msg, None, st)
      | Inr _ \<Rightarrow>
     (case validate_model_id (qr_model_id req) of
        Inl msg \<Rightarrow> (bad_request msg, None, st)
      | Inr _ \<Rightarrow>
          if \<not> threshold_ok (qr_threshold req)
          then (bad_request (ThresholdOutOfRange (qr_threshold req)), None, st)
          else (case forward_target params st (qr_embedding req) of
                 Some (cluster, target_id, target_addr) \<Rightarrow>
                   if cl_peer_status cluster target_id = Dead
                   then (ok_response (QueryBody miss_response), None, st)
                   else (let (r, st') = server_forward_query net gen target_addr req st in (r, None, st'))
               | None \<Rightarrow> process_query_locally search net now elapsed other req (try_repair params) st)))"

text \<open>The background half of a read repair: the entry it sends to the flush task and the counters.\<close>

definition repair_entry :: "full_entry_response \<Rightarrow> wal_entry" where
  "repair_entry full =
     \<lparr> we_uuid = fr_uuid full, we_embedding = fr_embedding full, we_response = fr_response full,
       we_query_text = fr_query_text full, we_model_id = fr_model_id full, we_sequence = 0,
       we_inserted_at = fr_inserted_at full, we_tombstone = False, we_expires_at = fr_expires_at full \<rparr>"

definition perform_repair ::
  "full_entry_response net \<Rightarrow> wal_result \<Rightarrow> repair_task \<Rightarrow> app_state \<Rightarrow> wal_entry list \<times> app_state" where
  "perform_repair net result task st =
     (let (peer_id, peer_addr, uuid, model_id) = task;
          failed = st\<lparr> as_metrics := record_read_repair_failure (as_metrics st) \<rparr>
      in case as_router st of
           None \<Rightarrow> ([], failed)
         | Some router \<Rightarrow>
             (case forward_get_entry net router peer_addr uuid of
                Inr (Some full) \<Rightarrow>
                  (case result of
                     ChannelClosed \<Rightarrow> ([], failed)
                   | ReplyDropped \<Rightarrow> ([repair_entry full], failed)
                   | Replied (Inl _) \<Rightarrow> ([repair_entry full], failed)
                   | Replied (Inr _) \<Rightarrow>
                       ([repair_entry full], st\<lparr> as_metrics := record_read_repair (as_metrics st) \<rparr>))
              | Inr None \<Rightarrow> ([], failed)
              | Inl _ \<Rightarrow> ([], failed)))"

section \<open>What a lookup returns\<close>

lemma query_index_hit:
  assumes "query_index search now model_id req si = Inr (Some h, ns, scope)"
  shows "si_query_with_text search (qr_embedding req) (f32_value (qr_threshold req)) ns (qr_query_text req) now si =
      Inr (Some h) \<and>
    ns \<in> {request_namespace model_id (qr_cache_scope req) (qr_conversation_id req),
          base_namespace model_id (qr_cache_scope req)}"
  using assms
  by (auto simp: query_index_def query_two_level_eq request_namespace_def Let_def
      split: option.splits sum.splits)

lemma process_query_cases:
  assumes "process_query_locally search net now elapsed other req repair st = (resp, task, st')"
  obtains (invalid) msg where "validate_model_id (qr_model_id req) = Inl msg" "resp = bad_request msg" "task = None" "st' = st"
  | (error) model_id err where "validate_model_id (qr_model_id req) = Inr model_id"
      "query_index search now model_id req (as_index st) = Inl err" "resp = bad_request (IndexMessage err)"
      "task = None" "st' = st"
  | (hit) model_id h ns scope where "validate_model_id (qr_model_id req) = Inr model_id"
      "query_index search now model_id req (as_index st) = Inr (Some h, ns, scope)"
      "resp = ok_response (QueryBody (hit_response h scope))" "task = None"
      "as_index st' = si_record_access now ns (qh_internal_id h) (other (as_index st))"
      "queries_total (as_metrics st') = queries_total (as_metrics st) + 1"
      "queries_hit (as_metrics st') = queries_hit (as_metrics st) + 1"
  | (miss) model_id where "validate_model_id (qr_model_id req) = Inr model_id"
      "fst (projr (query_index search now model_id req (as_index st))) = None"
      "as_index st' = as_index st" "status_code resp = 200"
      "queries_total (as_metrics st') = queries_total (as_metrics st) + 1"
      "queries_miss (as_metrics st') = queries_miss (as_metrics st) + 1"
      "\<not> repair \<Longrightarrow> resp = ok_response (QueryBody miss_response) \<and> task = None"
proof (cases "validate_model_id (qr_model_id req)")
  case (Inl msg)
  then show thesis using assms by (intro invalid) (auto simp: process_query_locally_def)
next
  case (Inr model_id)
  note V = this
  show thesis
  proof (cases "query_index search now model_id req (as_index st)")
    case (Inl err)
    then show thesis using assms V by (intro error) (auto simp: process_query_locally_def Let_def)
  next
    case (Inr x)
    obtain r ns scope where x: "x = (r, ns, scope)" by (cases x) auto
    show thesis
    proof (cases r)
      case (Some h)
      then show thesis using assms V Inr x
        by (intro hit [OF V]) (auto simp: process_query_locally_def Let_def record_query_hit_def
            record_exact_match_hit_def ns_query_hit_def bump_ns_sel)
    next
      case None
      then show thesis using assms V Inr x
        by (intro miss [OF V]) (auto simp: process_query_locally_def Let_def record_query_miss_def
            attempt_read_repair_def record_read_repair_failure_def ns_query_miss_def bump_ns_sel ok_response_def
            split: if_splits option.splits prod.splits)
    qed
  qed
qed

lemma first_hit_Some:
  "first_hit rs = Some (nid, addr, qr) \<Longrightarrow> qp_hit qr \<and> ((nid, addr), Inr qr) \<in> set rs"
  by (induction rs rule: first_hit.induct) (auto split: sum.splits if_splits)

text \<open>What read repair returns on a local miss is a hit that one of the replicas of the key, neither this
  node nor one that is dead, gave to a query that may not trigger a repair itself; the repair task
  it spawns fetches that entry, by its UUID, from that replica.\<close>

lemma read_repair_source:
  assumes "attempt_read_repair net st cluster ns req = (Some qr, task, m)"
  shows "qp_hit qr \<and> (\<exists>router nid addr. as_router st = Some router \<and>
    (nid, addr) \<in> set (get_replica_addrs cluster (qr_embedding req) (as_replication_factor st)) \<and>
    nid \<noteq> cl_self_node_id cluster \<and> cl_peer_status cluster nid \<noteq> Dead \<and>
    forward_query_no_repair net router addr req = Inr qr \<and>
    task = map_option (\<lambda>u. (nid, addr, u, ns)) (qp_id qr))"
proof -
  obtain router nid addr where r: "as_router st = Some router"
    and f: "first_hit (map (\<lambda>(nid, addr). ((nid, addr), forward_query_no_repair net router addr req))
      (repair_peers st cluster req)) = Some (nid, addr, qr)"
    and t: "task = map_option (\<lambda>u. (nid, addr, u, ns)) (qp_id qr)"
    using assms by (auto simp: attempt_read_repair_def Let_def split: option.splits if_splits)
  from first_hit_Some [OF f] have "qp_hit qr" "(nid, addr) \<in> set (repair_peers st cluster req)"
      "forward_query_no_repair net router addr req = Inr qr" by auto
  with r t show ?thesis by (auto simp: repair_peers_def)
qed

end
