(* ===== verification/Server_Write.thy ===== *)
theory Server_Write
  imports Server
begin

text \<open>
  The handlers of \<open>src/server.rs\<close> that write: inserts with their replication, the repair endpoint
  and manual compaction. \<open>result\<close> is what awaiting the flush task gave; the entries a handler put on
  the channel are part of what it returns.
\<close>

section \<open>Local inserts\<close>

definition insert_namespace :: "insert_request \<Rightarrow> string \<Rightarrow> string" where
  "insert_namespace req model_id =
     (case nonblank (ir_conversation_id req) of
        Some cid \<Rightarrow> conversation_namespace model_id (ir_cache_scope req) cid
      | None \<Rightarrow> effective_namespace model_id (ir_cache_scope req))"

text \<open>An explicit TTL wins; otherwise conversations get the configured one, if any.\<close>

definition effective_ttl :: "insert_request \<Rightarrow> app_state \<Rightarrow> u64 option" where
  "effective_ttl req st =
     (case (nonblank (ir_conversation_id req), ir_ttl_seconds req) of
        (_, Some ttl) \<Rightarrow> Some ttl
      | (Some _, None) \<Rightarrow> as_conversation_ttl_seconds st
      | (None, None) \<Rightarrow> None)"

definition insert_entry :: "string \<Rightarrow> u64 \<Rightarrow> insert_request \<Rightarrow> string \<Rightarrow> app_state \<Rightarrow> wal_entry" where
  "insert_entry new_uuid now req model_id st =
     \<lparr> we_uuid = (case ir_uuid req of Some u \<Rightarrow> u | None \<Rightarrow> new_uuid),
       we_embedding = ir_embedding req, we_response = ir_response req,
       we_query_text = ir_query_text req, we_model_id = insert_namespace req model_id,
       we_sequence = 0, we_inserted_at = now, we_tombstone = False,
       we_expires_at = map_option (saturating_add now) (effective_ttl req st) \<rparr>"

definition local_insert_inner ::
  "string \<Rightarrow> u64 \<Rightarrow> flt \<Rightarrow> wal_result \<Rightarrow> insert_request \<Rightarrow> app_state \<Rightarrow>
   (response + string) \<times> wal_entry list \<times> app_state" where
  "local_insert_inner new_uuid now elapsed result req st =
     (case validate_model_id (ir_model_id req) of
        Inl _ \<Rightarrow> (Inl (bad_request ModelIdRequired), [], st)
      | Inr model_id \<Rightarrow>
          (let entry = insert_entry new_uuid now req model_id st
           in case result of
                ChannelClosed \<Rightarrow> (Inl (internal_error PersistenceFailed), [], st)
              | ReplyDropped \<Rightarrow> (Inl (internal_error PersistenceFailed), [entry], st)
              | Replied (Inl (WalErr _)) \<Rightarrow> (Inl (internal_error PersistenceFailed), [entry], st)
              | Replied (Inl (IndexErr e)) \<Rightarrow> (Inl (internal_error (IndexMessage e)), [entry], st)
              | Replied (Inr _) \<Rightarrow>
                  (Inr (we_uuid entry), [entry],
                   st\<lparr> as_metrics := record_insert (we_model_id entry) elapsed (as_metrics st) \<rparr>)))"

definition insert_ok :: "string \<Rightarrow> response" where
  "insert_ok uuid = ok_response (InsertBody \<lparr> ip_id = uuid, ip_status = ''ok'' \<rparr>)"

definition process_insert_locally ::
  "string \<Rightarrow> u64 \<Rightarrow> flt \<Rightarrow> wal_result \<Rightarrow> insert_request \<Rightarrow> app_state \<Rightarrow> response \<times> wal_entry list \<times> app_state" where
  "process_insert_locally new_uuid now elapsed result req st =
     (case local_insert_inner new_uuid now elapsed result req st of
        (Inr uuid, sent, st') \<Rightarrow> (insert_ok uuid, sent, st')
      | (Inl resp, sent, st') \<Rightarrow> (resp, sent, st'))"

section \<open>Replication\<close>

text \<open>
  The loop over the other replicas: dead ones are skipped, the first failed forward ends it. It
  returns the peers that were skipped and those that were attempted, in order.
\<close>

fun replicate_to ::
  "insert_response net \<Rightarrow> (int \<Rightarrow> int \<Rightarrow> int) \<Rightarrow> nat \<Rightarrow> cluster_state \<Rightarrow> cluster_router \<Rightarrow> insert_request \<Rightarrow>
   (string \<times> string) list \<Rightarrow> metrics \<Rightarrow> bool \<times> string list \<times> string list \<times> metrics" where
  "replicate_to net gen retries cluster router req [] m = (True, [], [], m)"
| "replicate_to net gen retries cluster router req ((peer_id, peer_addr) # peers) m =
     (if cl_peer_status cluster peer_id = Dead
      then let (ok, skipped, attempted, m') = replicate_to net gen retries cluster router req peers m
           in (ok, peer_id # skipped, attempted, m')
      else case forward_with_retry gen retries (forward_insert net router peer_addr req)
                  (record_replication_forward m) of
             (Inl _, _, m1) \<Rightarrow> (False, [], [peer_id], record_replication_failure m1)
           | (Inr _, _, m1) \<Rightarrow>
               (let (ok, skipped, attempted, m') = replicate_to net gen retries cluster router req peers m1
                in (ok, skipped, peer_id # attempted, m')))"

definition replicate_insert ::
  "insert_response net \<Rightarrow> (int \<Rightarrow> int \<Rightarrow> int) \<Rightarrow> cluster_state \<Rightarrow> (string \<times> string) list \<Rightarrow> insert_request \<Rightarrow> string \<Rightarrow>
   app_state \<Rightarrow> response \<times> app_state" where
  "replicate_insert net gen cluster replicas req uuid st =
     (case as_router st of
        None \<Rightarrow> (bad_gateway UpstreamUnavailable, st)
      | Some router \<Rightarrow>
          (let (ok, skipped, attempted, m) = replicate_to net gen (as_max_replication_retries st) cluster router req
                 (filter (\<lambda>(nid, _). nid \<noteq> cl_self_node_id cluster) replicas) (as_metrics st)
           in (if ok then insert_ok uuid else bad_gateway UpstreamUnavailable, st\<lparr> as_metrics := m \<rparr>)))"

text \<open>
  \<open>new_uuid\<close> is the coordinator's UUID; \<open>local_uuid\<close> is the one a local insert would draw when the
  request brings none.
\<close>

definition insert_handler ::
  "insert_response net \<Rightarrow> (int \<Rightarrow> int \<Rightarrow> int) \<Rightarrow> string \<Rightarrow> string \<Rightarrow> u64 \<Rightarrow> flt \<Rightarrow> wal_result \<Rightarrow> local_param \<Rightarrow>
   insert_request \<Rightarrow> app_state \<Rightarrow> response \<times> wal_entry list \<times> app_state" where
  "insert_handler net gen new_uuid local_uuid now elapsed result params req st =
     (case validate_embedding (ir_embedding req) of
        Inl msg \<Rightarrow> (bad_request msg, [], st)
      | Inr _ \<Rightarrow>
     (case validate_model_id (ir_model_id req) of
        Inl msg \<Rightarrow> (bad_request msg, [], st)
      | Inr _ \<Rightarrow>
          if length (ir_response req) > MAX_RESPONSE_BYTES
          then (bad_request (ResponseTooLong (length (ir_response req))), [], st)
          else (case (if is_local params then None else as_cluster st) of
                 None \<Rightarrow> process_insert_locally local_uuid now elapsed result req st
               | Some cluster \<Rightarrow>
                   (let replicas = get_replica_addrs cluster (ir_embedding req) (as_replication_factor st)
                    in if replicas = [] then process_insert_locally local_uuid now elapsed result req st
                       else let req' = req\<lparr> ir_uuid := Some new_uuid \<rparr>;
                                self_in = (\<exists>r \<in> set replicas. fst r = cl_self_node_id cluster)
                            in if self_in
                               then (case local_insert_inner local_uuid now elapsed result req' st of
                                       (Inl resp, sent, st1) \<Rightarrow> (resp, sent, st1)
                                     | (Inr _, sent, st1) \<Rightarrow>
                                         (let (resp, st2) = replicate_insert net gen cluster replicas req' new_uuid st1
                                          in (resp, sent, st2)))
                               else (let (resp, st2) = replicate_insert net gen cluster replicas req' new_uuid st
                                     in (resp, [], st2))))))"

section \<open>Repair endpoint\<close>

definition read_repair_entry :: "u64 \<Rightarrow> read_repair_request \<Rightarrow> wal_entry" where
  "read_repair_entry now req =
     \<lparr> we_uuid = rr_uuid req, we_embedding = rr_embedding req, we_response = rr_response req,
       we_query_text = rr_query_text req, we_model_id = rr_model_id req, we_sequence = 0,
       we_inserted_at = now, we_tombstone = False, we_expires_at = None \<rparr>"

definition read_repair_handler ::
  "u64 \<Rightarrow> wal_result \<Rightarrow> read_repair_request \<Rightarrow> app_state \<Rightarrow> response \<times> wal_entry list \<times> app_state" where
  "read_repair_handler now result req st =
     (case validate_embedding (rr_embedding req) of
        Inl msg \<Rightarrow> (bad_request msg, [], st)
      | Inr _ \<Rightarrow>
          if trim (rr_model_id req) = [] then (bad_request ModelIdRequired, [], st)
          else if trim (rr_uuid req) = [] then (bad_request UuidRequired, [], st)
          else if length (rr_response req) > MAX_RESPONSE_BYTES
          then (bad_request (ResponseTooLong (length (rr_response req))), [], st)
          else let entry = read_repair_entry now req;
                   failed = st\<lparr> as_metrics := record_read_repair_failure (as_metrics st) \<rparr>
               in (case result of
                    ChannelClosed \<Rightarrow> (internal_error PersistenceFailed, [], st)
                  | Replied (Inr _) \<Rightarrow>
                      (ok_response (ReadRepairBody \<lparr> rp_status = ''ok'', rp_repaired = True \<rparr>), [entry],
                       st\<lparr> as_metrics := record_read_repair (as_metrics st) \<rparr>)
                  | Replied (Inl (IndexErr e)) \<Rightarrow> (internal_error (IndexMessage e), [entry], failed)
                  | Replied (Inl (WalErr _)) \<Rightarrow> (internal_error PersistenceFailed, [entry], failed)
                  | ReplyDropped \<Rightarrow> (internal_error PersistenceFailed, [entry], failed)))"

section \<open>Compaction\<close>

datatype compact_wait = CompactClosed | CompactDropped | CompactReplied "snapshot_error + compaction_result"

definition compact_handler :: "compact_wait \<Rightarrow> response" where
  "compact_handler result =
     (case result of
        CompactClosed \<Rightarrow> internal_error CompactionFailed
      | CompactReplied (Inr r) \<Rightarrow>
          ok_response (CompactBody \<lparr> kp_status = ''ok'', kp_entries_snapshotted = cr_entries_snapshotted r,
            kp_wal_sequence = cr_wal_sequence r \<rparr>)
      | CompactReplied (Inl _) \<Rightarrow> internal_error CompactionFailed
      | CompactDropped \<Rightarrow> internal_error CompactionFailed)"

section \<open>The replica loop\<close>

text \<open>What the result of the loop says about the peers.\<close>

definition replicated ::
  "insert_response net \<Rightarrow> (int \<Rightarrow> int \<Rightarrow> int) \<Rightarrow> nat \<Rightarrow> cluster_state \<Rightarrow> cluster_router \<Rightarrow> insert_request \<Rightarrow>
   (string \<times> string) list \<Rightarrow> bool \<times> string list \<times> string list \<times> metrics \<Rightarrow> bool" where
  "replicated net gen retries cluster router req peers = (\<lambda>(ok, skipped, attempted, m').
     (ok \<longrightarrow> skipped = filter (\<lambda>nid. cl_peer_status cluster nid = Dead) (map fst peers) \<and>
        attempted = filter (\<lambda>nid. cl_peer_status cluster nid \<noteq> Dead) (map fst peers) \<and>
        (\<forall>(nid, addr) \<in> set peers. cl_peer_status cluster nid \<noteq> Dead \<longrightarrow>
           (\<exists>v m0. fst (forward_with_retry gen retries (forward_insert net router addr req) m0) = Inr v))) \<and>
     (\<not> ok \<longrightarrow> (\<exists>addr err m0. attempted \<noteq> [] \<and> (last attempted, addr) \<in> set peers \<and>
        fst (forward_with_retry gen retries (forward_insert net router addr req) m0) = Inl err)))"

lemma replicate_to_spec:
  "replicated net gen retries cluster router req peers
     (replicate_to net gen retries cluster router req peers m)"
proof (induction peers arbitrary: m)
  case Nil
  show ?case by (simp add: replicated_def)
next
  case (Cons p peers)
  obtain nid addr where p: "p = (nid, addr)" by fastforce
  show ?case
  proof (cases "cl_peer_status cluster nid = Dead")
    case True
    then show ?thesis using Cons.IH [of m] p
      by (cases "replicate_to net gen retries cluster router req peers m") (auto simp: replicated_def)
  next
    case False
    obtain r ds m1 where f: "forward_with_retry gen retries (forward_insert net router addr req)
        (record_replication_forward m) = (r, ds, m1)" by (metis prod_cases3)
    show ?thesis
    proof (cases r)
      case (Inl err)
      then have "\<exists>err m0. fst (forward_with_retry gen retries (forward_insert net router addr req) m0) = Inl err"
        using f by (metis fst_conv)
      moreover have "replicate_to net gen retries cluster router req (p # peers) m =
          (False, [], [nid], record_replication_failure m1)" using False f p Inl by simp
      ultimately show ?thesis using p unfolding replicated_def by auto
    next
      case (Inr v)
      then have "\<exists>v m0. fst (forward_with_retry gen retries (forward_insert net router addr req) m0) = Inr v"
        using f by (metis fst_conv)
      moreover obtain ok sk att m2 where r2: "replicate_to net gen retries cluster router req peers m1 = (ok, sk, att, m2)"
        by (metis prod_cases4)
      moreover have "replicate_to net gen retries cluster router req (p # peers) m = (ok, sk, nid # att, m2)"
        using False f p Inr r2 by simp
      ultimately show ?thesis using Cons.IH [of m1] False p r2 unfolding replicated_def by auto
    qed
  qed
qed

lemma replicate_insert_ok:
  assumes "replicate_insert net gen cluster replicas req uuid st = (resp, st')" "status_code resp = 200"
  shows "resp = insert_ok uuid \<and> (\<exists>router skipped attempted. as_router st = Some router \<and>
    replicate_to net gen (as_max_replication_retries st) cluster router req
      (filter (\<lambda>(nid, _). nid \<noteq> cl_self_node_id cluster) replicas) (as_metrics st) =
    (True, skipped, attempted, as_metrics st'))"
  using assms
  by (auto simp: replicate_insert_def bad_gateway_def error_response_def Let_def
      split: option.splits prod.splits if_splits)

lemma local_insert_sent:
  assumes "local_insert_inner new_uuid now elapsed result req st = (r, sent, st')"
  shows "(\<forall>u. ir_uuid req = Some u \<longrightarrow> (\<forall>e \<in> set sent. we_uuid e = u)) \<and>
    as_router st' = as_router st \<and> as_max_replication_retries st' = as_max_replication_retries st \<and>
    (isl r \<longrightarrow> status_code (projl r) \<noteq> 200)"
  using assms
  by (auto simp: local_insert_inner_def insert_entry_def Let_def bad_request_def internal_error_def
      error_response_def split: sum.splits wal_result.splits insert_error.splits)

lemma local_insert_ok:
  assumes "local_insert_inner new_uuid now elapsed (Replied (Inr seq)) req st = (Inr u, [e], st')" and "ir_uuid req = None"
  shows "\<exists>model_id. validate_model_id (ir_model_id req) = Inr model_id \<and>
    e = insert_entry new_uuid now req model_id st \<and> u = new_uuid"
proof (cases "validate_model_id (ir_model_id req)")
  case (Inr model_id)
  have "we_uuid (insert_entry new_uuid now req model_id st) = new_uuid" using assms(2) by (simp add: insert_entry_def)
  then show ?thesis using assms(1) Inr by (auto simp: local_insert_inner_def Let_def)
qed (use assms(1) in \<open>simp add: local_insert_inner_def\<close>)

end
