(* ===== verification/Exposition.thy ===== *)
theory Exposition
  imports Metrics Semantic_Index Failure_Detector
begin

text \<open>
  The Prometheus page of \<open>src/metrics.rs\<close>: \<open>Metrics::render\<close> and the writers it uses, as functions
  that return the text they append. The page is parsed line by line, so its shape must not depend on
  the names of namespaces and peers, which clients choose.
\<close>

section \<open>Numbers\<close>

text \<open>\<open>{:.6}\<close>: six decimals of the exact value, ties to even.\<close>

definition round_half_even :: "real \<Rightarrow> int" where
  "round_half_even x =
     (let f = \<lfloor>x\<rfloor>; d = x - of_int f
      in if d < 1 / 2 then f else if d > 1 / 2 then f + 1 else if even f then f else f + 1)"

fun pad_digits :: "nat \<Rightarrow> nat \<Rightarrow> string" where
  "pad_digits 0 n = []"
| "pad_digits (Suc k) n = pad_digits k (n div 10) @ [char_of (48 + n mod 10)]"

definition fmt6 :: "real \<Rightarrow> string" where
  "fmt6 x =
     (let n = nat (round_half_even (\<bar>x\<bar> * 1000000))
      in (if x < 0 then ''-'' else []) @ show_nat (n div 1000000) @ ''.'' @ pad_digits 6 (n mod 1000000))"

text \<open>\<open>{bound}\<close> for the bucket bounds, which have at most five decimals: no trailing zeros.\<close>

definition strip_zeros :: "string \<Rightarrow> string" where
  "strip_zeros s = rev (dropWhile (\<lambda>c. c = CHR ''0'') (rev s))"

definition show_bound :: "real \<Rightarrow> string" where
  "show_bound b =
     (let n = nat \<lfloor>b * 100000\<rfloor>; frac = strip_zeros (pad_digits 5 (n mod 100000))
      in show_nat (n div 100000) @ (if frac = [] then [] else ''.'' @ frac))"

section \<open>Writers\<close>

definition writeln :: "string \<Rightarrow> string" where
  "writeln s = s @ [CHR 0x0A]"

definition quoted :: "string \<Rightarrow> string" where
  "quoted s = [CHR 0x22] @ s @ [CHR 0x22]"

definition preamble :: "string \<Rightarrow> string \<Rightarrow> string \<Rightarrow> string" where
  "preamble name help kind =
     writeln (''# HELP '' @ name @ '' '' @ help) @ writeln (''# TYPE '' @ name @ '' '' @ kind)"

definition write_counter :: "string \<Rightarrow> string \<Rightarrow> u64 \<Rightarrow> string" where
  "write_counter name help value =
     preamble name help ''counter'' @ writeln (name @ '' '' @ show_nat (unat value)) @ [CHR 0x0A]"

definition write_gauge_u64 :: "string \<Rightarrow> string \<Rightarrow> u64 \<Rightarrow> string" where
  "write_gauge_u64 name help value =
     preamble name help ''gauge'' @ writeln (name @ '' '' @ show_nat (unat value)) @ [CHR 0x0A]"

definition write_gauge_f64 :: "string \<Rightarrow> string \<Rightarrow> real \<Rightarrow> string" where
  "write_gauge_f64 name help value =
     preamble name help ''gauge'' @ writeln (name @ '' '' @ fmt6 value) @ [CHR 0x0A]"

definition sum_seconds :: "latency_histogram \<Rightarrow> real" where
  "sum_seconds h = real (unat (lh_sum_micros h)) / 1000000"

definition write_histogram :: "string \<Rightarrow> string \<Rightarrow> latency_histogram \<Rightarrow> string" where
  "write_histogram name help h =
     preamble name help ''histogram'' @
     concat (map (\<lambda>(bound, count).
       writeln (name @ ''_bucket{le='' @ quoted (show_bound bound) @ ''} '' @ show_nat (unat count))) (lh_buckets h)) @
     writeln (name @ ''_bucket{le='' @ quoted ''+Inf'' @ ''} '' @ show_nat (unat (lh_count h))) @
     writeln (name @ ''_sum '' @ fmt6 (sum_seconds h)) @
     writeln (name @ ''_count '' @ show_nat (unat (lh_count h))) @ [CHR 0x0A]"

section \<open>The page\<close>

text \<open>The global counters, in the order of the code.\<close>

definition render_counters :: "metrics \<Rightarrow> (string, namespace_stats) hmap \<Rightarrow> string" where
  "render_counters m index_stats =
     write_counter ''ferrocache_queries_total'' ''Total number of cache queries.'' (queries_total m) @
     write_counter ''ferrocache_queries_hit_total'' ''Total cache hits.'' (queries_hit m) @
     write_counter ''ferrocache_queries_miss_total'' ''Total cache misses.'' (queries_miss m) @
     write_gauge_f64 ''ferrocache_hit_rate'' ''Current cache hit rate (hits / total queries).'' (hit_rate m) @
     write_counter ''ferrocache_inserts_total'' ''Total number of cache inserts.'' (inserts_total m) @
     write_counter ''ferrocache_replication_forwards_total'' ''Total replication forwards to peers.''
       (replication_forwards_total m) @
     write_counter ''ferrocache_replication_failures_total'' ''Total replication failures.''
       (replication_failures_total m) @
     write_counter ''ferrocache_replication_retries_total''
       ''Total replication retry attempts (high values indicate flaky peers).'' (replication_retries_total m) @
     write_counter ''ferrocache_compactions_total'' ''Total compaction cycles completed.'' (compactions_total m) @
     write_counter ''ferrocache_ring_changes_total'' ''Total ring membership changes (adds + removes).''
       (ring_changes_total m) @
     write_counter ''ferrocache_read_repairs_total''
       ''Total read repairs completed (entries copied from replica to local).'' (read_repairs_total m) @
     write_counter ''ferrocache_read_repair_failures_total''
       ''Read repair attempts that failed (replica unreachable, entry missing, etc).'' (read_repair_failures_total m) @
     write_counter ''ferrocache_evictions_total'' ''Total LRU evictions across all namespaces.'' (evictions_total m) @
     write_counter ''ferrocache_index_rebuilds_total''
       ''HNSW index rebuilds (one per namespace whose ghost ratio exceeded the trigger).'' (index_rebuilds_total m) @
     write_counter ''ferrocache_expirations_total'' ''Total entries removed by TTL expiry across all namespaces.''
       (expirations_total m) @
     write_counter ''ferrocache_deletions_total'' ''Total explicit deletions via DELETE /entry/:uuid.'' (deletions_total m) @
     write_counter ''ferrocache_invalidations_total''
       ''Total entries removed by semantic invalidation (POST /admin/invalidate).'' (invalidations_total m) @
     write_counter ''ferrocache_exact_match_hits_total''
       ''Queries resolved by the exact-match pre-filter (subset of queries_hit).'' (exact_match_hits_total m) @
     write_gauge_u64 ''ferrocache_index_entries'' ''Total entries in the index.''
       (of_nat (sum_list (map (st_entry_count \<circ> snd) index_stats)))"

text \<open>One line per namespace, its name escaped.\<close>

definition ns_section :: "string \<Rightarrow> string \<Rightarrow> string \<Rightarrow> (string \<Rightarrow> string) \<Rightarrow> string list \<Rightarrow> string" where
  "ns_section name help kind value keys =
     preamble name help kind @
     concat (map (\<lambda>k. writeln (name @ ''{namespace='' @ quoted (escape_label k) @ ''} '' @ value k)) keys) @ [CHR 0x0A]"

definition ns_counter :: "metrics \<Rightarrow> (namespace_metrics \<Rightarrow> u64) \<Rightarrow> string \<Rightarrow> string" where
  "ns_counter m f k = show_nat (unat (case hm_get (ns_metrics m) k of None \<Rightarrow> 0 | Some n \<Rightarrow> f n))"

definition ns_gauge :: "(string, namespace_stats) hmap \<Rightarrow> (namespace_stats \<Rightarrow> nat) \<Rightarrow> string \<Rightarrow> string" where
  "ns_gauge index_stats f k = (case hm_get index_stats k of None \<Rightarrow> [] | Some s \<Rightarrow> show_nat (f s))"

definition ns_keys :: "(string, namespace_stats) hmap \<Rightarrow> string list" where
  "ns_keys index_stats = sort (map fst index_stats)"

definition all_ns :: "metrics \<Rightarrow> (string, namespace_stats) hmap \<Rightarrow> string list" where
  "all_ns m index_stats = sort (remdups (map fst (ns_metrics m) @ ns_keys index_stats))"

definition render_ns_removals :: "metrics \<Rightarrow> (string, namespace_stats) hmap \<Rightarrow> string" where
  "render_ns_removals m index_stats =
     ns_section ''ferrocache_namespace_deletions'' ''Explicit deletions per namespace.'' ''counter''
       (ns_counter m nm_deletions) (all_ns m index_stats) @
     ns_section ''ferrocache_namespace_invalidations'' ''Semantic invalidations per namespace.'' ''counter''
       (ns_counter m nm_invalidations) (all_ns m index_stats) @
     ns_section ''ferrocache_namespace_exact_match_hits'' ''Exact-match pre-filter hits per namespace.'' ''counter''
       (ns_counter m nm_exact_match_hits) (all_ns m index_stats)"

definition render_namespaces :: "metrics \<Rightarrow> (string, namespace_stats) hmap \<Rightarrow> string" where
  "render_namespaces m index_stats =
     ns_section ''ferrocache_namespace_entries'' ''Entries per namespace.'' ''gauge''
       (ns_gauge index_stats st_entry_count) (ns_keys index_stats) @
     ns_section ''ferrocache_namespace_queries_hit'' ''Cache hits per namespace.'' ''counter''
       (ns_counter m nm_queries_hit) (all_ns m index_stats) @
     ns_section ''ferrocache_namespace_queries_miss'' ''Cache misses per namespace.'' ''counter''
       (ns_counter m nm_queries_miss) (all_ns m index_stats) @
     ns_section ''ferrocache_namespace_inserts'' ''Inserts per namespace.'' ''counter''
       (ns_counter m nm_inserts) (all_ns m index_stats) @
     ns_section ''ferrocache_namespace_evictions'' ''LRU evictions per namespace.'' ''counter''
       (ns_counter m nm_evictions) (all_ns m index_stats) @
     ns_section ''ferrocache_namespace_evicted_ghosts''
       ''Ghost (evicted-but-still-in-graph) HNSW nodes per namespace.'' ''gauge''
       (ns_gauge index_stats st_evicted_ghost_count) (ns_keys index_stats) @
     ns_section ''ferrocache_namespace_expirations'' ''TTL expirations per namespace.'' ''counter''
       (ns_counter m nm_expirations) (all_ns m index_stats) @
     render_ns_removals m index_stats"

text \<open>\<open>sort_by\<close> on the peer id is stable, as is \<^const>\<open>sort_key\<close>.\<close>

definition render_cluster :: "nat \<Rightarrow> (string \<times> peer_status \<times> real) list \<Rightarrow> string" where
  "render_cluster cluster_nodes peer_phi =
     (let peers_sorted = sort_key fst peer_phi;
          with_status = (\<lambda>s. of_nat (length (filter (\<lambda>(_, s', _). s' = s) peers_sorted)))
      in write_gauge_u64 ''ferrocache_cluster_nodes'' ''Number of nodes in the cluster.'' (of_nat cluster_nodes) @
         write_gauge_u64 ''ferrocache_ring_members''
           ''Current number of nodes in the hash ring (matches cluster_nodes; distinct gauge name kept for clarity in dashboards).''
           (of_nat cluster_nodes) @
         preamble ''ferrocache_peer_phi'' ''Phi accrual value per peer (higher = more likely down).'' ''gauge'' @
         concat (map (\<lambda>(nid, _, phi).
           writeln (''ferrocache_peer_phi{peer='' @ quoted (escape_label nid) @ ''} '' @ fmt6 phi)) peers_sorted) @
         [CHR 0x0A] @
         write_gauge_u64 ''ferrocache_peers_suspected'' ''Number of peers currently in suspected state.''
           (with_status Suspected) @
         write_gauge_u64 ''ferrocache_peers_dead'' ''Number of peers currently confirmed dead.'' (with_status Dead))"

definition render ::
  "metrics \<Rightarrow> (string, namespace_stats) hmap \<Rightarrow> nat \<Rightarrow> (string \<times> peer_status \<times> real) list \<Rightarrow> string" where
  "render m index_stats cluster_nodes peer_phi =
     render_counters m index_stats @ render_namespaces m index_stats @
     write_histogram ''ferrocache_query_duration_seconds'' ''Query latency histogram.'' (query_duration m) @
     write_histogram ''ferrocache_insert_duration_seconds'' ''Insert latency histogram (includes WAL fsync).''
       (insert_duration m) @
     render_cluster cluster_nodes peer_phi"

section \<open>The shape of the page\<close>

abbreviation newlines :: "string \<Rightarrow> nat" where
  "newlines s \<equiv> count_list s (CHR 0x0A)"

lemma digit_not_newline: "char_of (48 + n mod 10 :: nat) \<noteq> CHR 0x0A"
proof
  assume "char_of (48 + n mod 10) = CHR 0x0A"
  then have "of_char (char_of (48 + n mod 10)) = (10 :: nat)" by simp
  then show False by (simp add: of_char_of take_bit_eq_mod)
qed

lemma newlines_numbers [simp]:
  "newlines (show_nat n) = 0" "newlines (pad_digits k n) = 0" "newlines (fmt6 x) = 0" "newlines (show_bound x) = 0"
proof -
  show *: "newlines (show_nat n) = 0" for n
  proof (induction n rule: show_nat.induct)
    case (1 n)
    then show ?case
      using digit_not_newline [of n] by (subst show_nat.simps) (cases "n < 10"; simp add: digit_not_newline)
  qed
  show **: "newlines (pad_digits k n) = 0" for k n
    by (induction k arbitrary: n) (simp_all add: digit_not_newline)
  have "newlines (strip_zeros s) \<le> newlines s" for s
    unfolding strip_zeros_def count_list_rev by (metis count_list_append count_list_rev le_add2 takeWhile_dropWhile_id)
  then show "newlines (show_bound x) = 0"
    using * ** by (simp add: show_bound_def Let_def) (metis le_zero_eq)
  show "newlines (fmt6 x) = 0" using * ** by (simp add: fmt6_def Let_def)
qed

lemma newlines_escape [simp]: "newlines (escape_label s) = 0"
  using escape_label_chars by (simp add: count_list_0_iff)

lemma newlines_writers [simp]:
  "newlines (writeln s) = Suc (newlines s)" "newlines (quoted s) = newlines s"
  "newlines (preamble name help kind) = 2 + 2 * newlines name + newlines help + newlines kind"
  by (simp_all add: writeln_def quoted_def preamble_def)

lemma newlines_lines: "(\<And>x. x \<in> set xs \<Longrightarrow> newlines (f x) = Suc 0) \<Longrightarrow> newlines (concat (map f xs)) = length xs"
  by (induction xs) auto

lemma newlines_counter [simp]:
  "newlines (write_counter name help v) = 4 + 3 * newlines name + newlines help"
  "newlines (write_gauge_u64 name help v) = 4 + 3 * newlines name + newlines help"
  "newlines (write_gauge_f64 name help x) = 4 + 3 * newlines name + newlines help"
  by (simp_all add: write_counter_def write_gauge_u64_def write_gauge_f64_def)

lemma newlines_histogram [simp]:
  "newlines name = 0 \<Longrightarrow> newlines help = 0 \<Longrightarrow> newlines (write_histogram name help h) = 6 + length (lh_buckets h)"
  by (simp add: write_histogram_def newlines_lines split_beta)

lemma newlines_section [simp]:
  "newlines name = 0 \<Longrightarrow> newlines help = 0 \<Longrightarrow> newlines kind = 0 \<Longrightarrow> (\<And>k. newlines (value k) = 0) \<Longrightarrow>
     newlines (ns_section name help kind value keys) = 3 + length keys"
  by (simp add: ns_section_def newlines_lines)

lemma newlines_values [simp]: "newlines (ns_counter m f k) = 0" "newlines (ns_gauge st g k) = 0"
  by (simp_all add: ns_counter_def ns_gauge_def split: option.splits)

lemma newlines_counters: "newlines (render_counters m stats) = 76"
  by (simp add: render_counters_def)

lemma newlines_namespaces:
  "newlines (render_namespaces m stats) = 30 + 2 * length (ns_keys stats) + 8 * length (all_ns m stats)"
  by (simp add: render_namespaces_def render_ns_removals_def)

lemma newlines_cluster: "newlines (render_cluster n peers) = 19 + length peers"
  by (simp add: render_cluster_def Let_def newlines_lines split_beta)

lemma length_all_ns: "length (all_ns m stats) = card (fst ` set (ns_metrics m) \<union> fst ` set stats)"
  by (simp add: all_ns_def ns_keys_def length_remdups_card_conv)

lemma newlines_render:
  "newlines (render m stats n peers) =
     137 + length (lh_buckets (query_duration m)) + length (lh_buckets (insert_duration m)) +
     2 * length stats + 8 * card (fst ` set (ns_metrics m) \<union> fst ` set stats) + length peers"
  by (simp add: render_def newlines_counters newlines_namespaces newlines_cluster length_all_ns ns_keys_def)

end
