(* ===== verification/Server_Admin.thy ===== *)
theory Server_Admin
  imports Server Exposition
begin

text \<open>
  The handlers of \<open>src/server.rs\<close> that delete, invalidate and report. Between the read lock that
  finds the namespace of a UUID and the write lock that removes the entry other tasks may change the
  index: that is \<open>other\<close>. Whether the channel to the flush task took a tombstone is an argument.
\<close>

section \<open>Entries\<close>

definition full_response :: "full_entry \<Rightarrow> full_entry_response" where
  "full_response e =
     \<lparr> fr_uuid = fe_uuid e, fr_embedding = fe_embedding e, fr_response = fe_response e,
       fr_query_text = fe_query_text e, fr_model_id = fe_model_id e, fr_inserted_at = fe_inserted_at e,
       fr_last_accessed_at = fe_last_accessed_at e, fr_access_count = fe_access_count e,
       fr_expires_at = fe_expires_at e \<rparr>"

definition get_entry_handler :: "string \<Rightarrow> app_state \<Rightarrow> response" where
  "get_entry_handler uuid st =
     (case get_entry_by_uuid (as_index st) uuid of
        Some e \<Rightarrow> ok_response (FullEntryBody (full_response e))
      | None \<Rightarrow> not_found EntryNotFound)"

section \<open>Deleting\<close>

text \<open>The peers a deletion or an invalidation is sent to: all that are not dead, when this node has a router.\<close>

definition fanout :: "local_param \<Rightarrow> (cluster_router \<Rightarrow> string \<Rightarrow> http_out) \<Rightarrow> app_state \<Rightarrow> http_out list" where
  "fanout params request st =
     (if is_local params then []
      else case (as_cluster st, as_router st) of
             (Some cluster, Some router) \<Rightarrow>
               map (\<lambda>(_, addr). request router addr)
                 (filter (\<lambda>(nid, _). cl_peer_status cluster nid \<noteq> Dead) (all_peer_addrs cluster))
           | _ \<Rightarrow> [])"

definition delete_entry_handler ::
  "(semantic_index \<Rightarrow> semantic_index) \<Rightarrow> bool \<Rightarrow> local_param \<Rightarrow> string \<Rightarrow> app_state \<Rightarrow>
   response \<times> wal_entry list \<times> http_out list \<times> app_state" where
  "delete_entry_handler other channel_open params uuid st =
     (if trim uuid = [] then (bad_request UuidRequired, [], [], st)
      else case namespace_for (as_index st) uuid of
             None \<Rightarrow> (not_found EntryNotFound, [], [], st)
           | Some model_id \<Rightarrow>
               (let (_, si) = si_remove_by_uuid uuid (other (as_index st));
                    st1 = st\<lparr> as_index := si \<rparr>
                in if \<not> channel_open then (internal_error PersistenceFailed, [], [], st1)
                   else (ok_response (DeleteBody True), [tombstone_entry uuid model_id],
                         fanout params (\<lambda>r addr. delete_out r addr uuid) st1,
                         st1\<lparr> as_metrics := record_deletion model_id (as_metrics st1) \<rparr>)))"

text \<open>\<open>sent\<close> says for each removed entry whether the channel took its tombstone.\<close>

definition invalidate_handler ::
  "u64 \<Rightarrow> (string \<Rightarrow> bool) \<Rightarrow> local_param \<Rightarrow> invalidate_request \<Rightarrow> app_state \<Rightarrow>
   response \<times> wal_entry list \<times> http_out list \<times> app_state" where
  "invalidate_handler now sent params req st =
     (case validate_embedding (vr_embedding req) of
        Inl msg \<Rightarrow> (bad_request msg, [], [], st)
      | Inr _ \<Rightarrow>
     (case validate_model_id (vr_model_id req) of
        Inl msg \<Rightarrow> (bad_request msg, [], [], st)
      | Inr model_id \<Rightarrow>
          if \<not> threshold_ok (vr_threshold req)
          then (bad_request (ThresholdOutOfRange (vr_threshold req)), [], [], st)
          else let ns = effective_namespace model_id (vr_cache_scope req);
                   (removed, si) = invalidate_similar (vr_embedding req) (f32_value (vr_threshold req)) ns now
                     (as_index st);
                   st1 = st\<lparr> as_index := si,
                              as_metrics := fold (\<lambda>_. record_invalidation ns) removed (as_metrics st) \<rparr>
               in (ok_response (InvalidateBody \<lparr> vp_invalidated_count = length removed, vp_uuids = removed \<rparr>),
                   map (\<lambda>u. tombstone_entry u ns) (filter sent removed),
                   fanout params (\<lambda>r addr. invalidate_out r addr req) st1, st1)))"

section \<open>Reports\<close>

definition health_handler :: "app_state \<Rightarrow> health_response" where
  "health_handler st =
     \<lparr> hp_status = ''ok'', hp_node_id = as_node_id st, hp_entry_count = si_entry_count (as_index st) \<rparr>"

definition TOP_N :: nat where "TOP_N = 10"

definition entry_stats_handler :: "app_state \<Rightarrow> entry_stats_response" where
  "entry_stats_handler st =
     \<lparr> es_namespaces = AList.map_ran (\<lambda>_ rows. \<lparr> nt_top_entries =
            map (\<lambda>r. \<lparr> tr_uuid = te_uuid r, tr_access_count = te_access_count r,
                   tr_last_accessed_at = te_last_accessed_at r,
                   tr_query_text_preview = te_query_text_preview r \<rparr>) rows \<rparr>)
          (top_entries_per_namespace TOP_N (as_index st)) \<rparr>"

definition cluster_status_handler :: "nat \<Rightarrow> app_state \<Rightarrow> cluster_status_response" where
  "cluster_status_handler t0 st =
     (case as_cluster st of
        Some cluster \<Rightarrow>
          \<lparr> zp_mode = ''clustered'', zp_self_node_id = cl_self_node_id cluster,
            zp_gossip_addr = Some (cl_gossip_addr cluster), zp_nodes = live_nodes cluster,
            zp_node_count = ring_node_count cluster,
            zp_peer_health = fold (\<lambda>(nid, s, phi). hm_insert nid \<lparr> ph_status = s, ph_phi = phi \<rparr>)
              (snapshot_at t0 (cl_detector cluster)) [],
            zp_dead_nodes = dead_nodes cluster, zp_read_repair_enabled = as_read_repair_enabled st \<rparr>
      | None \<Rightarrow>
          \<lparr> zp_mode = ''single'', zp_self_node_id = as_node_id st, zp_gossip_addr = None,
            zp_nodes = [as_node_id st], zp_node_count = 1, zp_peer_health = [], zp_dead_nodes = [],
            zp_read_repair_enabled = as_read_repair_enabled st \<rparr>)"

definition counters_of :: "metrics \<Rightarrow> counters_response" where
  "counters_of m =
     \<lparr> cp_queries_total = queries_total m, cp_queries_hit = queries_hit m, cp_queries_miss = queries_miss m,
       cp_hit_rate = hit_rate m, cp_inserts_total = inserts_total m,
       cp_replication_forwards = replication_forwards_total m,
       cp_replication_failures = replication_failures_total m,
       cp_replication_retries = replication_retries_total m, cp_compactions = compactions_total m,
       cp_read_repairs = read_repairs_total m, cp_read_repair_failures = read_repair_failures_total m,
       cp_evictions_total = evictions_total m, cp_index_rebuilds = index_rebuilds_total m,
       cp_expirations_total = expirations_total m, cp_deletions_total = deletions_total m,
       cp_invalidations_total = invalidations_total m,
       cp_exact_match_hits_total = exact_match_hits_total m \<rparr>"

definition stats_entry :: "namespace_stats \<Rightarrow> namespace_stats_entry" where
  "stats_entry v =
     \<lparr> ne_entry_count = st_entry_count v, ne_dimension = st_dimension v,
       ne_oldest_entry_ts = st_oldest_entry_ts v, ne_newest_entry_ts = st_newest_entry_ts v,
       ne_total_accesses = st_total_accesses v, ne_evicted_ghost_count = st_evicted_ghost_count v \<rparr>"

definition stats_handler :: "app_state \<Rightarrow> stats_response" where
  "stats_handler st =
     \<lparr> sr_entry_count = si_entry_count (as_index st), sr_wal_path = as_wal_path st,
       sr_hnsw = \<lparr> sh_max_nb_connection = max_nb_connection (as_hnsw_config st),
         sh_ef_construction = ef_construction (as_hnsw_config st),
         sh_ef_search = cfg_ef_search (as_hnsw_config st), sh_dimension = si_dimension (as_index st) \<rparr>,
       sr_namespaces = AList.map_ran (\<lambda>_ v. stats_entry v) (si_namespace_stats (as_index st)),
       sr_counters = counters_of (as_metrics st) \<rparr>"

definition metrics_handler :: "nat \<Rightarrow> app_state \<Rightarrow> response" where
  "metrics_handler t0 st =
     (let stats = si_namespace_stats (as_index st);
          (cluster_nodes, peer_phi) =
            (case as_cluster st of
               Some c \<Rightarrow> (ring_node_count c, snapshot_at t0 (cl_detector c))
             | None \<Rightarrow> (1, []))
      in ok_response (MetricsBody (render (as_metrics st) stats cluster_nodes peer_phi)))"

end
