(* ===== verification/Server_Properties.thy ===== *)
theory Server_Properties
  imports Server_Write Server_Admin Samples Cluster_Properties
begin

text \<open>What a client of the HTTP interface can rely on.\<close>

section \<open>A node to try it on\<close>

definition app_a :: app_state where
  "app_a = \<lparr> as_node_id = ''n'', as_index = si_a, as_wal_path = ''w'', as_snapshot_path = ''w.snap'',
     as_hnsw_config = cfg0, as_cluster = None, as_router = None, as_replication_factor = 1,
     as_metrics = metrics_new, as_auth_token = None, as_max_replication_retries = 3,
     as_read_repair_enabled = True, as_conversation_ttl_seconds = Some 60 \<rparr>"

definition query_a :: query_request where
  "query_a = \<lparr> qr_embedding = [f32_one], qr_threshold = f32_one, qr_model_id = Some ''m'',
     qr_query_text = Some '' HELLO '', qr_cache_scope = None, qr_conversation_id = None \<rparr>"

definition insert_c :: insert_request where
  "insert_c = \<lparr> ir_embedding = [f32_one], ir_response = ''r'', ir_query_text = ''q'', ir_model_id = Some ''m'',
     ir_uuid = None, ir_ttl_seconds = None, ir_cache_scope = None, ir_conversation_id = Some ''c'' \<rparr>"


lemma trims [simp]: "trim ''m'' = ''m''" "trim ''c'' = ''c''" "trim ''u1'' = ''u1''"
  by code_simp+

section \<open>Validation\<close>

text \<open>A query with no embedding or one that is too long, without a model id, or with a threshold
  outside the unit interval (or not a number) is answered with 400, and nothing is counted,
  changed, forwarded or repaired.\<close>

lemma invalid_query_rejected:
  assumes "\<not> (0 < length (qr_embedding req) \<and> length (qr_embedding req) \<le> 4096 \<and>
    (\<exists>model_id. qr_model_id req = Some model_id \<and> trim model_id \<noteq> []) \<and>
    flt_le (Fin 0) (f32_value (qr_threshold req)) \<and> flt_le (f32_value (qr_threshold req)) (Fin 1))"
  shows "status_code (fst (query_handler search net gen now elapsed other params req st)) = 400 \<and>
    snd (query_handler search net gen now elapsed other params req st) = (None, st)"
  using assms
  by (auto simp: query_handler_def validate_embedding_def validate_model_id_def threshold_ok_def
      bad_request_def error_response_def MAX_EMBEDDING_DIM_def split: option.splits if_splits)

section \<open>Queries\<close>

text \<open>Accounting: a query that the node processes itself and does not reject counts once, as a hit or
  as a miss; a rejected one leaves the node as it was.\<close>

lemma local_query_counted_once:
  assumes "process_query_locally search net now elapsed other req repair st = (resp, task, st')"
  shows "(status_code resp = 400 \<and> st' = st \<and> task = None) \<or>
    (status_code resp = 200 \<and> queries_total (as_metrics st') = queries_total (as_metrics st) + 1 \<and>
     (queries_hit (as_metrics st') = queries_hit (as_metrics st) + 1 \<or>
      queries_miss (as_metrics st') = queries_miss (as_metrics st) + 1 \<and> as_index st' = as_index st))"
  using assms by (cases rule: process_query_cases) (auto simp: bad_request_def error_response_def ok_response_def)

section \<open>Inserts\<close>

text \<open>C23. An insert is answered with 200 exactly when the flush task acknowledged it. The entry it sent is
  in the namespace of the request; an explicit TTL gives its deadline, otherwise the configured one in
  a conversation, otherwise it has none; the deadline saturates instead of wrapping, so it is
  never in the past.\<close>

theorem local_insert_outcome:
  assumes "process_insert_locally new_uuid now elapsed result req st = (resp, sent, st')"
    and "ir_model_id req = Some model_id" and "trim model_id \<noteq> []"
  shows "(status_code resp = 200 \<longleftrightarrow> (\<exists>seq. result = Replied (Inr seq))) \<and>
    (status_code resp = 200 \<longrightarrow>
      (\<exists>e. sent = [e] \<and> resp_body resp = InsertBody \<lparr> ip_id = we_uuid e, ip_status = ''ok'' \<rparr> \<and>
         we_model_id e = request_namespace model_id (ir_cache_scope req) (ir_conversation_id req) \<and>
         (case ir_ttl_seconds req of
            Some ttl \<Rightarrow> \<exists>t. we_expires_at e = Some t \<and> unat t = min (unat now + unat ttl) (2 ^ 64 - 1) \<and> now \<le> t
          | None \<Rightarrow>
              (case nonblank (ir_conversation_id req) of
                 None \<Rightarrow> we_expires_at e = None
               | Some _ \<Rightarrow> we_expires_at e = map_option (saturating_add now) (as_conversation_ttl_seconds st)))))"
proof -
  have v: "validate_model_id (ir_model_id req) = Inr model_id" using assms(2,3) by (simp add: validate_model_id_def)
  have iff: "status_code resp = 200 \<longleftrightarrow> (\<exists>seq. result = Replied (Inr seq))"
    using assms(1) v
    by (auto simp: process_insert_locally_def local_insert_inner_def Let_def internal_error_def error_response_def
        insert_ok_def ok_response_def split: wal_result.splits sum.splits insert_error.splits)
  have "\<exists>e. sent = [e] \<and> e = insert_entry new_uuid now req model_id st \<and>
      resp_body resp = InsertBody \<lparr> ip_id = we_uuid e, ip_status = ''ok'' \<rparr>" if "status_code resp = 200"
    using assms(1) v that iff
    by (auto simp: process_insert_locally_def local_insert_inner_def Let_def insert_ok_def ok_response_def)
  moreover have "insert_namespace req model_id = request_namespace model_id (ir_cache_scope req) (ir_conversation_id req)"
    by (simp add: insert_namespace_def request_namespace_def)
  ultimately show ?thesis
    using iff unat_saturating_add saturating_add_ge
    by (fastforce simp: insert_entry_def effective_ttl_def split: option.splits)
qed

theorem local_insert_outcome_witness:
  "\<exists>e. fst (snd (process_insert_locally ''u9'' 7 (Fin 0) (Replied (Inr 3)) insert_c app_a)) = [e] \<and>
     we_expires_at e = Some 67 \<and> we_model_id e = ''m::conv_c''"
proof -
  obtain resp sent st' where p: "process_insert_locally ''u9'' 7 (Fin 0) (Replied (Inr 3)) insert_c app_a = (resp, sent, st')"
    by (metis prod_cases3)
  have "saturating_add 7 60 = (67 :: u64)" by (simp add: saturating_add_def)
  then show ?thesis
    using local_insert_outcome [OF p, of "''m''"] p
    by (auto simp: insert_c_def nonblank_def app_a_def request_namespace_def conversation_namespace_def
        base_namespace_def effective_namespace_def)
qed

section \<open>Deletion and invalidation\<close>

lemma remove_owned:
  assumes "si_inv si" and "namespace_for si uuid = Some m"
  shows "si_inv (snd (si_remove_by_uuid uuid si))" (is "si_inv ?si")
    and "namespace_for (snd (si_remove_by_uuid uuid si)) uuid = None"
    and "contents (snd (si_remove_by_uuid uuid si)) ns uuid = None"
    and "u \<noteq> uuid \<Longrightarrow> contents (snd (si_remove_by_uuid uuid si)) k u = contents si k u"
proof -
  have abs: "si_abs ?si = snd (sp_remove uuid (si_abs si))" 
    using si_remove_abs [OF si_inv_wf [OF assms(1)]] by blast
  have own: "sp_owner (si_abs si) uuid = Some m" using assms(2) by (simp add: namespace_for_def)
  show inv: "si_inv ?si" using si_inv_remove [OF assms(1)] by blast
  show none: "namespace_for ?si uuid = None"
    using arg_cong [OF abs, of sp_owner] own by (simp add: sp_remove_def namespace_for_def)
  show "contents ?si ns uuid = None" using si_inv_owner_iff [OF inv, of uuid ns] none by auto
  show "contents ?si k u = contents si k u" if "u \<noteq> uuid"
    using arg_cong [OF abs, of sp_content] own that by (auto simp: sp_remove_def)
qed



text \<open>C35. Invalidating by similarity answers with exactly the UUIDs of the live entries of the effective
  namespace that reach the threshold, removes exactly those, sends a tombstone for each of them that
  the channel takes, and counts each.\<close>

theorem invalidate_handler_exact:
  assumes "si_wf (as_index st)"
    and "invalidate_handler now sent params req st = (resp, tombs, forwards, st')" and "status_code resp = 200"
  shows "\<exists>model_id removed. vr_model_id req = Some model_id \<and>
    (let ns = effective_namespace model_id (vr_cache_scope req);
         hit = (\<lambda>e. \<not> expired now e \<and>
           flt_le (f32_value (vr_threshold req)) (cosine_similarity (vr_embedding req) (ce_embedding e)))
     in resp_body resp = InvalidateBody \<lparr> vp_invalidated_count = length removed, vp_uuids = removed \<rparr> \<and>
        set removed = {u. \<exists>e. contents (as_index st) ns u = Some e \<and> hit e} \<and>
        (\<forall>k u e. contents (as_index st') k u = Some e \<longleftrightarrow>
           contents (as_index st) k u = Some e \<and> \<not> (k = ns \<and> hit e)) \<and>
        tombs = map (\<lambda>u. tombstone_entry u ns) (filter sent removed) \<and>
        invalidations_total (as_metrics st') = invalidations_total (as_metrics st) + of_nat (length removed))"
proof -
  obtain model_id where m: "validate_model_id (vr_model_id req) = Inr model_id" "vr_model_id req = Some model_id"
    using assms(2,3)
    by (auto simp: invalidate_handler_def validate_model_id_def bad_request_def error_response_def
        split: sum.splits option.splits if_splits)
  let ?ns = "effective_namespace model_id (vr_cache_scope req)"
  let ?inv = "invalidate_similar (vr_embedding req) (f32_value (vr_threshold req)) ?ns now (as_index st)"
  obtain removed si where r: "?inv = (removed, si)" by fastforce
  have h: "resp_body resp = InvalidateBody \<lparr> vp_invalidated_count = length removed, vp_uuids = removed \<rparr> \<and>
      as_index st' = si \<and> tombs = map (\<lambda>u. tombstone_entry u ?ns) (filter sent removed) \<and>
      as_metrics st' = fold (\<lambda>_. record_invalidation ?ns) removed (as_metrics st)"
    using assms(2,3) m r
    by (auto simp: invalidate_handler_def bad_request_def error_response_def ok_response_def Let_def
        split: sum.splits if_splits)
  have cnt: "invalidations_total (fold (\<lambda>_. record_invalidation ?ns) us mt) = invalidations_total mt + of_nat (length us)"
    for us :: "string list" and mt
    by (induction us arbitrary: mt) (simp_all add: record_invalidation_def bump_ns_sel)
  note E = invalidate_spec [OF assms(1), of "vr_embedding req" "f32_value (vr_threshold req)" ?ns now]
  show ?thesis
    by (rule exI [of _ model_id], rule exI [of _ removed]) (use m(2) h cnt E r in \<open>simp add: Let_def\<close>)
qed

theorem invalidate_handler_exact_witness:
  "\<exists>removed. resp_body (fst (invalidate_handler 7 (\<lambda>_. True) \<lparr> lp_local = None, lp_repair = None \<rparr>
       \<lparr> vr_embedding = [f32_one], vr_threshold = f32_one, vr_model_id = Some ''x'', vr_cache_scope = None \<rparr> app_a)) =
     InvalidateBody \<lparr> vp_invalidated_count = length removed, vp_uuids = removed \<rparr> \<and> removed = []"
proof -
  let ?req = "\<lparr> vr_embedding = [f32_one], vr_threshold = f32_one, vr_model_id = Some ''x'', vr_cache_scope = None \<rparr>"
  obtain resp tombs fw st' where h: "invalidate_handler 7 (\<lambda>_. True) \<lparr> lp_local = None, lp_repair = None \<rparr> ?req app_a =
      (resp, tombs, fw, st')" by (metis prod_cases4)
  have "trim ''x'' = ''x''" by code_simp
  then have ok: "status_code resp = 200"
    using h by (auto simp: invalidate_handler_def validate_embedding_def validate_model_id_def threshold_ok_def
        MAX_EMBEDDING_DIM_def f32_one_def ok_response_def Let_def split: prod.splits)
  have "si_wf (as_index app_a)" "contents (as_index app_a) ''x'' = Map.empty"
    using si_inv_wf [OF si_inv_a] by (simp_all add: app_a_def contents_a)
  with invalidate_handler_exact [OF _ h ok] h show ?thesis
    by (auto simp: Let_def effective_namespace_def)
qed

section \<open>Invalid inserts\<close>

text \<open>An insert with an invalid embedding or model id, or a response above 100 KiB, is answered with
  400; nothing is logged, forwarded or counted.\<close>

lemma invalid_insert_rejected:
  assumes "\<not> (0 < length (ir_embedding req) \<and> length (ir_embedding req) \<le> 4096 \<and>
    (\<exists>model_id. ir_model_id req = Some model_id \<and> trim model_id \<noteq> []) \<and> length (ir_response req) \<le> 102400)"
  shows "status_code (fst (insert_handler net gen new_uuid local_uuid now elapsed result params req st)) = 400 \<and>
    snd (insert_handler net gen new_uuid local_uuid now elapsed result params req st) = ([], st)"
  using assms
  by (auto simp: insert_handler_def validate_embedding_def validate_model_id_def MAX_RESPONSE_BYTES_def
      bad_request_def error_response_def MAX_EMBEDDING_DIM_def split: option.splits if_splits)

end
