(* ===== verification/Service.thy ===== *)
theory Service
  imports Server_Write Server_Admin Auth
begin

text \<open>
  The HTTP surface of a node: the route table and the middleware of \<open>build_router\<close>
  (\<open>src/server.rs\<close>), composed with every handler. What the handlers get from outside (clocks,
  random UUIDs, the flush task, peers, libraries) is a record. The web framework is followed where
  its documentation fixes it: the middleware runs before routing, a pattern segment \<open>:x\<close> takes one
  segment that is not empty, an unknown path gives 404 and a wrong method 405, and a request whose
  body or query string does not parse is answered by the framework without calling the handler.
  \<open>HEAD\<close> requests, which the framework answers like \<open>GET\<close>, are left out.
\<close>

section \<open>Routes\<close>

datatype http_method = Get | Post | Delete

datatype endpoint =
  QueryEp | InsertEp | HealthEp | StatsEp | ClusterStatusEp | CompactEp | EntryStatsEp | InvalidateEp
  | DeleteEntryEp | MetricsEp | GetEntryEp | ReadRepairEp

definition routes :: "(string \<times> http_method \<times> endpoint) list" where
  "routes =
     [(''/query'', Post, QueryEp), (''/insert'', Post, InsertEp), (''/health'', Get, HealthEp),
      (''/stats'', Get, StatsEp), (''/cluster/status'', Get, ClusterStatusEp),
      (''/admin/compact'', Post, CompactEp), (''/admin/entry-stats'', Get, EntryStatsEp),
      (''/admin/invalidate'', Post, InvalidateEp), (''/entry/:uuid'', Delete, DeleteEntryEp),
      (''/metrics'', Get, MetricsEp), (''/internal/entry/:uuid'', Get, GetEntryEp),
      (''/internal/read-repair'', Post, ReadRepairEp)]"

fun segments :: "string \<Rightarrow> string list" where
  "segments [] = [[]]"
| "segments (c # s) =
     (if c = CHR ''/'' then [] # segments s
      else case segments s of [] \<Rightarrow> [[c]] | w # ws \<Rightarrow> (c # w) # ws)"

fun match_segments :: "string list \<Rightarrow> string list \<Rightarrow> string list option" where
  "match_segments [] [] = Some []"
| "match_segments (p # ps) (w # ws) =
     (case p of
        CHR '':'' # _ \<Rightarrow> (if w = [] then None else map_option ((#) w) (match_segments ps ws))
      | _ \<Rightarrow> (if p = w then match_segments ps ws else None))"
| "match_segments _ _ = None"

datatype routing = NoRoute | WrongMethod | Routed endpoint "string list"

definition route :: "http_method \<Rightarrow> string \<Rightarrow> routing" where
  "route meth path =
     (case filter (\<lambda>(pat, _, _). match_segments (segments pat) (segments path) \<noteq> None) routes of
        [] \<Rightarrow> NoRoute
      | (pat, meth', ep) # _ \<Rightarrow>
          if meth = meth' then Routed ep (the (match_segments (segments pat) (segments path))) else WrongMethod)"

section \<open>Serving a request\<close>

datatype request_body =
  QueryJson query_request | InsertJson insert_request | InvalidateJson invalidate_request
  | ReadRepairJson read_repair_request | OtherContent

record http_request =
  rq_method :: http_method
  rq_path :: string
  rq_authorization :: "string option"
  rq_params :: "local_param option"
  rq_body :: request_body

record env =
  ev_ct_eq :: "string \<Rightarrow> string \<Rightarrow> bool"
  ev_to_str :: "string \<Rightarrow> string option"
  ev_search :: hnsw_search
  ev_query_net :: "query_response net"
  ev_insert_net :: "insert_response net"
  ev_gen :: "int \<Rightarrow> int \<Rightarrow> int"
  ev_now :: u64
  ev_elapsed :: flt
  ev_instant :: nat
  ev_other :: "semantic_index \<Rightarrow> semantic_index"
  ev_new_uuid :: string
  ev_local_uuid :: string
  ev_wal :: wal_result
  ev_compact :: compact_wait
  ev_channel :: "string \<Rightarrow> bool"
  ev_rejection :: nat

record effects =
  ef_sent :: "wal_entry list"
  ef_forwards :: "http_out list"
  ef_repair :: "repair_task option"
  ef_compact :: bool

definition no_effects :: effects where
  "no_effects = \<lparr> ef_sent = [], ef_forwards = [], ef_repair = None, ef_compact = False \<rparr>"

definition reject :: "env \<Rightarrow> response" where
  "reject env = \<lparr> status_code = ev_rejection env, resp_body = EmptyBody \<rparr>"

text \<open>The handlers that only read.\<close>

definition read_endpoint :: "env \<Rightarrow> endpoint \<Rightarrow> string list \<Rightarrow> app_state \<Rightarrow> response option" where
  "read_endpoint env ep captures st =
     (case ep of
        HealthEp \<Rightarrow> Some (ok_response (HealthBody (health_handler st)))
      | StatsEp \<Rightarrow> Some (ok_response (StatsBody (stats_handler st)))
      | ClusterStatusEp \<Rightarrow> Some (ok_response (ClusterStatusBody (cluster_status_handler (ev_instant env) st)))
      | EntryStatsEp \<Rightarrow> Some (ok_response (EntryStatsBody (entry_stats_handler st)))
      | MetricsEp \<Rightarrow> Some (metrics_handler (ev_instant env) st)
      | GetEntryEp \<Rightarrow> Some (get_entry_handler (hd captures) st)
      | _ \<Rightarrow> None)"

text \<open>The handlers that write, on a request the framework could parse.\<close>

definition write_endpoint ::
  "env \<Rightarrow> endpoint \<Rightarrow> string list \<Rightarrow> local_param option \<Rightarrow> request_body \<Rightarrow> app_state \<Rightarrow> response \<times> effects \<times> app_state" where
  "write_endpoint env ep captures params body st =
     (case (ep, params, body) of
        (QueryEp, Some p, QueryJson req) \<Rightarrow>
          (let (resp, task, st') = query_handler (ev_search env) (ev_query_net env) (ev_gen env) (ev_now env)
                 (ev_elapsed env) (ev_other env) p req st
           in (resp, no_effects\<lparr> ef_repair := task \<rparr>, st'))
      | (InsertEp, Some p, InsertJson req) \<Rightarrow>
          (let (resp, sent, st') = insert_handler (ev_insert_net env) (ev_gen env) (ev_new_uuid env)
                 (ev_local_uuid env) (ev_now env) (ev_elapsed env) (ev_wal env) p req st
           in (resp, no_effects\<lparr> ef_sent := sent \<rparr>, st'))
      | (InvalidateEp, Some p, InvalidateJson req) \<Rightarrow>
          (let (resp, sent, fwd, st') = invalidate_handler (ev_now env) (ev_channel env) p req st
           in (resp, no_effects\<lparr> ef_sent := sent, ef_forwards := fwd \<rparr>, st'))
      | (DeleteEntryEp, Some p, _) \<Rightarrow>
          (let uuid = hd captures;
               (resp, sent, fwd, st') = delete_entry_handler (ev_other env) (ev_channel env uuid) p uuid st
           in (resp, no_effects\<lparr> ef_sent := sent, ef_forwards := fwd \<rparr>, st'))
      | (ReadRepairEp, _, ReadRepairJson req) \<Rightarrow>
          (let (resp, sent, st') = read_repair_handler (ev_now env) (ev_wal env) req st
           in (resp, no_effects\<lparr> ef_sent := sent \<rparr>, st'))
      | (CompactEp, _, _) \<Rightarrow>
          (compact_handler (ev_compact env), no_effects\<lparr> ef_compact := ev_compact env \<noteq> CompactClosed \<rparr>, st)
      | _ \<Rightarrow> (reject env, no_effects, st))"

definition serve :: "env \<Rightarrow> http_request \<Rightarrow> app_state \<Rightarrow> response \<times> effects \<times> app_state" where
  "serve env rq st =
     (case auth_layer (ev_ct_eq env) (ev_to_str env) (as_auth_token st) (rq_path rq) (rq_authorization rq) of
        Reject resp \<Rightarrow> (resp, no_effects, st)
      | PassOn \<Rightarrow>
          (case route (rq_method rq) (rq_path rq) of
             NoRoute \<Rightarrow> (\<lparr> status_code = 404, resp_body = EmptyBody \<rparr>, no_effects, st)
           | WrongMethod \<Rightarrow> (\<lparr> status_code = 405, resp_body = EmptyBody \<rparr>, no_effects, st)
           | Routed ep captures \<Rightarrow>
               (case read_endpoint env ep captures st of
                  Some resp \<Rightarrow> (resp, no_effects, st)
                | None \<Rightarrow> write_endpoint env ep captures (rq_params rq) (rq_body rq) st)))"

lemma exempt_routes:
  assumes "is_exempt path" and "route meth path = Routed ep captures"
  shows "ep \<in> {HealthEp, MetricsEp}"
proof -
  have "segments ''/health'' = [[], ''health'']" "segments ''/metrics'' = [[], ''metrics'']" by simp_all
  then show ?thesis
    using assms by (auto simp: is_exempt_def route_def routes_def split: if_splits)
qed

text \<open>A request without the configured token.\<close>

lemma serve_without_token:
  assumes "ct_eq_law (ev_ct_eq env)" and "as_auth_token st = Some token" and "token \<noteq> []"
    and "\<nexists>v. rq_authorization rq = Some v \<and> ev_to_str env v = Some (''Bearer '' @ token)"
  shows "snd (serve env rq st) = (no_effects, st) \<and>
    (rq_path rq \<notin> {''/health'', ''/metrics''} \<longrightarrow> fst (serve env rq st) = unauthorized)"
proof (cases "is_exempt (rq_path rq)")
  case True
  then have "auth_layer (ev_ct_eq env) (ev_to_str env) (as_auth_token st) (rq_path rq) (rq_authorization rq) = PassOn"
    by (simp add: auth_layer_def auth_middleware_def split: option.splits)
  moreover have "ep \<in> {HealthEp, MetricsEp}" if "route (rq_method rq) (rq_path rq) = Routed ep cs" for ep cs
    using exempt_routes [OF True that] .
  ultimately show ?thesis
    using True by (auto simp: serve_def read_endpoint_def is_exempt_def split: routing.splits option.splits endpoint.splits)
next
  case False
  then have "auth_middleware (ev_ct_eq env) (ev_to_str env) token (rq_path rq) (rq_authorization rq) \<noteq> PassOn"
    using auth_middleware_pass [OF assms(1)] assms(4) by blast
  then have "auth_layer (ev_ct_eq env) (ev_to_str env) (as_auth_token st) (rq_path rq) (rq_authorization rq) = Reject unauthorized"
    using auth_middleware_reject assms(2,3) by (simp add: auth_layer_def)
  then show ?thesis by (simp add: serve_def)
qed

section \<open>What every request keeps\<close>

text \<open>The index is well formed and the counters agree.\<close>

definition app_inv :: "app_state \<Rightarrow> bool" where
  "app_inv st \<longleftrightarrow> si_wf (as_index st) \<and> metrics_inv (as_metrics st)"

lemma metrics_inv_records [simp, intro]:
  assumes "metrics_inv m"
  shows "metrics_inv (record_query_hit ns d m)" "metrics_inv (record_query_miss ns d m)"
    "metrics_inv (record_insert ns d m)" "metrics_inv (record_replication_forward m)"
    "metrics_inv (record_replication_failure m)" "metrics_inv (record_replication_retry m)"
    "metrics_inv (record_read_repair m)" "metrics_inv (record_read_repair_failure m)"
    "metrics_inv (record_deletion ns m)" "metrics_inv (record_invalidation ns m)"
    "metrics_inv (record_exact_match_hit ns m)"
  using metrics_inv_event [OF assms, of "EvHit ns d"] metrics_inv_event [OF assms, of "EvMiss ns d"]
    metrics_inv_event [OF assms, of "EvInsert ns d"] metrics_inv_event [OF assms, of EvReplForward]
    metrics_inv_event [OF assms, of EvReplFailure] metrics_inv_event [OF assms, of EvReplRetry]
    metrics_inv_event [OF assms, of EvReadRepair] metrics_inv_event [OF assms, of EvReadRepairFailure]
    metrics_inv_event [OF assms, of "EvDeletion ns"] metrics_inv_event [OF assms, of "EvInvalidation ns"]
    metrics_inv_event [OF assms, of "EvExactMatch ns"]
  by simp_all

lemma metrics_inv_fold: "(\<And>m. metrics_inv m \<Longrightarrow> metrics_inv (f m)) \<Longrightarrow> metrics_inv m \<Longrightarrow> metrics_inv (fold (\<lambda>_. f) xs m)"
  by (induction xs arbitrary: m) auto

lemma forward_with_retry_inv:
  "forward_with_retry gen n f m = (r, ds, m') \<Longrightarrow> metrics_inv m \<Longrightarrow> metrics_inv m'"
  by (auto simp: forward_with_retry_def Let_def split: prod.splits intro!: metrics_inv_fold)

lemma replicate_to_inv:
  "replicate_to net gen n cs router req peers m = (ok, sk, att, m') \<Longrightarrow> metrics_inv m \<Longrightarrow> metrics_inv m'"
proof (induction peers arbitrary: m ok sk att)
  case (Cons p peers)
  obtain nid addr where p: "p = (nid, addr)" by fastforce
  obtain r ds m1 where f: "forward_with_retry gen n (forward_insert net router addr req) (record_replication_forward m) = (r, ds, m1)"
    by (metis prod_cases3)
  have m1: "metrics_inv m1" using forward_with_retry_inv [OF f] Cons.prems(2) by blast
  show ?case using Cons p f m1 by (auto simp: Let_def split: if_splits sum.splits prod.splits)
qed simp

lemma query_handler_inv:
  assumes "query_handler search net gen now elapsed other p req st = (resp, task, st')"
    and "app_inv st" and "\<And>si. si_wf si \<Longrightarrow> si_wf (other si)"
  shows "app_inv st'"
proof -
  have repair: "metrics_inv m" if "attempt_read_repair net s cluster ns req = (r, t, m)" "metrics_inv (as_metrics s)"
    for s cluster ns r t m
    using that by (auto simp: attempt_read_repair_def Let_def split: option.splits if_splits)
  have local: "app_inv st'" if "process_query_locally search net now elapsed other req b st = (resp, task, st')" for b
    using that assms(2,3)
    by (auto simp: process_query_locally_def app_inv_def Let_def si_wf_record_access
        split: sum.splits option.splits prod.splits if_splits dest!: repair)
  have fwd: "app_inv s" if "server_forward_query net gen addr req st = (r, s)" for addr r s
    using that assms(2) forward_with_retry_inv
    by (auto simp: server_forward_query_def app_inv_def split: option.splits sum.splits prod.splits)
  show ?thesis
    using assms(1,2) local fwd
    by (auto simp: query_handler_def split: sum.splits if_splits option.splits prod.splits)
qed

lemma insert_handler_inv:
  assumes "insert_handler net gen nu lu now elapsed result p req st = (resp, sent, st')" and "app_inv st"
  shows "app_inv st'"
proof -
  have inner: "app_inv s'" if "local_insert_inner u now elapsed result q s = (r, es, s')" "app_inv s" for u q s r es s'
    using that by (auto simp: local_insert_inner_def app_inv_def Let_def
        split: sum.splits wal_result.splits insert_error.splits)
  then have local: "app_inv s'" if "process_insert_locally u now elapsed result q s = (r, es, s')" "app_inv s" for u q s r es s'
    using that by (auto simp: process_insert_locally_def split: prod.splits sum.splits)
  have repl: "app_inv s'" if "replicate_insert net gen cs rs q u s = (r, s')" "app_inv s" for cs rs q u s r s'
    using that replicate_to_inv by (auto simp: replicate_insert_def app_inv_def Let_def split: option.splits prod.splits)
  show ?thesis
    using assms
    by (auto simp: insert_handler_def Let_def split: sum.splits if_splits option.splits prod.splits
        dest: inner local repl)
qed

lemma invalidate_handler_inv:
  assumes "invalidate_handler now sent p req st = (resp, tombs, fwd, st')" and "app_inv st"
  shows "app_inv st'"
proof -
  have wf: "si_wf (snd (invalidate_similar emb th m now (as_index st)))" for emb th m
    using assms(2) by (intro invalidate_similar_keeps(1)) (simp_all add: app_inv_def si_wf_struct)
  show ?thesis
    using assms
    by (auto simp: invalidate_handler_def app_inv_def Let_def split_beta wf split: sum.splits if_splits
        intro!: metrics_inv_fold)
qed

lemma delete_handler_inv:
  assumes "delete_entry_handler other ch p uuid st = (resp, tombs, fwd, st')" and "app_inv st"
    and "\<And>si. si_wf si \<Longrightarrow> si_wf (other si)"
  shows "app_inv st'"
proof -
  have wf: "si_wf (snd (si_remove_by_uuid uuid (other (as_index st))))"
    using assms(2,3) by (auto simp: app_inv_def intro!: si_wf_remove)
  show ?thesis
    using assms(1,2) wf
    by (auto simp: delete_entry_handler_def app_inv_def Let_def split_beta split: if_splits option.splits)
qed

lemma read_repair_handler_inv:
  assumes "read_repair_handler now result req st = (resp, sent, st')" and "app_inv st"
  shows "app_inv st'"
  using assms
  by (auto simp: read_repair_handler_def app_inv_def Let_def
      split: sum.splits if_splits wal_result.splits insert_error.splits)

lemmas handler_invs = query_handler_inv insert_handler_inv invalidate_handler_inv delete_handler_inv
  read_repair_handler_inv

lemma write_endpoint_inv:
  assumes "write_endpoint env ep captures params body st = (resp, ef, st')" and "app_inv st"
    and "\<And>si. si_wf si \<Longrightarrow> si_wf (ev_other env si)"
  shows "app_inv st'"
  using assms(1) handler_invs(1) [OF _ assms(2,3)] handler_invs(2) [OF _ assms(2)] handler_invs(3) [OF _ assms(2)]
    handler_invs(4) [OF _ assms(2,3)] handler_invs(5) [OF _ assms(2)] assms(2)
  by (auto simp: write_endpoint_def Let_def split: endpoint.splits option.splits request_body.splits prod.splits)

section \<open>The type of every response\<close>

text \<open>The body a client may expect of an endpoint on success; failures carry an error body.\<close>

primrec body_fits :: "endpoint \<Rightarrow> body \<Rightarrow> bool" where
  "body_fits ep (QueryBody x) \<longleftrightarrow> ep = QueryEp"
| "body_fits ep (InsertBody x) \<longleftrightarrow> ep = InsertEp"
| "body_fits ep (HealthBody x) \<longleftrightarrow> ep = HealthEp"
| "body_fits ep (StatsBody x) \<longleftrightarrow> ep = StatsEp"
| "body_fits ep (ClusterStatusBody x) \<longleftrightarrow> ep = ClusterStatusEp"
| "body_fits ep (CompactBody x) \<longleftrightarrow> ep = CompactEp"
| "body_fits ep (EntryStatsBody x) \<longleftrightarrow> ep = EntryStatsEp"
| "body_fits ep (InvalidateBody x) \<longleftrightarrow> ep = InvalidateEp"
| "body_fits ep (DeleteBody x) \<longleftrightarrow> ep = DeleteEntryEp"
| "body_fits ep (MetricsBody x) \<longleftrightarrow> ep = MetricsEp"
| "body_fits ep (FullEntryBody x) \<longleftrightarrow> ep = GetEntryEp"
| "body_fits ep (ReadRepairBody x) \<longleftrightarrow> ep = ReadRepairEp"
| "body_fits ep (ErrorBody x) \<longleftrightarrow> False"
| "body_fits ep EmptyBody \<longleftrightarrow> False"

definition typed_response :: "endpoint \<Rightarrow> response \<Rightarrow> bool" where
  "typed_response ep resp \<longleftrightarrow>
     status_code resp = 200 \<and> body_fits ep (resp_body resp) \<or>
     status_code resp \<in> {400, 404, 500, 502} \<and> (\<exists>msg. resp_body resp = ErrorBody msg)"

lemma typed_responses [simp]:
  "typed_response ep (ok_response b) \<longleftrightarrow> body_fits ep b"
  "typed_response ep (bad_request msg)" "typed_response ep (not_found msg)"
  "typed_response ep (internal_error msg)" "typed_response ep (bad_gateway msg)"
  "typed_response InsertEp (insert_ok u)"
  by (auto simp: typed_response_def ok_response_def bad_request_def not_found_def internal_error_def bad_gateway_def
      error_response_def insert_ok_def)

lemma typed_read: "read_endpoint env ep cs st = Some resp \<Longrightarrow> typed_response ep resp"
  by (auto simp: read_endpoint_def metrics_handler_def get_entry_handler_def Let_def split_beta
      split: endpoint.splits option.splits)

lemma typed_query: "query_handler search net gen now elapsed other p req st = (resp, task, st') \<Longrightarrow> typed_response QueryEp resp"
  by (auto simp: query_handler_def process_query_locally_def server_forward_query_def Let_def
      split: sum.splits option.splits prod.splits if_splits)

lemma typed_local_insert:
  "local_insert_inner u now elapsed result req st = (Inl resp, sent, st') \<Longrightarrow> typed_response InsertEp resp"
  by (auto simp: local_insert_inner_def Let_def split: sum.splits wal_result.splits insert_error.splits)

lemma typed_insert:
  assumes "insert_handler net gen nu lu now elapsed result p req st = (resp, sent, st')"
  shows "typed_response InsertEp resp"
proof -
  have local: "typed_response InsertEp r" if "process_insert_locally u now elapsed result q s = (r, es, s')" for u q s r es s'
    using that by (auto simp: process_insert_locally_def dest: typed_local_insert split: prod.splits sum.splits)
  have repl: "typed_response InsertEp r" if "replicate_insert net gen cs rs q u s = (r, s')" for cs rs q u s r s'
    using that by (auto simp: replicate_insert_def Let_def split: option.splits prod.splits if_splits)
  show ?thesis
    using assms
    by (auto simp: insert_handler_def Let_def split: sum.splits if_splits option.splits prod.splits
        dest: local repl typed_local_insert)
qed

lemma typed_write:
  assumes "write_endpoint env ep cs params body st = (resp, ef, st')"
  shows "typed_response ep resp \<or> resp = reject env"
  using assms
  by (auto simp: write_endpoint_def Let_def invalidate_handler_def delete_entry_handler_def read_repair_handler_def
      compact_handler_def split: endpoint.splits option.splits request_body.splits prod.splits sum.splits if_splits
        wal_result.splits insert_error.splits compact_wait.splits dest: typed_query typed_insert)

lemma typed_serve:
  assumes "route (rq_method rq) (rq_path rq) = Routed ep cs" and "serve env rq st = (resp, ef, st')"
  shows "typed_response ep resp \<or> resp = reject env \<or> resp = unauthorized"
proof (cases "auth_layer (ev_ct_eq env) (ev_to_str env) (as_auth_token st) (rq_path rq) (rq_authorization rq)")
  case (Reject r)
  then show ?thesis using assms(2) auth_layer_reject [OF Reject] by (simp add: serve_def)
next
  case PassOn
  then show ?thesis
    using assms by (auto simp: serve_def dest: typed_read typed_write split: option.splits)
qed

end
