(* ===== verification/Service_Properties.thy ===== *)
theory Service_Properties
  imports Service Server_Properties
begin

text \<open>
  What holds of every request to a node, whatever its route, and of the metrics page it serves.
\<close>

section \<open>Requests\<close>

definition env_a :: env where
  "env_a = \<lparr> ev_ct_eq = (=), ev_to_str = Some, ev_search = flat_search, ev_query_net = no_net, ev_insert_net = no_net,
     ev_gen = (\<lambda>lo hi. lo), ev_now = 7, ev_elapsed = Fin 0, ev_instant = 0, ev_other = id, ev_new_uuid = ''u8'',
     ev_local_uuid = ''u9'', ev_wal = Replied (Inr 1), ev_compact = CompactClosed, ev_channel = (\<lambda>_. True),
     ev_rejection = 422 \<rparr>"

definition delete_a :: http_request where
  "delete_a = \<lparr> rq_method = Delete, rq_path = ''/entry/u1'', rq_authorization = Some ''Bearer t'',
     rq_params = Some \<lparr> lp_local = None, lp_repair = None \<rparr>, rq_body = OtherContent \<rparr>"

text \<open>C5. Without the token nothing happens: when a token is configured, a request that does not carry exactly
  that bearer token changes nothing of the node, sends nothing to the log, to the peers or to the
  repair task, and starts no compaction, whatever its method, path and body. It is answered with
  401, except on the two exempt paths, which only read.\<close>

theorem no_token_no_effect:
  assumes "ct_eq_law (ev_ct_eq env)" and "as_auth_token st = Some token" and "token \<noteq> []"
    and "\<nexists>v. rq_authorization rq = Some v \<and> ev_to_str env v = Some (''Bearer '' @ token)"
  shows "snd (serve env rq st) = (no_effects, st) \<and>
    (rq_path rq \<notin> {''/health'', ''/metrics''} \<longrightarrow> fst (serve env rq st) = unauthorized)"
  by (rule serve_without_token [OF assms])

theorem no_token_no_effect_witness:
  "serve env_a delete_a (app_a\<lparr> as_auth_token := Some ''secret'' \<rparr>) =
     (unauthorized, no_effects, app_a\<lparr> as_auth_token := Some ''secret'' \<rparr>)"
  using no_token_no_effect [of env_a "app_a\<lparr> as_auth_token := Some ''secret'' \<rparr>" "''secret''" delete_a]
  by (simp add: env_a_def delete_a_def ct_eq_law_def prod_eq_iff)

text \<open>C7. Every request keeps the node consistent: the side-tables of the index agree and the owner map is
  sound, and the counters stay the sums of the per-namespace ones, whatever the peers, the flush task
  and the clock answer, as long as what other tasks do in between keeps the index well formed.\<close>

theorem serve_keeps_invariant:
  assumes "si_wf (as_index st)" and "metrics_inv (as_metrics st)" and "\<And>si. si_wf si \<Longrightarrow> si_wf (ev_other env si)"
    and "serve env rq st = (resp, ef, st')"
  shows "si_wf (as_index st') \<and> metrics_inv (as_metrics st')"
proof -
  have "app_inv st" using assms(1,2) by (simp add: app_inv_def)
  then have "app_inv st'"
    using assms(4) write_endpoint_inv [OF _ _ assms(3)]
    by (auto simp: serve_def split: gate.splits routing.splits option.splits)
  then show ?thesis by (simp add: app_inv_def)
qed

lemma serve_delete_a:
  "status_code (fst (serve env_a delete_a app_a)) = 200"
  by (simp add: serve_def env_a_def delete_a_def app_a_def auth_layer_def route_def routes_def read_endpoint_def
      write_endpoint_def delete_entry_handler_def Let_def si_evals namespace_for_def ok_response_def split_beta)

theorem serve_keeps_invariant_witness:
  "\<exists>resp ef st'. serve env_a delete_a app_a = (resp, ef, st') \<and> status_code resp = 200 \<and>
     si_wf (as_index st') \<and> metrics_inv (as_metrics st')"
proof -
  obtain resp ef st' where s: "serve env_a delete_a app_a = (resp, ef, st')" by (metis prod_cases3)
  have "si_wf (as_index app_a)" "metrics_inv (as_metrics app_a)"
    using si_inv_a si_inv_wf metrics_inv_new by (auto simp: app_a_def)
  then show ?thesis
    using serve_keeps_invariant [OF _ _ _ s] s serve_delete_a by (simp add: env_a_def)
qed

text \<open>C22. Every response has the type its route promises: a request that is routed is answered by 200 with the
  body of that endpoint and no other, by one of the error statuses 400, 404, 500 and 502 with a JSON
  error, by the framework's rejection of a body or query string it could not parse, or by 401.\<close>

theorem serve_typed:
  assumes "route (rq_method rq) (rq_path rq) = Routed ep captures"
  shows "case serve env rq st of (resp, ef, st') \<Rightarrow>
    status_code resp = 200 \<and> body_fits ep (resp_body resp) \<or>
    status_code resp \<in> {400, 404, 500, 502} \<and> (\<exists>msg. resp_body resp = ErrorBody msg) \<or>
    resp = reject env \<or> resp = unauthorized"
proof (cases "serve env rq st")
  case (fields resp ef st')
  then show ?thesis using typed_serve [OF assms] unfolding typed_response_def by fastforce
qed

theorem serve_typed_witness:
  "body_fits DeleteEntryEp (resp_body (fst (serve env_a delete_a app_a)))"
proof -
  have "route (rq_method delete_a) (rq_path delete_a) = Routed DeleteEntryEp [''u1'']"
    by (simp add: delete_a_def route_def routes_def)
  from serve_typed [OF this, of env_a app_a] serve_delete_a show ?thesis
    by (auto simp: reject_def unauthorized_def error_response_def env_a_def split: prod.splits)
qed

section \<open>The metrics page\<close>

text \<open>The metrics page has the lines it should have and no others: their number is fixed by the numbers
  of namespaces, peers and histogram buckets, so no namespace or peer name, which may contain
  quotes and newlines, can add, split or hide a line.\<close>

lemma metrics_page_shape:
  "newlines (render m stats n peers) =
     137 + length (lh_buckets (query_duration m)) + length (lh_buckets (insert_duration m)) +
     2 * length stats + 8 * card (fst ` set (ns_metrics m) \<union> fst ` set stats) + length peers"
  by (rule newlines_render)

text \<open>A latency histogram is exact and cumulative: after any observations, fewer than \<open>2 ^ 64\<close>, each
  bucket counts those that do not exceed its bound (one that is not a number or negative counts as
  0), the counts rise with the bounds, and the total is the number of observations.\<close>

lemma histogram_exact:
  assumes "length ds < 2 ^ 64"
  shows "map (\<lambda>(b, c). (b, unat c)) (lh_buckets (fold observe ds lh_new)) =
      map (\<lambda>b. (b, length (filter (\<lambda>d. flt_le (clamp_duration d) (Fin b)) ds))) BUCKET_BOUNDS \<and>
    sorted (map (unat \<circ> snd) (lh_buckets (fold observe ds lh_new))) \<and>
    unat (lh_count (fold observe ds lh_new)) = length ds"
proof -
  have small: "unat (of_nat (length (filter P ds)) :: u64) = length (filter P ds)" for P
    using le_less_trans [OF length_filter_le assms] by (simp add: unsigned_of_nat take_bit_eq_mod)
  have b: "lh_buckets (fold observe ds lh_new) =
      map (\<lambda>b. (b, of_nat (length (filter (\<lambda>d. flt_le (clamp_duration d) (Fin b)) ds)))) BUCKET_BOUNDS"
    using observe_fold [of ds lh_new] by (simp add: lh_new_def)
  have "sorted (map (\<lambda>b. length (filter (\<lambda>d. flt_le (clamp_duration d) (Fin b)) ds)) BUCKET_BOUNDS)"
    by (rule sorted_map_mono) (simp_all add: BUCKET_BOUNDS_def mono_onI filter_le_mono)
  moreover have "unat (lh_count (fold observe ds lh_new)) = length ds"
    using observe_fold [of ds lh_new] small [of "\<lambda>_. True"] by (simp add: lh_new_def)
  ultimately show ?thesis unfolding b by (simp add: small comp_def)
qed

end
