(* ===== verification/Peers.thy ===== *)
theory Peers
  imports Service
begin

text \<open>
  Nodes talking to each other: the requests \<open>src/router.rs\<close> builds, as the peer's framework parses
  them, and the answers of the peer's own handlers of \<open>src/server.rs\<close> as the network. The interface
  \<open>peer_network\<close> says that a reply with a body came from a peer that served the request.
\<close>

section \<open>What arrives at a peer\<close>

definition after_scheme :: "string \<Rightarrow> string option" where
  "after_scheme url =
     (case strip_prefix ''http://'' url of Some s \<Rightarrow> Some s | None \<Rightarrow> strip_prefix ''https://'' url)"

text \<open>The fields of the query string; a value that is not a boolean is rejected.\<close>

fun read_params :: "string list \<Rightarrow> local_param \<Rightarrow> local_param option" where
  "read_params [] p = Some p"
| "read_params (f # fs) p =
     (if f = ''local=true'' then read_params fs (p\<lparr> lp_local := Some True \<rparr>)
      else if f = ''local=false'' then read_params fs (p\<lparr> lp_local := Some False \<rparr>)
      else if f = ''repair=true'' then read_params fs (p\<lparr> lp_repair := Some True \<rparr>)
      else if f = ''repair=false'' then read_params fs (p\<lparr> lp_repair := Some False \<rparr>)
      else if is_prefix ''local='' f \<or> is_prefix ''repair='' f then None
      else read_params fs p)"

fun fields :: "string \<Rightarrow> string list" where
  "fields [] = [[]]"
| "fields (c # s) =
     (if c = CHR ''&'' then [] # fields s
      else case fields s of [] \<Rightarrow> [[c]] | w # ws \<Rightarrow> (c # w) # ws)"

definition params_of :: "string \<Rightarrow> local_param option" where
  "params_of query = read_params (fields query) \<lparr> lp_local = None, lp_repair = None \<rparr>"

fun body_in :: "out_body \<Rightarrow> request_body" where
  "body_in (QueryOut r) = QueryJson r"
| "body_in (InsertOut r) = InsertJson r"
| "body_in (InvalidateOut r) = InvalidateJson r"
| "body_in NoBody = OtherContent"

definition method_in :: "string \<Rightarrow> http_method option" where
  "method_in m = (if m = ''GET'' then Some Get else if m = ''POST'' then Some Post
     else if m = ''DELETE'' then Some Delete else None)"

definition request_of :: "http_out \<Rightarrow> (string \<times> http_request) option" where
  "request_of out =
     (case (after_scheme (ho_url out), method_in (ho_method out)) of
        (Some s, Some meth) \<Rightarrow>
          (let rest = dropWhile (\<lambda>c. c \<noteq> CHR ''/'') s
           in Some (takeWhile (\<lambda>c. c \<noteq> CHR ''/'') s,
                \<lparr> rq_method = meth, rq_path = takeWhile (\<lambda>c. c \<noteq> CHR ''?'') rest,
                  rq_authorization = ho_authorization out,
                  rq_params = params_of (drop 1 (dropWhile (\<lambda>c. c \<noteq> CHR ''?'') rest)),
                  rq_body = body_in (ho_body out) \<rparr>))
      | _ \<Rightarrow> None)"

text \<open>Host and port, and UUIDs as the program draws them.\<close>

definition plain_addr :: "string \<Rightarrow> bool" where
  "plain_addr a \<longleftrightarrow> CHR ''/'' \<notin> set a"

definition uuid_char :: "char \<Rightarrow> bool" where
  "uuid_char c \<longleftrightarrow> (let n = of_char c :: nat in 48 \<le> n \<and> n \<le> 57 \<or> 97 \<le> n \<and> n \<le> 122 \<or> n = 45)"

definition plain_uuid :: "string \<Rightarrow> bool" where
  "plain_uuid u \<longleftrightarrow> u \<noteq> [] \<and> list_all uuid_char u"

lemma after_scheme_url: "after_scheme (scheme r @ ''://'' @ s) = Some s"
  by (auto simp: after_scheme_def scheme_def strip_prefix_def is_prefix_iff)

lemma split_at: "c \<notin> set a \<Longrightarrow> takeWhile (\<lambda>x. x \<noteq> c) (a @ c # s) = a"
  "c \<notin> set a \<Longrightarrow> dropWhile (\<lambda>x. x \<noteq> c) (a @ c # s) = c # s"
  by (induction a) auto

text \<open>A request to a plain address arrives there with its path and its parameters.\<close>

lemma request_of_out:
  assumes "plain_addr addr" and "method_in m = Some meth" and "CHR ''?'' \<notin> set path"
  shows "request_of (out_request r m addr (CHR ''/'' # path @ CHR ''?'' # query) b) =
    Some (addr, \<lparr> rq_method = meth, rq_path = CHR ''/'' # path, rq_authorization = with_auth r,
      rq_params = params_of query, rq_body = body_in b \<rparr>)"
proof -
  have "takeWhile (\<lambda>x. x \<noteq> CHR ''?'') (CHR ''/'' # path @ CHR ''?'' # query) = CHR ''/'' # path"
    "dropWhile (\<lambda>x. x \<noteq> CHR ''?'') (CHR ''/'' # path @ CHR ''?'' # query) = CHR ''?'' # query"
    using split_at [of "CHR ''?''" "CHR ''/'' # path" query] assms(3) by simp_all
  then show ?thesis
    using assms by (simp add: request_of_def out_request_def after_scheme_url [simplified] split_at plain_addr_def Let_def)
qed

text \<open>The requests a router sends, as they arrive: all of them carry \<open>local=true\<close>.\<close>

definition local_rq :: "cluster_router \<Rightarrow> http_method \<Rightarrow> string \<Rightarrow> bool option \<Rightarrow> request_body \<Rightarrow> http_request" where
  "local_rq r meth path repair b =
     \<lparr> rq_method = meth, rq_path = path, rq_authorization = with_auth r,
       rq_params = Some \<lparr> lp_local = Some True, lp_repair = repair \<rparr>, rq_body = b \<rparr>"

lemma params_of_simps [simp]:
  "params_of ''local=true'' = Some \<lparr> lp_local = Some True, lp_repair = None \<rparr>"
  "params_of ''local=true&repair=true'' = Some \<lparr> lp_local = Some True, lp_repair = Some True \<rparr>"
  "params_of ''local=true&repair=false'' = Some \<lparr> lp_local = Some True, lp_repair = Some False \<rparr>"
  by (simp_all add: params_of_def)

lemma methods_in [simp]: "method_in ''POST'' = Some Post" "method_in ''GET'' = Some Get" "method_in ''DELETE'' = Some Delete"
  by (simp_all add: method_in_def)

lemma uuid_no_mark: "plain_uuid u \<Longrightarrow> CHR ''?'' \<notin> set u" "plain_uuid u \<Longrightarrow> CHR ''/'' \<notin> set u"
  by (auto simp: plain_uuid_def uuid_char_def list_all_iff)

lemma trim_plain_uuid: "plain_uuid u \<Longrightarrow> trim u \<noteq> []"
  by (cases u) (auto simp: plain_uuid_def uuid_char_def is_whitespace_def trim_Nil_iff Let_def)

lemma arrivals:
  assumes "plain_addr addr"
  shows "request_of (out_request r ''POST'' addr ''/insert?local=true'' (InsertOut req)) =
      Some (addr, local_rq r Post ''/insert'' None (InsertJson req))"
    and "request_of (out_request r ''POST'' addr ''/query?local=true&repair=true'' (QueryOut q)) =
      Some (addr, local_rq r Post ''/query'' (Some True) (QueryJson q))"
    and "request_of (out_request r ''POST'' addr ''/query?local=true&repair=false'' (QueryOut q)) =
      Some (addr, local_rq r Post ''/query'' (Some False) (QueryJson q))"
    and "request_of (invalidate_out r addr v) = Some (addr, local_rq r Post ''/admin/invalidate'' None (InvalidateJson v))"
    and "plain_uuid u \<Longrightarrow> request_of (delete_out r addr u) =
      Some (addr, local_rq r Delete (''/entry/'' @ u) None OtherContent)"
    and "plain_uuid u \<Longrightarrow> request_of (out_request r ''GET'' addr (''/internal/entry/'' @ u @ ''?local=true'') NoBody) =
      Some (addr, local_rq r Get (''/internal/entry/'' @ u) None OtherContent)"
  using request_of_out [OF assms, of "''POST''" Post "''insert''" r "''local=true''" "InsertOut req"]
    request_of_out [OF assms, of "''POST''" Post "''query''" r "''local=true&repair=true''" "QueryOut q"]
    request_of_out [OF assms, of "''POST''" Post "''query''" r "''local=true&repair=false''" "QueryOut q"]
    request_of_out [OF assms, of "''POST''" Post "''admin/invalidate''" r "''local=true''" "InvalidateOut v"]
    request_of_out [OF assms, of "''DELETE''" Delete "''entry/'' @ u" r "''local=true''" NoBody]
    request_of_out [OF assms, of "''GET''" Get "''internal/entry/'' @ u" r "''local=true''" NoBody] uuid_no_mark(1) [of u]
  by (simp_all add: local_rq_def invalidate_out_def delete_out_def)

section \<open>Routes of the forwarded requests\<close>

lemma segments_plain: "CHR ''/'' \<notin> set u \<Longrightarrow> segments u = [u]"
  by (induction u) auto

lemma peer_routes:
  "route Post ''/insert'' = Routed InsertEp []" "route Post ''/query'' = Routed QueryEp []"
  "route Post ''/admin/invalidate'' = Routed InvalidateEp []"
  "plain_uuid u \<Longrightarrow> route Delete (''/entry/'' @ u) = Routed DeleteEntryEp [u]"
  "plain_uuid u \<Longrightarrow> route Get (''/internal/entry/'' @ u) = Routed GetEntryEp [u]"
  using segments_plain [OF uuid_no_mark(2), of u] by (auto simp: route_def routes_def plain_uuid_def)

section \<open>The network of peers\<close>

text \<open>
  \<open>peer addr env st\<close>: the node at \<open>addr\<close> may be in the state \<open>st\<close> with the surroundings \<open>env\<close>. A
  reply with a body is what some such node answered; requests may also be lost or refused.
\<close>

locale peer_network =
  fixes peer :: "string \<Rightarrow> env \<Rightarrow> app_state \<Rightarrow> bool" and body_of :: "body \<Rightarrow> 'b option"
    and net :: "http_out \<Rightarrow> nat \<Rightarrow> req_error + nat \<times> 'b option"
  assumes served: "net out n = Inr (status, Some b) \<Longrightarrow>
    \<exists>addr rq env st. request_of out = Some (addr, rq) \<and> peer addr env st \<and>
      status = status_code (fst (serve env rq st)) \<and> body_of (resp_body (fst (serve env rq st))) = Some b"
begin

text \<open>A decoded reply is the body of a response that is not an error.\<close>

lemma decoded:
  assumes "decode_reply (net out n) = Inr b" and "request_of out = Some (addr, rq)"
  obtains env st resp ef st' where "peer addr env st" "serve env rq st = (resp, ef, st')"
    "body_of (resp_body resp) = Some b" "\<not> (400 \<le> status_code resp \<and> status_code resp < 600)"
proof -
  obtain status where n: "net out n = Inr (status, Some b)" and s: "\<not> (400 \<le> status \<and> status < 600)"
    using assms(1) by (auto simp: decode_reply_def split: sum.splits prod.splits if_splits option.splits)
  obtain env st where p: "peer addr env st" "status = status_code (fst (serve env rq st))"
      "body_of (resp_body (fst (serve env rq st))) = Some b"
    using served [OF n] assms(2) by auto
  obtain resp ef st' where "serve env rq st = (resp, ef, st')" by (metis prod_cases3)
  then show thesis using that p s by auto
qed

end

primrec insert_body :: "body \<Rightarrow> insert_response option" where
  "insert_body (InsertBody b) = Some b"
| "insert_body (ErrorBody x) = None" | "insert_body (QueryBody x) = None" | "insert_body (FullEntryBody x) = None"
| "insert_body (ReadRepairBody x) = None" | "insert_body (DeleteBody x) = None" | "insert_body (InvalidateBody x) = None"
| "insert_body (CompactBody x) = None" | "insert_body (HealthBody x) = None" | "insert_body (StatsBody x) = None"
| "insert_body (EntryStatsBody x) = None" | "insert_body (ClusterStatusBody x) = None" | "insert_body (MetricsBody x) = None"
| "insert_body EmptyBody = None"

primrec query_body :: "body \<Rightarrow> query_response option" where
  "query_body (QueryBody b) = Some b"
| "query_body (ErrorBody x) = None" | "query_body (InsertBody x) = None" | "query_body (FullEntryBody x) = None"
| "query_body (ReadRepairBody x) = None" | "query_body (DeleteBody x) = None" | "query_body (InvalidateBody x) = None"
| "query_body (CompactBody x) = None" | "query_body (HealthBody x) = None" | "query_body (StatsBody x) = None"
| "query_body (EntryStatsBody x) = None" | "query_body (ClusterStatusBody x) = None" | "query_body (MetricsBody x) = None"
| "query_body EmptyBody = None"

primrec full_body :: "body \<Rightarrow> full_entry_response option" where
  "full_body (FullEntryBody b) = Some b"
| "full_body (ErrorBody x) = None" | "full_body (InsertBody x) = None" | "full_body (QueryBody x) = None"
| "full_body (ReadRepairBody x) = None" | "full_body (DeleteBody x) = None" | "full_body (InvalidateBody x) = None"
| "full_body (CompactBody x) = None" | "full_body (HealthBody x) = None" | "full_body (StatsBody x) = None"
| "full_body (EntryStatsBody x) = None" | "full_body (ClusterStatusBody x) = None" | "full_body (MetricsBody x) = None"
| "full_body EmptyBody = None"

text \<open>A network of nodes that all answer.\<close>

definition node_net ::
  "(string \<Rightarrow> (env \<times> app_state) option) \<Rightarrow> (body \<Rightarrow> 'b option) \<Rightarrow> http_out \<Rightarrow> nat \<Rightarrow> req_error + nat \<times> 'b option" where
  "node_net peers body_of out n =
     (case request_of out of
        None \<Rightarrow> Inl no_error
      | Some (addr, rq) \<Rightarrow>
          (case peers addr of
             None \<Rightarrow> Inl \<lparr> re_connect = True, re_timeout = False, re_status = None \<rparr>
           | Some (env, st) \<Rightarrow>
               (let resp = fst (serve env rq st) in Inr (status_code resp, body_of (resp_body resp)))))"

interpretation node_network: peer_network "\<lambda>addr env st. peers addr = Some (env, st)" body_of "node_net peers body_of"
  for peers body_of
  by unfold_locales (auto simp: node_net_def Let_def split: option.splits)

lemma peer_network_mono:
  "peer_network peer body_of net \<Longrightarrow> (\<And>addr env st. peer addr env st \<Longrightarrow> peer' addr env st) \<Longrightarrow>
     peer_network peer' body_of net"
  unfolding peer_network_def by blast

lemma peer_network_down: "peer_network peer body_of no_net"
  by unfold_locales (simp add: no_net_def)

section \<open>Requests that were served\<close>

lemma serve_insert_body:
  assumes "serve env rq st = (resp, ef, st')" and "resp_body resp = InsertBody ip"
  shows "\<exists>p req. rq_params rq = Some p \<and> rq_body rq = InsertJson req \<and> status_code resp = 200 \<and>
    insert_handler (ev_insert_net env) (ev_gen env) (ev_new_uuid env) (ev_local_uuid env) (ev_now env)
      (ev_elapsed env) (ev_wal env) p req st = (resp, ef_sent ef, st')"
proof -
  obtain ep cs where r: "route (rq_method rq) (rq_path rq) = Routed ep cs"
    using assms by (auto simp: serve_def unauthorized_def error_response_def dest!: auth_layer_reject
        split: gate.splits routing.splits)
  have t: "typed_response ep resp" using typed_serve [OF r assms(1)] assms(2)
    by (auto simp: reject_def unauthorized_def error_response_def)
  then have ep: "ep = InsertEp" and s: "status_code resp = 200" using assms(2) by (auto simp: typed_response_def)
  have "write_endpoint env InsertEp cs (rq_params rq) (rq_body rq) st = (resp, ef, st')"
    using assms r ep by (auto simp: serve_def read_endpoint_def unauthorized_def error_response_def
        dest!: auth_layer_reject split: gate.splits)
  then show ?thesis
    using assms(2) s by (auto simp: write_endpoint_def reject_def no_effects_def
        split: option.splits request_body.splits prod.splits)
qed

lemma serve_query_body:
  assumes "serve env rq st = (resp, ef, st')" and "resp_body resp = QueryBody qp"
  shows "\<exists>p req. rq_params rq = Some p \<and> rq_body rq = QueryJson req \<and>
    query_handler (ev_search env) (ev_query_net env) (ev_gen env) (ev_now env) (ev_elapsed env) (ev_other env) p req st =
      (resp, ef_repair ef, st')"
proof -
  obtain ep cs where r: "route (rq_method rq) (rq_path rq) = Routed ep cs"
    using assms by (auto simp: serve_def unauthorized_def error_response_def dest!: auth_layer_reject
        split: gate.splits routing.splits)
  have "typed_response ep resp" using typed_serve [OF r assms(1)] assms(2)
    by (auto simp: reject_def unauthorized_def error_response_def)
  then have ep: "ep = QueryEp" using assms(2) by (auto simp: typed_response_def)
  have "write_endpoint env QueryEp cs (rq_params rq) (rq_body rq) st = (resp, ef, st')"
    using assms r ep by (auto simp: serve_def read_endpoint_def unauthorized_def error_response_def
        dest!: auth_layer_reject split: gate.splits)
  then show ?thesis
    using assms(2) by (auto simp: write_endpoint_def reject_def no_effects_def
        split: option.splits request_body.splits prod.splits)
qed

lemma serve_get_entry:
  assumes "serve env (local_rq r Get (''/internal/entry/'' @ u) None OtherContent) st = (resp, ef, st')" and "plain_uuid u"
    and "resp_body resp = FullEntryBody full"
  shows "\<exists>fe. get_entry_by_uuid (as_index st) u = Some fe \<and> full = full_response fe"
proof -
  have "resp \<noteq> unauthorized" using assms(3) by (auto simp: unauthorized_def error_response_def)
  then have "resp = get_entry_handler u st"
    using assms(1) peer_routes(5) [OF assms(2)]
    by (auto simp: serve_def local_rq_def read_endpoint_def dest: auth_layer_reject split: gate.splits)
  then show ?thesis using assms(3)
    by (auto simp: get_entry_handler_def ok_response_def not_found_def error_response_def split: option.splits)
qed

text \<open>What a repair logs is the entry of a node at that address.\<close>

lemma repair_logged:
  assumes "peer_network peer full_body net" and "plain_addr addr" and "plain_uuid u"
    and "perform_repair net result (nid, addr, u, ns) st = ([e], st')"
  shows "\<exists>env2 st2 fe. peer addr env2 st2 \<and> get_entry_by_uuid (as_index st2) u = Some fe \<and> e = repair_entry (full_response fe)"
proof -
  obtain router full where f: "forward_get_entry net router addr u = Inr (Some full)" and e: "e = repair_entry full"
    using assms(4) by (auto simp: perform_repair_def Let_def split: option.splits sum.splits wal_result.splits)
  let ?out = "out_request router ''GET'' addr (''/internal/entry/'' @ u @ ''?local=true'') NoBody"
  have "decode_reply (net ?out 0) = Inr full"
    using f by (auto simp: forward_get_entry_def Let_def split: sum.splits prod.splits if_splits)
  then obtain env2 st2 resp ef st3 where p: "peer addr env2 st2" and
      s: "serve env2 (local_rq router Get (''/internal/entry/'' @ u) None OtherContent) st2 = (resp, ef, st3)"
      and b: "full_body (resp_body resp) = Some full"
    by (rule peer_network.decoded [OF assms(1) _ arrivals(6) [OF assms(2,3)]]) blast
  from b have "resp_body resp = FullEntryBody full" by (cases "resp_body resp") auto
  from serve_get_entry [OF s assms(3) this] show ?thesis using p e by blast
qed

section \<open>Inserting at a peer\<close>

text \<open>The entry a replica logs for a request with a UUID, and that its flush task acknowledged it.\<close>

definition stored_as :: "string \<Rightarrow> insert_request \<Rightarrow> wal_entry \<Rightarrow> bool" where
  "stored_as u req e \<longleftrightarrow>
     we_uuid e = u \<and> we_embedding e = ir_embedding req \<and> we_response e = ir_response req \<and>
     we_query_text e = ir_query_text req \<and> \<not> we_tombstone e \<and>
     (case ir_model_id req of
        None \<Rightarrow> False
      | Some model_id \<Rightarrow> we_model_id e = request_namespace model_id (ir_cache_scope req) (ir_conversation_id req))"

definition logged :: "wal_result \<Rightarrow> string \<Rightarrow> insert_request \<Rightarrow> wal_entry list \<Rightarrow> bool" where
  "logged result u req sent \<longleftrightarrow>
     (case result of Replied (Inr _) \<Rightarrow> (case sent of [e] \<Rightarrow> stored_as u req e | _ \<Rightarrow> False) | _ \<Rightarrow> False)"

lemma local_insert_logged:
  assumes "local_insert_inner lu now elapsed result (req\<lparr> ir_uuid := Some u \<rparr>) st = (Inr v, sent, st')"
  shows "v = u \<and> logged result u req sent \<and> as_router st' = as_router st"
proof -
  obtain model_id where m: "ir_model_id req = Some model_id" "validate_model_id (ir_model_id req) = Inr model_id"
    using assms by (auto simp: local_insert_inner_def validate_model_id_def split: sum.splits option.splits if_splits)
  let ?e = "insert_entry lu now (req\<lparr> ir_uuid := Some u \<rparr>) model_id st"
  have "stored_as u req ?e"
    using m by (auto simp: stored_as_def insert_entry_def insert_namespace_def request_namespace_def base_namespace_def
        split: option.splits)
  moreover have "sent = [?e]" "\<exists>seq. result = Replied (Inr seq)" "v = u" "as_router st' = as_router st"
    using assms m by (auto simp: local_insert_inner_def Let_def insert_entry_def split: wal_result.splits sum.splits insert_error.splits)
  ultimately show ?thesis by (auto simp: logged_def)
qed

lemma process_insert_logged:
  assumes "process_insert_locally lu now elapsed result (req\<lparr> ir_uuid := Some u \<rparr>) st = (resp, sent, st')"
    and "resp_body resp = InsertBody ip"
  shows "ip_id ip = u \<and> logged result u req sent"
proof -
  obtain r where r: "local_insert_inner lu now elapsed result (req\<lparr> ir_uuid := Some u \<rparr>) st = (r, sent, st')"
      "resp = (case r of Inr v \<Rightarrow> insert_ok v | Inl e \<Rightarrow> e)"
    using assms(1) by (auto simp: process_insert_locally_def split: prod.splits sum.splits)
  show ?thesis
  proof (cases r)
    case (Inl e)
    then have "typed_response InsertEp e" "status_code e \<noteq> 200"
      using typed_local_insert local_insert_sent [OF r(1)] r(1) by auto
    then show ?thesis using Inl r(2) assms(2) by (auto simp: typed_response_def)
  next
    case (Inr v)
    then show ?thesis
      using local_insert_logged r assms(2) by (auto simp: insert_ok_def ok_response_def)
  qed
qed

lemma serve_local_insert:
  assumes "serve env (local_rq r Post ''/insert'' None (InsertJson (req\<lparr> ir_uuid := Some u \<rparr>))) st = (resp, ef, st')"
    and "resp_body resp = InsertBody ip"
  shows "logged (ev_wal env) u req (ef_sent ef)"
proof -
  have "insert_handler (ev_insert_net env) (ev_gen env) (ev_new_uuid env) (ev_local_uuid env) (ev_now env)
      (ev_elapsed env) (ev_wal env) \<lparr> lp_local = Some True, lp_repair = None \<rparr> (req\<lparr> ir_uuid := Some u \<rparr>) st =
      (resp, ef_sent ef, st')"
    using serve_insert_body [OF assms] by (auto simp: local_rq_def)
  then have "process_insert_locally (ev_local_uuid env) (ev_now env) (ev_elapsed env) (ev_wal env)
      (req\<lparr> ir_uuid := Some u \<rparr>) st = (resp, ef_sent ef, st')"
    using assms(2) by (auto simp: insert_handler_def is_local_def bad_request_def error_response_def
        split: sum.splits if_splits)
  then show ?thesis using process_insert_logged assms(2) by blast
qed

lemma replicate_to_accepted:
  assumes "replicate_to net gen retries cluster router req peers m = (True, skipped, attempted, m')"
    and "(nid, addr) \<in> set peers" and "cl_peer_status cluster nid \<noteq> Dead"
  shows "\<exists>v m0. fst (forward_with_retry gen retries (forward_insert net router addr req) m0) = Inr v"
  using replicate_to_spec [of net gen retries cluster router req peers m] assms unfolding replicated_def by auto

text \<open>A coordinator that answered 200 went through its replicas, after its own log if it is one of them.\<close>

lemma insert_routed:
  assumes "insert_handler net gen nu lu now elapsed result p req st = (resp, sent, st')" and "status_code resp = 200"
    and "\<not> is_local p" and "as_cluster st = Some cluster"
    and "get_replica_addrs cluster (ir_embedding req) (as_replication_factor st) \<noteq> []"
  shows "\<exists>st1. replicate_insert net gen cluster (get_replica_addrs cluster (ir_embedding req) (as_replication_factor st))
      (req\<lparr> ir_uuid := Some nu \<rparr>) nu st1 = (resp, st') \<and> as_router st1 = as_router st \<and>
    ((\<exists>r \<in> set (get_replica_addrs cluster (ir_embedding req) (as_replication_factor st)). fst r = cl_self_node_id cluster) \<longrightarrow>
      logged result nu req sent)"
proof (cases "\<exists>r \<in> set (get_replica_addrs cluster (ir_embedding req) (as_replication_factor st)). fst r = cl_self_node_id cluster")
  case True
  obtain r sent1 st1 where l: "local_insert_inner lu now elapsed result (req\<lparr> ir_uuid := Some nu \<rparr>) st = (r, sent1, st1)"
    by (metis prod_cases3)
  show ?thesis
  proof (cases r)
    case (Inl e)
    then show ?thesis
      using assms True l local_insert_sent [OF l]
      by (auto simp: insert_handler_def Let_def bad_request_def error_response_def split: sum.splits if_splits)
  next
    case (Inr v)
    then have "replicate_insert net gen cluster (get_replica_addrs cluster (ir_embedding req) (as_replication_factor st))
        (req\<lparr> ir_uuid := Some nu \<rparr>) nu st1 = (resp, st')" "sent = sent1"
      using assms True l by (auto simp: insert_handler_def Let_def bad_request_def error_response_def
          split: sum.splits if_splits prod.splits)
    then show ?thesis using local_insert_logged [OF l [unfolded Inr]] by blast
  qed
next
  case False
  then show ?thesis
    using assms by (auto simp: insert_handler_def Let_def bad_request_def error_response_def
        split: sum.splits if_splits prod.splits)
qed

section \<open>Answers from an index\<close>

text \<open>A hit that is a live entry of an index, in a namespace the query asks for.\<close>

definition live_answer :: "u64 \<Rightarrow> query_request \<Rightarrow> semantic_index \<Rightarrow> query_response \<Rightarrow> bool" where
  "live_answer now req si qp \<longleftrightarrow>
     (\<exists>model_id ns u e. qr_model_id req = Some model_id \<and>
        ns \<in> {request_namespace model_id (qr_cache_scope req) (qr_conversation_id req),
              base_namespace model_id (qr_cache_scope req)} \<and>
        qp_id qp = Some u \<and> contents si ns u = Some e \<and> qp_response qp = Some (ce_response e) \<and> \<not> expired now e)"

text \<open>The answer of a node that does not forward: from its own index, or a hit of a replica it asked.\<close>

lemma process_query_source:
  assumes "si_wf (as_index st)" and "process_query_locally search net now elapsed other req repair st = (resp, task, st')"
    and "resp_body resp = QueryBody qp" and "qp_hit qp"
  shows "live_answer now req (as_index st) qp \<or>
    repair \<and> (\<exists>cluster router nid addr. as_cluster st = Some cluster \<and> as_router st = Some router \<and>
      (nid, addr) \<in> set (get_replica_addrs cluster (qr_embedding req) (as_replication_factor st)) \<and>
      forward_query_no_repair net router addr req = Inr qp)"
proof -
  obtain model_id where v: "validate_model_id (qr_model_id req) = Inr model_id"
    using assms(2,3) by (auto simp: process_query_locally_def bad_request_def error_response_def split: sum.splits)
  then have m: "qr_model_id req = Some model_id"
    by (auto simp: validate_model_id_def split: option.splits if_splits)
  obtain r ns scope where q: "query_index search now model_id req (as_index st) = Inr (r, ns, scope)"
    using assms(2,3) v by (cases "query_index search now model_id req (as_index st)")
      (auto simp: process_query_locally_def bad_request_def error_response_def Let_def)
  show ?thesis
  proof (cases r)
    case (Some h)
    note Q = query_index_hit [OF q [unfolded Some]]
    obtain e where "contents (as_index st) ns (qh_id h) = Some e" "qh_response h = ce_response e" "\<not> expired now e"
      by (rule si_query_hit [OF si_wf_struct [OF assms(1)] Q [THEN conjunct1]]) blast
    moreover have "qp = hit_response h scope"
      using assms(2,3) v q Some by (auto simp: process_query_locally_def ok_response_def Let_def)
    ultimately have "live_answer now req (as_index st) qp"
      using m Q unfolding live_answer_def hit_response_def by auto
    then show ?thesis ..
  next
    case None
    let ?st1 = "st\<lparr> as_metrics := record_query_miss (base_namespace model_id (qr_cache_scope req)) elapsed (as_metrics st) \<rparr>"
    from None have "repair \<and> (\<exists>cluster m task. as_cluster st = Some cluster \<and>
        attempt_read_repair net ?st1 cluster (base_namespace model_id (qr_cache_scope req)) req = (Some qp, task, m))"
      using assms(2-4) v q by (auto simp: process_query_locally_def ok_response_def miss_response_def Let_def
          split: if_splits option.splits prod.splits)
    then show ?thesis using read_repair_source [of net ?st1] by fastforce
  qed
qed

section \<open>A cluster of nodes\<close>

definition plain_cluster :: "cluster_state \<Rightarrow> bool" where
  "plain_cluster cs \<longleftrightarrow> plain_addr (cl_self_api_addr cs) \<and> list_all plain_addr (map snd (cl_addrs cs))"

definition plain_state :: "app_state \<Rightarrow> bool" where
  "plain_state st \<longleftrightarrow> (case as_cluster st of None \<Rightarrow> True | Some cs \<Rightarrow> plain_cluster cs)"

lemma plain_replicas: "plain_cluster cs \<Longrightarrow> (nid, addr) \<in> set (get_replica_addrs cs emb rf) \<Longrightarrow> plain_addr addr"
  by (fastforce simp: plain_cluster_def get_replica_addrs_def replica_addr_def List.map_filter_def list_all_iff
      dest: map_of_SomeD split: if_splits)

lemma plain_target: "plain_cluster cs \<Longrightarrow> get_target_addr cs emb = Some (nid, addr) \<Longrightarrow> plain_addr addr"
  by (fastforce simp: plain_cluster_def get_target_addr_def list_all_iff dest: map_of_SomeD split: option.splits)

lemma forward_attempt:
  assumes "fst (forward_with_retry gen retries f m) = Inr v"
  shows "\<exists>k. f k = Inr v"
proof -
  have "0 < min (retries + 1) (2 ^ 64 - 1)" by simp
  from retry_loop_outcome [OF this, of f 0 gen no_error] show ?thesis
    using assms by (auto simp: forward_with_retry_def retry_outcome_def split_beta Let_def)
qed

lemma forward_first:
  assumes "f 0 = Inr v"
  shows "forward_with_retry gen retries f m = (Inr v, [], m)"
proof -
  obtain left where "min (retries + 1) (2 ^ 64 - 1) = Suc left" by (cases "min (retries + 1) (2 ^ 64 - 1 :: nat)") auto
  then show ?thesis using assms by (simp add: forward_with_retry_def Let_def)
qed

text \<open>
  Every node reaches the others: what its network answers are the answers of nodes of the cluster.
\<close>

locale cluster_of_nodes =
  fixes peer :: "string \<Rightarrow> env \<Rightarrow> app_state \<Rightarrow> bool"
  assumes queries: "peer addr env st \<Longrightarrow> peer_network peer query_body (ev_query_net env)"
    and inserts: "peer addr env st \<Longrightarrow> peer_network peer insert_body (ev_insert_net env)"
begin

text \<open>A forwarded insert that succeeded was logged by a node at that address.\<close>

lemma insert_logged:
  assumes "peer a env st" and "plain_addr addr"
    and "fst (forward_with_retry gen retries (forward_insert (ev_insert_net env) router addr (req\<lparr> ir_uuid := Some u \<rparr>)) m) = Inr v"
  shows "\<exists>env2 st2. peer addr env2 st2 \<and> logged (ev_wal env2) u req (ef_sent (fst (snd (serve env2
    (local_rq router Post ''/insert'' None (InsertJson (req\<lparr> ir_uuid := Some u \<rparr>))) st2))))"
proof -
  let ?req = "req\<lparr> ir_uuid := Some u \<rparr>"
  let ?out = "out_request router ''POST'' addr ''/insert?local=true'' (InsertOut ?req)"
  obtain k where "decode_reply (ev_insert_net env ?out k) = Inr v"
    using forward_attempt [OF assms(3)] by (auto simp: forward_insert_def)
  then obtain env2 st2 resp ef st' where "peer addr env2 st2"
      "serve env2 (local_rq router Post ''/insert'' None (InsertJson ?req)) st2 = (resp, ef, st')"
      "insert_body (resp_body resp) = Some v"
    by (rule peer_network.decoded [OF inserts [OF assms(1)] _ arrivals(1) [OF assms(2)]]) blast
  moreover from this(3) have "\<exists>ip. resp_body resp = InsertBody ip" by (cases "resp_body resp") auto
  ultimately show ?thesis using serve_local_insert by (metis fst_conv snd_conv)
qed

text \<open>Where an answer without repair comes from.\<close>

lemma answer_no_repair:
  assumes "peer a env st" and "plain_addr addr" and "\<And>addr env st. peer addr env st \<Longrightarrow> si_wf (as_index st)"
    and "forward_query_no_repair (ev_query_net env) router addr req = Inr qp" and "qp_hit qp"
  shows "\<exists>env2 st2. peer addr env2 st2 \<and> live_answer (ev_now env2) req (as_index st2) qp"
proof -
  obtain env2 st2 resp ef st' where p: "peer addr env2 st2" and
      s: "serve env2 (local_rq router Post ''/query'' (Some False) (QueryJson req)) st2 = (resp, ef, st')"
      and b: "query_body (resp_body resp) = Some qp"
    by (rule peer_network.decoded [OF queries [OF assms(1)] assms(4) [unfolded forward_query_no_repair_def]
          arrivals(3) [OF assms(2)]]) blast
  from b have body: "resp_body resp = QueryBody qp" by (cases "resp_body resp") auto
  then have "process_query_locally (ev_search env2) (ev_query_net env2) (ev_now env2) (ev_elapsed env2) (ev_other env2)
      req False st2 = (resp, ef_repair ef, st')"
    using serve_query_body [OF s body]
    by (auto simp: local_rq_def query_handler_def forward_target_def is_local_def try_repair_def bad_request_def
        error_response_def split: sum.splits if_splits)
  then show ?thesis using process_query_source [OF assms(3) [OF p] _ body assms(5)] p by blast
qed

text \<open>Where the answer of a node that processes the query itself comes from.\<close>

lemma answer_processed:
  assumes "peer a env st" and "\<And>addr env st. peer addr env st \<Longrightarrow> si_wf (as_index st) \<and> plain_state st"
    and "process_query_locally (ev_search env) (ev_query_net env) (ev_now env) (ev_elapsed env) (ev_other env)
      req repair st = (resp, task, st')"
    and "resp_body resp = QueryBody qp" and "qp_hit qp"
  shows "\<exists>addr env2 st2. peer addr env2 st2 \<and> live_answer (ev_now env2) req (as_index st2) qp"
  using process_query_source [OF _ assms(3-5)] assms(1,2)
    answer_no_repair [OF assms(1) _ _ _ assms(5)] plain_replicas
  by (metis (no_types, lifting) option.simps(5) plain_state_def)

lemma answer_served:
  assumes "peer a env st" and "\<And>addr env st. peer addr env st \<Longrightarrow> si_wf (as_index st) \<and> plain_state st"
    and "serve env rq st = (resp, ef, st')" and "rq_body rq = QueryJson req"
    and "resp_body resp = QueryBody qp" and "qp_hit qp"
  shows "\<exists>addr env2 st2. peer addr env2 st2 \<and> live_answer (ev_now env2) req (as_index st2) qp"
proof -
  obtain p where h: "query_handler (ev_search env) (ev_query_net env) (ev_gen env) (ev_now env) (ev_elapsed env)
      (ev_other env) p req st = (resp, ef_repair ef, st')"
    using serve_query_body [OF assms(3,5)] assms(4) by auto
  show ?thesis
  proof (cases "forward_target p st (qr_embedding req)")
    case None
    then have q: "process_query_locally (ev_search env) (ev_query_net env) (ev_now env) (ev_elapsed env) (ev_other env)
        req (try_repair p) st = (resp, ef_repair ef, st')"
      using h assms(5) by (auto simp: query_handler_def bad_request_def error_response_def split: sum.splits if_splits)
    show ?thesis by (rule answer_processed [OF assms(1) _ q assms(5,6)]) (rule assms(2))
  next
    case (Some t)
    then obtain cluster tid addr where t: "t = (cluster, tid, addr)" "as_cluster st = Some cluster"
        "get_target_addr cluster (qr_embedding req) = Some (tid, addr)"
      by (auto simp: forward_target_def split: if_splits option.splits)
    then have plain: "plain_addr addr" using assms(1,2) plain_target by (fastforce simp: plain_state_def)
    obtain router ds m where f: "forward_with_retry (ev_gen env) (as_max_replication_retries st)
        (router_forward_query (ev_query_net env) router addr req) (as_metrics st) = (Inr qp, ds, m)"
      using h Some t assms(5,6)
      by (auto simp: query_handler_def server_forward_query_def bad_request_def bad_gateway_def error_response_def
          ok_response_def miss_response_def split: sum.splits if_splits option.splits prod.splits)
    obtain k where "decode_reply (ev_query_net env
        (out_request router ''POST'' addr ''/query?local=true&repair=true'' (QueryOut req)) k) = Inr qp"
      using forward_attempt [OF arg_cong [OF f, of fst, simplified]] by (auto simp: router_forward_query_def)
    then obtain env2 st2 resp2 ef2 st2' where p2: "peer addr env2 st2" and
        s2: "serve env2 (local_rq router Post ''/query'' (Some True) (QueryJson req)) st2 = (resp2, ef2, st2')"
        and b2: "query_body (resp_body resp2) = Some qp"
      by (rule peer_network.decoded [OF queries [OF assms(1)] _ arrivals(2) [OF plain]]) blast
    from b2 have body: "resp_body resp2 = QueryBody qp" by (cases "resp_body resp2") auto
    then have q: "process_query_locally (ev_search env2) (ev_query_net env2) (ev_now env2) (ev_elapsed env2)
        (ev_other env2) req True st2 = (resp2, ef_repair ef2, st2')"
      using serve_query_body [OF s2 body]
      by (auto simp: local_rq_def query_handler_def forward_target_def is_local_def try_repair_def bad_request_def
          error_response_def split: sum.splits if_splits)
    show ?thesis by (rule answer_processed [OF p2 _ q body assms(6)]) (rule assms(2))
  qed
qed

end

text \<open>Nodes that call each other, \<open>n\<close> calls deep.\<close>

primrec wired :: "(string \<Rightarrow> (env \<times> app_state) option) \<Rightarrow> nat \<Rightarrow> env \<Rightarrow> env" where
  "wired peers 0 env = env\<lparr> ev_query_net := no_net, ev_insert_net := no_net \<rparr>"
| "wired peers (Suc n) env =
     (let ps = (\<lambda>a. map_option (\<lambda>(e, st). (wired peers n e, st)) (peers a))
      in env\<lparr> ev_query_net := node_net ps query_body, ev_insert_net := node_net ps insert_body \<rparr>)"

definition wired_peer :: "(string \<Rightarrow> (env \<times> app_state) option) \<Rightarrow> string \<Rightarrow> env \<Rightarrow> app_state \<Rightarrow> bool" where
  "wired_peer peers addr env st \<longleftrightarrow> (\<exists>n e. peers addr = Some (e, st) \<and> env = wired peers n e)"

lemma wired_network:
  fixes peers n
  defines "ps \<equiv> \<lambda>a. map_option (\<lambda>(e, st). (wired peers n e, st)) (peers a)"
  shows "peer_network (wired_peer peers) body_of (node_net ps body_of)"
  by (rule peer_network_mono [OF node_network.peer_network_axioms]) (auto simp: wired_peer_def ps_def)

interpretation wired_cluster: cluster_of_nodes "wired_peer peers" for peers
proof (intro cluster_of_nodes.intro)
  fix addr env st
  assume "wired_peer peers addr env st"
  then obtain n e where "env = wired peers n e" by (auto simp: wired_peer_def)
  then have "peer_network (wired_peer peers) query_body (ev_query_net env) \<and>
      peer_network (wired_peer peers) insert_body (ev_insert_net env)"
    by (cases n) (auto simp: Let_def peer_network_down wired_network)
  then show "peer_network (wired_peer peers) query_body (ev_query_net env)"
    "peer_network (wired_peer peers) insert_body (ev_insert_net env)" by blast+
qed

end
