(* ===== verification/Peers_Properties.thy ===== *)
theory Peers_Properties
  imports Peers Service_Properties
begin

text \<open>What a client can rely on when the nodes of a cluster serve each other's requests.\<close>

section \<open>Depth of forwarding\<close>

text \<open>Two surroundings of a node that differ in the network only.\<close>

definition rewired :: "env \<Rightarrow> env \<Rightarrow> bool" where
  "rewired env env' \<longleftrightarrow> (\<exists>qn n. env' = env\<lparr> ev_query_net := qn, ev_insert_net := n \<rparr>)"

lemma rewired_wired: "rewired (wired peers n env) (wired peers k env)"
proof -
  have w: "\<exists>qn i. wired peers m env = env\<lparr> ev_query_net := qn, ev_insert_net := i \<rparr>" for m
    by (cases m) (auto simp: Let_def intro: exI)
  obtain qn i qn' i' where "wired peers n env = env\<lparr> ev_query_net := qn, ev_insert_net := i \<rparr>"
    "wired peers k env = env\<lparr> ev_query_net := qn', ev_insert_net := i' \<rparr>" using w [of n] w [of k] by blast
  then have "wired peers k env = (wired peers n env)\<lparr> ev_query_net := qn', ev_insert_net := i' \<rparr>" by simp
  then show ?thesis unfolding rewired_def by blast
qed

lemmas branch_congs = sum.case_cong option.case_cong prod.case_cong if_cong
  gate.case_cong routing.case_cong

lemma attempt_read_repair_cong:
  assumes "plain_cluster cluster" and "\<And>r addr. plain_addr addr \<Longrightarrow>
    forward_query_no_repair net r addr req = forward_query_no_repair net' r addr req"
  shows "attempt_read_repair net st cluster ns req = attempt_read_repair net' st cluster ns req"
proof -
  have "map (\<lambda>(nid, addr). ((nid, addr), forward_query_no_repair net r addr req)) (repair_peers st cluster req) =
      map (\<lambda>(nid, addr). ((nid, addr), forward_query_no_repair net' r addr req)) (repair_peers st cluster req)" for r
    by (rule map_cong) (auto simp: repair_peers_def assms(2) plain_replicas [OF assms(1)])
  then show ?thesis by (simp only: attempt_read_repair_def Let_def)
qed

lemma process_query_cong:
  assumes "plain_state st" and "repair \<Longrightarrow> (\<And>r addr. plain_addr addr \<Longrightarrow>
    forward_query_no_repair net r addr req = forward_query_no_repair net' r addr req)"
  shows "process_query_locally search net now elapsed other req repair st =
    process_query_locally search net' now elapsed other req repair st"
proof (cases "repair \<and> as_cluster st \<noteq> None")
  case True
  then obtain cluster where c: "as_cluster st = Some cluster" "plain_cluster cluster" "repair"
    using assms(1) by (auto simp: plain_state_def)
  then have "attempt_read_repair net s cluster ns req = attempt_read_repair net' s cluster ns req" for s ns
    using attempt_read_repair_cong assms(2) by blast
  then show ?thesis using c by (simp add: process_query_locally_def Let_def cong: branch_congs)
next
  case False
  then show ?thesis by (cases repair) (simp_all add: process_query_locally_def Let_def cong: branch_congs)
qed

lemma query_handler_cong:
  assumes "plain_state st"
    and "\<not> is_local p \<Longrightarrow> (\<And>r addr. plain_addr addr \<Longrightarrow>
      router_forward_query net r addr req = router_forward_query net' r addr req)"
    and "try_repair p \<Longrightarrow> (\<And>r addr. plain_addr addr \<Longrightarrow>
      forward_query_no_repair net r addr req = forward_query_no_repair net' r addr req)"
  shows "query_handler search net gen now elapsed other p req st =
    query_handler search net' gen now elapsed other p req st"
proof (cases "forward_target p st (qr_embedding req)")
  case None
  have "process_query_locally search net now elapsed other req (try_repair p) st =
      process_query_locally search net' now elapsed other req (try_repair p) st"
    by (rule process_query_cong [OF assms(1)]) (rule assms(3))
  then show ?thesis using None by (simp add: query_handler_def cong: branch_congs)
next
  case (Some t)
  then obtain cluster tid addr where t: "t = (cluster, tid, addr)" "as_cluster st = Some cluster" "\<not> is_local p"
      "get_target_addr cluster (qr_embedding req) = Some (tid, addr)"
    by (auto simp: forward_target_def split: if_splits option.splits)
  then have "plain_addr addr" using assms(1) plain_target by (auto simp: plain_state_def)
  then have "server_forward_query net gen addr req st = server_forward_query net' gen addr req st"
    using assms(2) t(3) by (simp add: server_forward_query_def cong: branch_congs)
  then show ?thesis using Some t(1) by (simp add: query_handler_def cong: branch_congs)
qed

lemma replicate_to_cong:
  assumes "\<And>nid addr. (nid, addr) \<in> set peers \<Longrightarrow> forward_insert net r addr req = forward_insert net' r addr req"
  shows "replicate_to net gen retries cluster r req peers m = replicate_to net' gen retries cluster r req peers m"
  using assms
proof (induction peers arbitrary: m)
  case (Cons p peers)
  obtain nid addr where p: "p = (nid, addr)" by fastforce
  then have f: "forward_insert net r addr req = forward_insert net' r addr req" using Cons.prems [of nid addr] by simp
  have IH: "replicate_to net gen retries cluster r req peers m = replicate_to net' gen retries cluster r req peers m" for m
    by (rule Cons.IH) (erule Cons.prems [OF list.set_intros(2)])
  show ?case by (simp add: p f IH cong: branch_congs)
qed simp

lemma insert_handler_cong:
  assumes "plain_state st"
    and "\<not> is_local p \<Longrightarrow> (\<And>r addr req. plain_addr addr \<Longrightarrow> forward_insert net r addr req = forward_insert net' r addr req)"
  shows "insert_handler net gen nu lu now elapsed result p req st =
    insert_handler net' gen nu lu now elapsed result p req st"
proof (cases "is_local p \<or> as_cluster st = None")
  case True
  then show ?thesis by (auto simp: insert_handler_def split: sum.splits)
next
  case False
  then obtain cluster where c: "as_cluster st = Some cluster" "plain_cluster cluster" "\<not> is_local p"
    using assms(1) by (auto simp: plain_state_def)
  let ?reps = "get_replica_addrs cluster (ir_embedding req) (as_replication_factor st)"
  have "replicate_to net gen retries cluster r q (filter (\<lambda>(nid, _). nid \<noteq> cl_self_node_id cluster) ?reps) m =
      replicate_to net' gen retries cluster r q (filter (\<lambda>(nid, _). nid \<noteq> cl_self_node_id cluster) ?reps) m" for retries r q m
    by (rule replicate_to_cong) (auto intro!: assms(2) [OF c(3)] dest: plain_replicas [OF c(2)])
  then have "replicate_insert net gen cluster ?reps q u s = replicate_insert net' gen cluster ?reps q u s" for q u s
    by (simp add: replicate_insert_def Let_def cong: branch_congs)
  then show ?thesis using c by (simp add: insert_handler_def Let_def cong: branch_congs)
qed

text \<open>A request is served alike in two networks that give the same answers to what it forwards.\<close>

definition same_forwards :: "env \<Rightarrow> env \<Rightarrow> bool" where
  "same_forwards env env' \<longleftrightarrow> (\<forall>r addr q i. plain_addr addr \<longrightarrow>
     router_forward_query (ev_query_net env) r addr q = router_forward_query (ev_query_net env') r addr q \<and>
     forward_insert (ev_insert_net env) r addr i = forward_insert (ev_insert_net env') r addr i)"

definition same_repairs :: "env \<Rightarrow> env \<Rightarrow> bool" where
  "same_repairs env env' \<longleftrightarrow> (\<forall>r addr q. plain_addr addr \<longrightarrow>
     forward_query_no_repair (ev_query_net env) r addr q = forward_query_no_repair (ev_query_net env') r addr q)"

lemma write_endpoint_cong:
  assumes "plain_state st" and "rewired env env'" and "\<not> is_local p \<Longrightarrow> same_forwards env env'"
    and "try_repair p \<Longrightarrow> same_repairs env env'"
  shows "write_endpoint env ep cs (Some p) b st = write_endpoint env' ep cs (Some p) b st"
proof -
  obtain qn i where e: "env' = env\<lparr> ev_query_net := qn, ev_insert_net := i \<rparr>" using assms(2) by (auto simp: rewired_def)
  have "query_handler (ev_search env) (ev_query_net env) (ev_gen env) (ev_now env) (ev_elapsed env) (ev_other env) p req st =
      query_handler (ev_search env) qn (ev_gen env) (ev_now env) (ev_elapsed env) (ev_other env) p req st" for req
    by (rule query_handler_cong [OF assms(1)]) (use assms(3,4) e in \<open>auto simp: same_forwards_def same_repairs_def\<close>)
  moreover have "insert_handler (ev_insert_net env) (ev_gen env) (ev_new_uuid env) (ev_local_uuid env) (ev_now env)
        (ev_elapsed env) (ev_wal env) p req st =
      insert_handler i (ev_gen env) (ev_new_uuid env) (ev_local_uuid env) (ev_now env)
        (ev_elapsed env) (ev_wal env) p req st" for req
    by (rule insert_handler_cong [OF assms(1)]) (use assms(3) e in \<open>auto simp: same_forwards_def\<close>)
  ultimately show ?thesis by (cases ep; cases b) (simp_all add: write_endpoint_def e reject_def)
qed

lemma serve_cong:
  assumes "plain_state st" and "rewired env env'"
    and "\<And>p. rq_params rq = Some p \<Longrightarrow> \<not> is_local p \<Longrightarrow> same_forwards env env'"
    and "\<And>p. rq_params rq = Some p \<Longrightarrow> try_repair p \<Longrightarrow> same_repairs env env'"
  shows "serve env rq st = serve env' rq st"
proof -
  obtain qn i where e: "env' = env\<lparr> ev_query_net := qn, ev_insert_net := i \<rparr>" using assms(2) by (auto simp: rewired_def)
  have "write_endpoint env ep cs (rq_params rq) (rq_body rq) st = write_endpoint env' ep cs (rq_params rq) (rq_body rq) st" for ep cs
  proof (cases "rq_params rq")
    case None
    then show ?thesis by (cases ep; cases "rq_body rq") (simp_all add: write_endpoint_def e reject_def)
  next
    case (Some p)
    then show ?thesis using write_endpoint_cong [OF assms(1,2)] assms(3,4) by simp
  qed
  moreover have "read_endpoint env ep cs st = read_endpoint env' ep cs st" for ep cs
    by (cases ep) (simp_all add: read_endpoint_def e)
  moreover have "ev_ct_eq env' = ev_ct_eq env" "ev_to_str env' = ev_to_str env" by (simp_all add: e)
  ultimately show ?thesis by (simp add: serve_def cong: branch_congs)
qed

text \<open>The answers of peers that serve requests the same way.\<close>

lemma node_net_cong:
  assumes "request_of out = Some (addr, rq)" and "\<And>e st. peers addr = Some (e, st) \<Longrightarrow> serve (f e) rq st = serve (g e) rq st"
  shows "node_net (\<lambda>a. map_option (\<lambda>(e, st). (f e, st)) (peers a)) body_of out n =
    node_net (\<lambda>a. map_option (\<lambda>(e, st). (g e, st)) (peers a)) body_of out n"
  using assms by (auto simp: node_net_def split: option.splits)

lemma wired_repairs:
  assumes "\<And>addr e st. peers addr = Some (e, st) \<Longrightarrow> plain_state st"
  shows "same_repairs (wired peers (Suc n) env) (wired peers (Suc k) env)"
proof -
  have "serve (wired peers n e) (local_rq r Post ''/query'' (Some False) b) st =
      serve (wired peers k e) (local_rq r Post ''/query'' (Some False) b) st" if "plain_state st" for r b e st
    by (rule serve_cong [OF that rewired_wired]) (simp_all add: local_rq_def is_local_def try_repair_def)
  then show ?thesis
    using assms by (auto simp: same_repairs_def forward_query_no_repair_def Let_def
        intro!: arg_cong [where f = decode_reply] node_net_cong [OF arrivals(3)])
qed

lemma wired_forwards:
  assumes "\<And>addr e st. peers addr = Some (e, st) \<Longrightarrow> plain_state st"
  shows "same_forwards (wired peers (Suc (Suc n)) env) (wired peers (Suc (Suc k)) env)"
proof -
  have q: "serve (wired peers (Suc n) e) (local_rq r Post ''/query'' (Some True) b) st =
      serve (wired peers (Suc k) e) (local_rq r Post ''/query'' (Some True) b) st" if "plain_state st" for r b e st
    by (rule serve_cong [OF that rewired_wired]) (simp_all add: local_rq_def is_local_def wired_repairs [OF assms] del: wired.simps)
  have i: "serve (wired peers (Suc n) e) (local_rq r Post ''/insert'' None b) st =
      serve (wired peers (Suc k) e) (local_rq r Post ''/insert'' None b) st" if "plain_state st" for r b e st
    by (rule serve_cong [OF that rewired_wired]) (simp_all add: local_rq_def is_local_def try_repair_def)
  show ?thesis
    unfolding same_forwards_def router_forward_query_def forward_insert_def wired.simps(2) [of _ "Suc _"] Let_def
    using assms q i by (auto intro!: ext arg_cong [where f = decode_reply] node_net_cong [OF arrivals(1)]
      node_net_cong [OF arrivals(2)] simp del: wired.simps)
qed


section \<open>Two nodes\<close>

definition router_two :: cluster_router where "router_two = \<lparr> ro_auth_token = None, ro_tls_enabled = False \<rparr>"

definition app_two :: app_state where
  "app_two = app_a\<lparr> as_cluster := Some cs_two, as_router := Some router_two, as_replication_factor := 2 \<rparr>"

definition peers_two :: "string \<Rightarrow> (env \<times> app_state) option" where
  "peers_two = [''x'' \<mapsto> (env_a, app_two), ''y'' \<mapsto> (env_a, app_a)]"

lemma cs_two_eqs:
  "cl_addrs cs_two = [(''a'', ''x''), (''b'', ''y'')]" "cl_self_node_id cs_two = ''a''" "cl_self_api_addr cs_two = ''x''"
  "set (nodes (cl_ring cs_two)) = {''a'', ''b''}" "node_count (cl_ring cs_two) = 2"
  by (simp_all add: cs_two_def cluster_evals Let_def AList.map_ran_def node_count_def)

lemma plain_two: "peers_two addr = Some (e, st) \<Longrightarrow> plain_state st" "plain_state app_two"
  by (auto simp: peers_two_def plain_state_def app_two_def app_a_def plain_cluster_def cs_two_eqs plain_addr_def
      split: if_splits)

lemma two_replicas:
  "set (get_replica_addrs cs_two emb 2) = {(''a'', ''x''), (''b'', ''y'')}"
  "filter (\<lambda>(nid, _). nid \<noteq> ''a'') (get_replica_addrs cs_two emb 2) = [(''b'', ''y'')]"
proof -
  let ?ns = "get_n_nodes_for_embedding emb 2 (cl_ring cs_two)"
  have "distinct ?ns" "set ?ns \<subseteq> {''a'', ''b''}" "length ?ns = 2"
    using get_n_nodes_props [of "embedding_to_key emb" 2 "cl_ring cs_two"] cs_two_eqs
    by (auto simp: get_n_nodes_for_embedding_def)
  then have "?ns = [''a'', ''b''] \<or> ?ns = [''b'', ''a'']"
    by (cases ?ns; cases "tl ?ns") auto
  then have "get_replica_addrs cs_two emb 2 = [(''a'', ''x''), (''b'', ''y'')] \<or>
      get_replica_addrs cs_two emb 2 = [(''b'', ''y''), (''a'', ''x'')]"
    by (auto simp: get_replica_addrs_def List.map_filter_def replica_addr_def cs_two_eqs)
  then show "set (get_replica_addrs cs_two emb 2) = {(''a'', ''x''), (''b'', ''y'')}"
    "filter (\<lambda>(nid, _). nid \<noteq> ''a'') (get_replica_addrs cs_two emb 2) = [(''b'', ''y'')]" by auto
qed

lemma two_replicas_some: "get_replica_addrs cs_two emb 2 \<noteq> []"
  using two_replicas(1) [of emb] by (metis empty_set insert_not_empty)

lemma alive_b: "cl_peer_status cs_two ''b'' \<noteq> Dead"
  by (simp add: cs_two_def cluster_evals cl_peer_status_def peer_statuses_def Let_def AList.map_ran_def)

lemma peer_x: "wired_peer peers_two ''x'' (wired peers_two 1 env_a) app_two"
  unfolding wired_peer_def by (intro exI [of _ 1] exI [of _ env_a]) (simp add: peers_two_def)

definition insert_two :: http_request where
  "insert_two = \<lparr> rq_method = Post, rq_path = ''/insert'', rq_authorization = None,
     rq_params = Some \<lparr> lp_local = None, lp_repair = None \<rparr>, rq_body = InsertJson insert_c \<rparr>"


section \<open>Replication\<close>

text \<open>C16. An acknowledged insert is on every live replica: when a node of a cluster answers an insert it routed,
  the id is the UUID it drew; the node itself, if it is one of the replicas, and every other replica
  that is not known to be dead has sent one entry with that UUID and with the contents and the
  namespace of the request to its flush task, which has acknowledged it.\<close>

theorem insert_on_every_replica:
  assumes "cluster_of_nodes peer" and "peer self env st" and "plain_state st"
    and "serve env rq st = (resp, ef, st')" and "resp_body resp = InsertBody ip"
    and "rq_body rq = InsertJson req" and "rq_params rq = Some p" and "\<not> is_local p"
    and "as_cluster st = Some cluster"
    and "get_replica_addrs cluster (ir_embedding req) (as_replication_factor st) \<noteq> []"
  shows "ip_id ip = ev_new_uuid env \<and> status_code resp = 200 \<and> (\<exists>router. as_router st = Some router \<and>
    (\<forall>(nid, addr) \<in> set (get_replica_addrs cluster (ir_embedding req) (as_replication_factor st)).
      if nid = cl_self_node_id cluster then logged (ev_wal env) (ip_id ip) req (ef_sent ef)
      else cl_peer_status cluster nid = Dead \<or> (\<exists>env2 st2. peer addr env2 st2 \<and>
        logged (ev_wal env2) (ip_id ip) req (ef_sent (fst (snd (serve env2 (local_rq router Post ''/insert'' None
          (InsertJson (req\<lparr> ir_uuid := Some (ip_id ip) \<rparr>))) st2)))))))"
proof -
  let ?reps = "get_replica_addrs cluster (ir_embedding req) (as_replication_factor st)"
  let ?u = "ev_new_uuid env" and ?net = "ev_insert_net env"
  let ?req = "req\<lparr> ir_uuid := Some ?u \<rparr>"
  have h: "insert_handler ?net (ev_gen env) ?u (ev_local_uuid env) (ev_now env) (ev_elapsed env) (ev_wal env) p req st =
      (resp, ef_sent ef, st')" and ok: "status_code resp = 200"
    using serve_insert_body [OF assms(4,5)] assms(6,7) by auto
  obtain st1 where r: "replicate_insert ?net (ev_gen env) cluster ?reps ?req ?u st1 = (resp, st')"
      and st1: "as_router st1 = as_router st"
      and own: "\<exists>r \<in> set ?reps. fst r = cl_self_node_id cluster \<Longrightarrow> logged (ev_wal env) ?u req (ef_sent ef)"
    using insert_routed [OF h ok assms(8-10)] by blast
  from replicate_insert_ok [OF r ok] obtain router skipped attempted where resp: "resp = insert_ok ?u"
      and router: "as_router st = Some router" and to: "replicate_to ?net (ev_gen env) (as_max_replication_retries st1)
        cluster router ?req (filter (\<lambda>(nid, _). nid \<noteq> cl_self_node_id cluster) ?reps) (as_metrics st1) =
        (True, skipped, attempted, as_metrics st')" using st1 by auto
  have u: "ip_id ip = ?u" using resp assms(5) by (auto simp: insert_ok_def ok_response_def)
  have stored: "\<exists>env2 st2. peer addr env2 st2 \<and> logged (ev_wal env2) ?u req (ef_sent (fst (snd (serve env2
      (local_rq router Post ''/insert'' None (InsertJson ?req)) st2))))"
    if t: "(nid, addr) \<in> set ?reps" "nid \<noteq> cl_self_node_id cluster" "cl_peer_status cluster nid \<noteq> Dead" for nid addr
  proof -
    obtain v m where "fst (forward_with_retry (ev_gen env) (as_max_replication_retries st1)
        (forward_insert ?net router addr ?req) m) = Inr v"
      using replicate_to_accepted [OF to, of nid addr] t by auto
    moreover have "plain_addr addr"
      using plain_replicas t(1) assms(3,9) by (auto simp: plain_state_def)
    ultimately show ?thesis using cluster_of_nodes.insert_logged [OF assms(1,2)] by blast
  qed
  have "if nid = cl_self_node_id cluster then logged (ev_wal env) ?u req (ef_sent ef)
      else cl_peer_status cluster nid = Dead \<or> (\<exists>env2 st2. peer addr env2 st2 \<and> logged (ev_wal env2) ?u req (ef_sent (fst (snd
        (serve env2 (local_rq router Post ''/insert'' None (InsertJson ?req)) st2)))))"
    if "(nid, addr) \<in> set ?reps" for nid addr
    using that own stored [OF that] by (cases "nid = cl_self_node_id cluster") force+
  then show ?thesis unfolding u using ok router by blast
qed

lemma no_auth_a [simp]: "auth_layer ct ts (as_auth_token app_a) path h = PassOn"
  "auth_layer ct ts (as_auth_token app_two) path h = PassOn"
  by (simp_all add: auth_layer_def app_a_def app_two_def)

lemma wired_env_a [simp]:
  "ev_new_uuid (wired peers n env_a) = ''u8''" "ev_local_uuid (wired peers n env_a) = ''u9''"
  "ev_now (wired peers n env_a) = 7" "ev_elapsed (wired peers n env_a) = Fin 0" "ev_wal (wired peers n env_a) = Replied (Inr 1)"
  "ev_gen (wired peers n env_a) = (\<lambda>lo hi. lo)" "ev_search (wired peers n env_a) = flat_search" "ev_other (wired peers n env_a) = id"
  by (cases n; simp add: env_a_def Let_def)+

lemma insert_c_valid:
  "validate_embedding (ir_embedding insert_c) = Inr ()" "validate_model_id (ir_model_id insert_c) = Inr ''m''"
  "\<not> MAX_RESPONSE_BYTES < length (ir_response insert_c)"
  by (simp_all add: insert_c_def validate_embedding_def validate_model_id_def MAX_EMBEDDING_DIM_def MAX_RESPONSE_BYTES_def)

lemma served_at_y:
  "fst (serve (wired peers n env_a) (local_rq router_two Post ''/insert'' None
     (InsertJson (insert_c\<lparr> ir_uuid := Some ''u8'' \<rparr>))) app_a) = insert_ok ''u8''"
  by (simp add: serve_def local_rq_def peer_routes read_endpoint_def write_endpoint_def insert_handler_def is_local_def
      insert_c_valid process_insert_locally_def local_insert_inner_def insert_entry_def split_beta Let_def)

lemma forwarded_to_y:
  "forward_insert (ev_insert_net (wired peers_two 1 env_a)) router_two ''y'' (insert_c\<lparr> ir_uuid := Some ''u8'' \<rparr>) n =
     Inr \<lparr> ip_id = ''u8'', ip_status = ''ok'' \<rparr>"
proof -
  have "plain_addr ''y''" by (simp add: plain_addr_def)
  then show ?thesis
    using served_at_y [of peers_two 0]
    by (simp add: forward_insert_def node_net_def arrivals(1) peers_two_def decode_reply_def insert_ok_def ok_response_def Let_def)
qed

lemma served_at_x: "fst (serve (wired peers_two 1 env_a) insert_two app_two) = insert_ok ''u8''"
proof -
  let ?net = "ev_insert_net (wired peers_two 1 env_a)"
  have s: "as_cluster app_two = Some cs_two" "as_router app_two = Some router_two" "as_replication_factor app_two = 2"
    by (simp_all add: app_two_def)
  have to: "\<exists>sk att m'. replicate_to ?net (\<lambda>lo hi. lo) k cs_two router_two (insert_c\<lparr> ir_uuid := Some ''u8'' \<rparr>) [(''b'', ''y'')] m =
      (True, sk, att, m')" for k m
    by (simp add: forward_first [OF forwarded_to_y] del: wired.simps One_nat_def)
  have "fst (replicate_insert ?net (\<lambda>lo hi. lo) cs_two (get_replica_addrs cs_two emb 2) (insert_c\<lparr> ir_uuid := Some ''u8'' \<rparr>) ''u8'' st) =
      insert_ok ''u8''" if r: "as_router st = Some router_two" for emb st
  proof -
    obtain sk att m' where "replicate_to ?net (\<lambda>lo hi. lo) (as_max_replication_retries st) cs_two router_two
        (insert_c\<lparr> ir_uuid := Some ''u8'' \<rparr>) [(''b'', ''y'')] (as_metrics st) = (True, sk, att, m')" using to by blast
    then show ?thesis
      by (simp add: replicate_insert_def r cs_two_eqs two_replicas(2) [of emb] del: wired.simps One_nat_def replicate_to.simps)
  qed
  moreover have "\<exists>r \<in> set (get_replica_addrs cs_two emb 2). fst r = ''a''" for emb
    by (simp add: two_replicas(1))
  ultimately show ?thesis
    by (simp add: serve_def insert_two_def peer_routes read_endpoint_def write_endpoint_def insert_handler_def is_local_def
      insert_c_valid local_insert_inner_def s two_replicas_some split_beta Let_def cs_two_eqs del: wired.simps One_nat_def)
qed

theorem insert_on_every_replica_witness:
  "\<exists>env2 st2. wired_peer peers_two ''y'' env2 st2 \<and> logged (ev_wal env2) ''u8'' insert_c (ef_sent (fst (snd (serve env2
     (local_rq router_two Post ''/insert'' None (InsertJson (insert_c\<lparr> ir_uuid := Some ''u8'' \<rparr>))) st2))))"
proof -
  obtain ef st' where s: "serve (wired peers_two 1 env_a) insert_two app_two = (insert_ok ''u8'', ef, st')"
    using served_at_x by (metis prod.collapse)
  have b: "resp_body (insert_ok ''u8'') = InsertBody \<lparr> ip_id = ''u8'', ip_status = ''ok'' \<rparr>"
    by (simp add: insert_ok_def ok_response_def)
  have a: "as_cluster app_two = Some cs_two" "as_router app_two = Some router_two" "as_replication_factor app_two = 2"
    by (simp_all add: app_two_def)
  show ?thesis
    using insert_on_every_replica [OF wired_cluster.cluster_of_nodes_axioms peer_x plain_two(2) s b, of insert_c
        "\<lparr> lp_local = None, lp_repair = None \<rparr>" cs_two] two_replicas(1) [of "ir_embedding insert_c"] alive_b two_replicas_some
    by (auto simp: insert_two_def is_local_def a cs_two_eqs simp del: wired.simps One_nat_def)
qed

section \<open>Answers\<close>

text \<open>C17. Every hit comes from a node that holds it: whichever node of a cluster a query is sent to, and
  whether it answers itself, forwards to the owner of the embedding or repairs a miss from a
  replica, a hit is an entry of the index of some node, in the conversation or the base namespace that
  was asked for, whose deadline has not passed on that node's clock.\<close>

theorem cluster_answer_live:
  assumes "cluster_of_nodes peer" and "peer self env st"
    and "\<And>addr env st. peer addr env st \<Longrightarrow> si_wf (as_index st) \<and> plain_state st"
    and "serve env rq st = (resp, ef, st')" and "rq_body rq = QueryJson req"
    and "resp_body resp = QueryBody qp" and "qp_hit qp"
  shows "\<exists>addr env2 st2. peer addr env2 st2 \<and>
    (\<exists>model_id ns u e. qr_model_id req = Some model_id \<and>
       ns \<in> {request_namespace model_id (qr_cache_scope req) (qr_conversation_id req),
             base_namespace model_id (qr_cache_scope req)} \<and>
       qp_id qp = Some u \<and> contents (as_index st2) ns u = Some e \<and> qp_response qp = Some (ce_response e) \<and>
       \<not> expired (ev_now env2) e)"
  using cluster_of_nodes.answer_served [OF assms(1,2) _ assms(4-7)] assms(3) unfolding live_answer_def by blast

definition query_two :: http_request where
  "query_two = \<lparr> rq_method = Post, rq_path = ''/query'', rq_authorization = None,
     rq_params = Some \<lparr> lp_local = None, lp_repair = None \<rparr>, rq_body = QueryJson query_a \<rparr>"

definition answer_a :: query_response where
  "answer_a = hit_response \<lparr> qh_id = ''u1'', qh_response = ''hi'', qh_similarity = Fin 1, qh_internal_id = 0, qh_exact_match = True \<rparr> None"

lemma query_a_valid:
  "validate_embedding (qr_embedding query_a) = Inr ()" "validate_model_id (qr_model_id query_a) = Inr ''m''"
  "threshold_ok (qr_threshold query_a)"
  by (simp_all add: query_a_def validate_embedding_def validate_model_id_def MAX_EMBEDDING_DIM_def threshold_ok_def f32_one_def)

lemma processed_a:
  assumes "as_index st = si_a"
  shows "fst (process_query_locally flat_search net 7 (Fin 0) id query_a repair st) = ok_response (QueryBody answer_a)"
proof -
  have "query_index flat_search 7 ''m'' query_a si_a = Inr (Some \<lparr> qh_id = ''u1'', qh_response = ''hi'',
      qh_similarity = Fin 1, qh_internal_id = 0, qh_exact_match = True \<rparr>, ''m'', None)"
    by (simp add: query_index_def query_a_def nonblank_def base_namespace_def effective_namespace_def
        si_evals si_query_with_text_def ns_query_with_text_def exact_lookup_def expired_def)
  then show ?thesis using assms by (simp add: process_query_locally_def query_a_valid answer_a_def)
qed

lemma queried_at_y:
  "fst (serve (wired peers n env_a) (local_rq router_two Post ''/query'' (Some True) (QueryJson query_a)) app_a) =
     ok_response (QueryBody answer_a)"
proof -
  have "as_index app_a = si_a" by (simp add: app_a_def)
  from processed_a [OF this] show ?thesis
    by (simp add: serve_def local_rq_def peer_routes read_endpoint_def write_endpoint_def query_handler_def is_local_def
        query_a_valid forward_target_def try_repair_def split_beta)
qed

lemma query_forwarded_to_y:
  "router_forward_query (ev_query_net (wired peers_two 1 env_a)) router_two ''y'' query_a n = Inr answer_a"
proof -
  have "plain_addr ''y''" by (simp add: plain_addr_def)
  then show ?thesis
    using queried_at_y [of peers_two 0]
    by (simp add: router_forward_query_def node_net_def arrivals(2) peers_two_def decode_reply_def ok_response_def Let_def)
qed

lemma queried_at_x: "fst (serve (wired peers_two 1 env_a) query_two app_two) = ok_response (QueryBody answer_a)"
proof -
  have s: "as_cluster app_two = Some cs_two" "as_router app_two = Some router_two" "as_index app_two = si_a"
    by (simp_all add: app_two_def app_a_def)
  have local: "fst (process_query_locally flat_search net 7 (Fin 0) id query_a repair app_two) = ok_response (QueryBody answer_a)"
    for net repair by (rule processed_a) (rule s)
  have "server_forward_query (ev_query_net (wired peers_two 1 env_a)) (\<lambda>lo hi. lo) ''y'' query_a app_two =
      (ok_response (QueryBody answer_a), app_two)"
    by (simp add: server_forward_query_def s forward_first [OF query_forwarded_to_y] del: wired.simps One_nat_def)
  moreover have "forward_target \<lparr> lp_local = None, lp_repair = None \<rparr> app_two (qr_embedding query_a) \<in>
      {None, Some (cs_two, ''b'', ''y'')}"
    using s by (auto simp: forward_target_def get_target_addr_def cs_two_eqs split: option.splits if_splits)
  ultimately show ?thesis
    using local alive_b
    by (auto simp: serve_def query_two_def peer_routes read_endpoint_def write_endpoint_def query_handler_def is_local_def
        query_a_valid split_beta simp del: wired.simps One_nat_def)
qed

theorem cluster_answer_live_witness:
  "\<exists>addr env2 st2 ns e. wired_peer peers_two addr env2 st2 \<and> contents (as_index st2) ns ''u1'' = Some e \<and>
     ce_response e = ''hi'' \<and> \<not> expired (ev_now env2) e"
proof -
  obtain ef st' where s: "serve (wired peers_two 1 env_a) query_two app_two = (ok_response (QueryBody answer_a), ef, st')"
    using queried_at_x by (metis prod.collapse)
  have good: "si_wf (as_index st) \<and> plain_state st" if w: "wired_peer peers_two addr env st" for addr env st
  proof -
    obtain e where e: "peers_two addr = Some (e, st)" using w by (auto simp: wired_peer_def)
    then have "as_index st = si_a" by (auto simp: peers_two_def app_two_def app_a_def split: if_splits)
    then show ?thesis using plain_two(1) [OF e] si_inv_wf [OF si_inv_a] by simp
  qed
  have b: "resp_body (ok_response (QueryBody answer_a)) = QueryBody answer_a" "qp_hit answer_a"
      "qp_id answer_a = Some ''u1''" "qp_response answer_a = Some ''hi''"
    by (simp_all add: ok_response_def answer_a_def hit_response_def)
  have q: "rq_body query_two = QueryJson query_a" by (simp add: query_two_def)
  have "\<exists>addr env2 st2. wired_peer peers_two addr env2 st2 \<and>
    (\<exists>model_id ns u e. qr_model_id query_a = Some model_id \<and>
       ns \<in> {request_namespace model_id (qr_cache_scope query_a) (qr_conversation_id query_a),
             base_namespace model_id (qr_cache_scope query_a)} \<and>
       qp_id answer_a = Some u \<and> contents (as_index st2) ns u = Some e \<and> qp_response answer_a = Some (ce_response e) \<and>
       \<not> expired (ev_now env2) e)"
    by (rule cluster_answer_live [OF wired_cluster.cluster_of_nodes_axioms peer_x _ s q b(1,2)]) (rule good)
  then show ?thesis unfolding b(3,4) option.inject by (metis (lifting))
qed

section \<open>Deletion\<close>

lemma served_delete:
  assumes "serve env rq st = (resp, ef, st')" and "rq_method rq = Delete" and "rq_path rq = ''/entry/'' @ u"
    and "plain_uuid u" and "rq_params rq = Some p" and "resp \<noteq> unauthorized"
  shows "delete_entry_handler (ev_other env) (ev_channel env u) p u st = (resp, ef_sent ef, ef_forwards ef, st')"
proof -
  have "auth_layer (ev_ct_eq env) (ev_to_str env) (as_auth_token st) (rq_path rq) (rq_authorization rq) = PassOn"
    using assms(1,6) by (auto simp: serve_def dest: auth_layer_reject split: gate.splits)
  then have "write_endpoint env DeleteEntryEp [u] (Some p) (rq_body rq) st = (resp, ef, st')"
    using assms(1-5) peer_routes(4) [OF assms(4)] by (simp add: serve_def read_endpoint_def)
  then show ?thesis by (auto simp: write_endpoint_def no_effects_def split: prod.splits)
qed

text \<open>What a forwarded deletion leaves at a peer.\<close>

definition deleted_at :: "string \<Rightarrow> semantic_index \<Rightarrow> semantic_index \<Rightarrow> bool" where
  "deleted_at u si si' \<longleftrightarrow> (\<forall>ns. contents si' ns u = None) \<and>
     (\<forall>ns v. v \<noteq> u \<longrightarrow> contents si' ns v = contents si ns v)"

lemma delete_at_peer:
  assumes "serve env (local_rq router Delete (''/entry/'' @ u) None OtherContent) st = (resp, ef, st')"
    and "plain_uuid u" and "resp \<noteq> unauthorized" and "ev_other env = (\<lambda>si. si)" and "si_inv (as_index st)"
  shows "deleted_at u (as_index st) (as_index st') \<and> status_code resp \<in> {200, 404, 500} \<and> ef_forwards ef = []"
proof -
  let ?p = "\<lparr> lp_local = Some True, lp_repair = None \<rparr>"
  note trim = trim_plain_uuid [OF assms(2)]
  have d: "delete_entry_handler (\<lambda>si. si) (ev_channel env u) ?p u st = (resp, ef_sent ef, ef_forwards ef, st')"
    using served_delete [OF assms(1) _ _ assms(2) _ assms(3), of ?p] assms(4) by (simp add: local_rq_def)
  show ?thesis
  proof (cases "namespace_for (as_index st) u")
    case None
    then have "\<forall>ns. contents (as_index st) ns u = None" using si_inv_owner_iff [OF assms(5), of u] by auto
    then show ?thesis using d trim None
      by (auto simp: deleted_at_def delete_entry_handler_def not_found_def error_response_def)
  next
    case (Some m)
    note R = remove_owned [OF assms(5) Some]
    have "as_index st' = snd (si_remove_by_uuid u (as_index st))"
      using d trim Some by (auto simp: delete_entry_handler_def split_beta Let_def split: if_splits)
    moreover have "status_code resp \<in> {200, 404, 500} \<and> ef_forwards ef = []"
      using d trim Some by (auto simp: delete_entry_handler_def split_beta Let_def fanout_def is_local_def
          ok_response_def internal_error_def error_response_def split: if_splits)
    ultimately show ?thesis using R(3,4) by (simp add: deleted_at_def)
  qed
qed

text \<open>C20. A deletion reaches the cluster: when a node has deleted an entry, then to every other member that is
  not known to be dead it sent a request which, at a peer that accepts its token, leaves no entry
  with that UUID in any namespace, touches nothing else and is not forwarded again.\<close>

theorem delete_on_every_peer:
  assumes "serve env rq st = (resp, ef, st')" and "status_code resp = 200"
    and "rq_method rq = Delete" and "rq_path rq = ''/entry/'' @ u" and "plain_uuid u" and "rq_params rq = Some p"
    and "\<not> is_local p" and "as_cluster st = Some cluster" and "as_router st = Some router" and "plain_cluster cluster"
    and "(nid, addr) \<in> set (all_peer_addrs cluster)" and "cl_peer_status cluster nid \<noteq> Dead"
  shows "delete_out router addr u \<in> set (ef_forwards ef) \<and>
    request_of (delete_out router addr u) = Some (addr, local_rq router Delete (''/entry/'' @ u) None OtherContent) \<and>
    (\<forall>env2 st2 resp2 ef2 st2'. serve env2 (local_rq router Delete (''/entry/'' @ u) None OtherContent) st2 =
       (resp2, ef2, st2') \<longrightarrow> resp2 \<noteq> unauthorized \<longrightarrow> ev_other env2 = (\<lambda>si. si) \<longrightarrow> si_inv (as_index st2) \<longrightarrow>
       (\<forall>ns. contents (as_index st2') ns u = None) \<and>
       (\<forall>ns v. v \<noteq> u \<longrightarrow> contents (as_index st2') ns v = contents (as_index st2) ns v) \<and>
       status_code resp2 \<in> {200, 404, 500} \<and> ef_forwards ef2 = [])"
proof -
  have "resp \<noteq> unauthorized" using assms(2) by (auto simp: unauthorized_def error_response_def)
  from served_delete [OF assms(1,3-6) this]
  have "ef_forwards ef = fanout p (\<lambda>r addr. delete_out r addr u) (st\<lparr> as_index := snd (si_remove_by_uuid u (ev_other env (as_index st))) \<rparr>)"
    using assms(2) by (auto simp: delete_entry_handler_def bad_request_def not_found_def internal_error_def error_response_def
        Let_def split_beta split: if_splits option.splits)
  then have "delete_out router addr u \<in> set (ef_forwards ef)"
    using assms(7-9,11,12) by (force simp: fanout_def)
  moreover have "plain_addr addr"
    using assms(10,11) by (auto simp: plain_cluster_def all_peer_addrs_def list_all_iff)
  then have "request_of (delete_out router addr u) = Some (addr, local_rq router Delete (''/entry/'' @ u) None OtherContent)"
    by (rule arrivals(5)) (rule assms(5))
  ultimately show ?thesis using delete_at_peer [OF _ assms(5)] unfolding deleted_at_def by blast
qed

theorem delete_on_every_peer_witness:
  "delete_out router_two ''y'' ''u1'' \<in> set (ef_forwards (fst (snd (serve env_a (delete_a\<lparr> rq_authorization := None \<rparr>) app_two)))) \<and>
   contents (as_index (snd (snd (serve env_a (local_rq router_two Delete ''/entry/u1'' None OtherContent) app_a)))) ''m'' ''u1'' = None"
proof -
  obtain resp ef st' where s: "serve env_a (delete_a\<lparr> rq_authorization := None \<rparr>) app_two = (resp, ef, st')" by (metis prod_cases3)
  obtain resp2 ef2 st2 where s2: "serve env_a (local_rq router_two Delete ''/entry/u1'' None OtherContent) app_a = (resp2, ef2, st2)"
    by (metis prod_cases3)
  have u: "plain_uuid ''u1''" by (simp add: plain_uuid_def uuid_char_def)
  have i: "as_index app_two = si_a" "as_index app_a = si_a" "as_cluster app_two = Some cs_two" "as_router app_two = Some router_two"
    by (simp_all add: app_two_def app_a_def)
  have r: "route Delete ''/entry/u1'' = Routed DeleteEntryEp [''u1'']" using peer_routes(4) [OF u] by simp
  have "status_code resp = 200" "resp2 \<noteq> unauthorized"
    using s s2 by (auto simp: serve_def delete_a_def local_rq_def r read_endpoint_def write_endpoint_def delete_entry_handler_def
        i owner_a env_a_def ok_response_def unauthorized_def error_response_def split_beta Let_def)
  then show ?thesis
    using delete_on_every_peer [OF s _ _ _ u _ _ i(3,4), of "\<lparr> lp_local = None, lp_repair = None \<rparr>" "''b''" "''y''"]
      s s2 alive_b plain_two(2) si_inv_a
    by (simp add: delete_a_def is_local_def plain_state_def i all_peer_addrs_def cs_two_eqs env_a_def id_def)
qed

end
