(* ===== verification/Config_Load.thy ===== *)
theory Config_Load
  imports Config
begin

text \<open>
  \<open>FerrocacheConfig::load\<close> of \<open>src/config.rs\<close>: defaults set key by key, then an optional file, then
  environment variables, then deserialisation with serde's defaults. The configuration library is a
  parameter: how it converts values, parses variables and reads the file.
\<close>

section \<open>Values and layers\<close>

datatype cfg_value = VInt int | VReal real | VBool bool | VStr string | VList "string list"

type_synonym layer = "string \<rightharpoonup> cfg_value"

datatype config_error = BuildFailed | MissingKey string | BadValue string

record config_lib =
  cl_u16 :: "cfg_value \<Rightarrow> 16 word option"
  cl_u64 :: "cfg_value \<Rightarrow> u64 option"
  cl_usize :: "cfg_value \<Rightarrow> nat option"
  cl_f32 :: "cfg_value \<Rightarrow> flt option"
  cl_f64 :: "cfg_value \<Rightarrow> real option"
  cl_bool :: "cfg_value \<Rightarrow> bool option"
  cl_string :: "cfg_value \<Rightarrow> string option"
  cl_list :: "cfg_value \<Rightarrow> string list option"

text \<open>Values that have the type and fit the width are converted to themselves.\<close>

definition config_law :: "config_lib \<Rightarrow> bool" where
  "config_law lib \<longleftrightarrow>
     (\<forall>n. 0 \<le> n \<and> n < 2 ^ 16 \<longrightarrow> cl_u16 lib (VInt n) = Some (of_int n)) \<and>
     (\<forall>n. 0 \<le> n \<and> n < 2 ^ 63 \<longrightarrow> cl_u64 lib (VInt n) = Some (of_int n) \<and> cl_usize lib (VInt n) = Some (nat n)) \<and>
     (\<forall>x. cl_f32 lib (VReal x) = Some (Fin x)) \<and> (\<forall>x. cl_f64 lib (VReal x) = Some x) \<and>
     (\<forall>b. cl_bool lib (VBool b) = Some b) \<and> (\<forall>s. cl_string lib (VStr s) = Some s) \<and>
     (\<forall>l. cl_list lib (VList l) = Some l)"

text \<open>The calls of \<open>set_default\<close>, in order.\<close>

definition set_defaults :: "(string \<times> cfg_value) list" where
  "set_defaults =
     (let d = default_ferrocache_config; h = hnsw_cfg d; c = cluster_cfg d
      in [(''port'', VInt (uint (port d))),
          (''wal_path'', VStr (wal_path d)),
          (''hnsw.max_nb_connection'', VInt (int (max_nb_connection h))),
          (''hnsw.max_elements'', VInt (int (max_elements h))),
          (''hnsw.max_layer'', VInt (int (max_layer h))),
          (''hnsw.ef_construction'', VInt (int (ef_construction h))),
          (''hnsw.ef_search'', VInt (int (cfg_ef_search h))),
          (''hnsw.default_threshold'', VReal (case default_threshold h of Fin x \<Rightarrow> x | _ \<Rightarrow> 0)),
          (''cluster.enabled'', VBool (cluster_enabled c)),
          (''cluster.gossip_addr'', VStr (gossip_addr c)),
          (''cluster.api_addr'', VStr (api_addr c)),
          (''cluster.seed_nodes'', VList []),
          (''cluster.virtual_nodes'', VInt (int (virtual_nodes c))),
          (''cluster.replication_factor'', VInt (int (replication_factor c))),
          (''cluster.max_replication_retries'', VInt (int (max_replication_retries c))),
          (''cluster.phi_threshold'', VReal (phi_threshold c)),
          (''cluster.phi_window_size'', VInt (int (phi_window_size c))),
          (''cluster.phi_min_std_dev_ms'', VReal (phi_min_std_dev_ms c)),
          (''cluster.dead_node_removal_enabled'', VBool (dead_node_removal_enabled c)),
          (''cluster.read_repair_enabled'', VBool (read_repair_enabled c)),
          (''compact_interval_inserts'', VInt (uint (compact_interval_inserts d))),
          (''wal_batch_size'', VInt (int (wal_batch_size d))),
          (''wal_batch_timeout_ms'', VInt (int (wal_batch_timeout_ms d))),
          (''expire_scan_interval_secs'', VInt (int (expire_scan_interval_secs d)))])"

text \<open>
  \<open>FERROCACHE_CLUSTER__ENABLED\<close> is \<open>cluster.enabled\<close>: prefix and separator \<open>_\<close>, then \<open>__\<close> as the
  dot, all in lower case.
\<close>

fun dots :: "string \<Rightarrow> string" where
  "dots (c # d # s) = (if c = CHR ''_'' \<and> d = CHR ''_'' then CHR ''.'' # dots s else c # dots (d # s))"
| "dots s = s"

definition env_key :: "string \<Rightarrow> string option" where
  "env_key var = map_option dots (strip_prefix ''ferrocache_'' (to_lowercase var))"

text \<open>\<open>parse key text\<close> is \<open>try_parsing\<close> with the list separator of the key \<open>cluster.seed_nodes\<close>.\<close>

definition env_layer :: "(string \<Rightarrow> string \<Rightarrow> cfg_value) \<Rightarrow> (string \<times> string) list \<Rightarrow> layer" where
  "env_layer parse vars =
     map_of (concat (map (\<lambda>(var, s). case env_key var of None \<Rightarrow> [] | Some k \<Rightarrow> [(k, parse k s)]) vars))"

definition merged :: "layer \<Rightarrow> layer \<Rightarrow> layer" where
  "merged file env = map_of set_defaults ++ file ++ env"

section \<open>Deserialisation\<close>

definition required :: "(cfg_value \<Rightarrow> 'a option) \<Rightarrow> string \<Rightarrow> layer \<Rightarrow> config_error + 'a" where
  "required conv key m =
     (case m key of
        None \<Rightarrow> Inl (MissingKey key)
      | Some v \<Rightarrow> (case conv v of None \<Rightarrow> Inl (BadValue key) | Some x \<Rightarrow> Inr x))"

definition defaulted :: "(cfg_value \<Rightarrow> 'a option) \<Rightarrow> 'a \<Rightarrow> string \<Rightarrow> layer \<Rightarrow> config_error + 'a" where
  "defaulted conv d key m =
     (case m key of
        None \<Rightarrow> Inr d
      | Some v \<Rightarrow> (case conv v of None \<Rightarrow> Inl (BadValue key) | Some x \<Rightarrow> Inr x))"

definition optional :: "(cfg_value \<Rightarrow> 'a option) \<Rightarrow> string \<Rightarrow> layer \<Rightarrow> config_error + 'a option" where
  "optional conv = defaulted (map_option Some \<circ> conv) None"

definition and_then :: "'e + 'a \<Rightarrow> ('a \<Rightarrow> 'e + 'b) \<Rightarrow> 'e + 'b" where
  "and_then r f = (case r of Inl e \<Rightarrow> Inl e | Inr x \<Rightarrow> f x)"

definition de_hnsw :: "config_lib \<Rightarrow> layer \<Rightarrow> config_error + hnsw_config" where
  "de_hnsw lib m =
     and_then (required (cl_usize lib) ''hnsw.max_nb_connection'' m) (\<lambda>nb.
     and_then (required (cl_usize lib) ''hnsw.max_elements'' m) (\<lambda>me.
     and_then (required (cl_usize lib) ''hnsw.max_layer'' m) (\<lambda>ml.
     and_then (required (cl_usize lib) ''hnsw.ef_construction'' m) (\<lambda>ec.
     and_then (required (cl_usize lib) ''hnsw.ef_search'' m) (\<lambda>es.
     and_then (required (cl_f32 lib) ''hnsw.default_threshold'' m) (\<lambda>th.
     and_then (optional (cl_usize lib) ''hnsw.max_entries_per_namespace'' m) (\<lambda>cap.
       Inr \<lparr> max_nb_connection = nb, max_elements = me, max_layer = ml, ef_construction = ec,
             cfg_ef_search = es, default_threshold = th, max_entries_per_namespace = cap \<rparr>)))))))"

definition de_tls :: "config_lib \<Rightarrow> layer \<Rightarrow> config_error + cluster_tls_config" where
  "de_tls lib m =
     and_then (defaulted (cl_bool lib) False ''cluster.tls.enabled'' m) (\<lambda>en.
     and_then (optional (cl_string lib) ''cluster.tls.ca_cert_path'' m) (\<lambda>ca.
     and_then (optional (cl_string lib) ''cluster.tls.node_cert_path'' m) (\<lambda>nc.
     and_then (optional (cl_string lib) ''cluster.tls.node_key_path'' m) (\<lambda>nk.
     and_then (optional (cl_u16 lib) ''cluster.tls.internal_port'' m) (\<lambda>p.
       Inr \<lparr> tls_enabled = en, ca_cert_path = ca, node_cert_path = nc, node_key_path = nk,
             tls_internal_port = p \<rparr>)))))"

definition de_cluster :: "config_lib \<Rightarrow> layer \<Rightarrow> config_error + cluster_config" where
  "de_cluster lib m =
     and_then (required (cl_bool lib) ''cluster.enabled'' m) (\<lambda>en.
     and_then (required (cl_string lib) ''cluster.gossip_addr'' m) (\<lambda>ga.
     and_then (required (cl_string lib) ''cluster.api_addr'' m) (\<lambda>aa.
     and_then (required (cl_list lib) ''cluster.seed_nodes'' m) (\<lambda>sn.
     and_then (required (cl_usize lib) ''cluster.virtual_nodes'' m) (\<lambda>vn.
     and_then (required (cl_usize lib) ''cluster.replication_factor'' m) (\<lambda>rf.
     and_then (de_tls lib m) (\<lambda>tls.
     and_then (defaulted (cl_usize lib) default_max_replication_retries ''cluster.max_replication_retries'' m) (\<lambda>mr.
     and_then (defaulted (cl_f64 lib) default_phi_threshold ''cluster.phi_threshold'' m) (\<lambda>pt.
     and_then (defaulted (cl_usize lib) default_phi_window_size ''cluster.phi_window_size'' m) (\<lambda>pw.
     and_then (defaulted (cl_f64 lib) default_phi_min_std_dev_ms ''cluster.phi_min_std_dev_ms'' m) (\<lambda>pm.
     and_then (defaulted (cl_bool lib) default_dead_node_removal_enabled ''cluster.dead_node_removal_enabled'' m) (\<lambda>dr.
     and_then (defaulted (cl_bool lib) default_read_repair_enabled ''cluster.read_repair_enabled'' m) (\<lambda>rr.
       Inr \<lparr> cluster_enabled = en, gossip_addr = ga, api_addr = aa, seed_nodes = sn, virtual_nodes = vn,
             replication_factor = rf, cluster_tls = tls, max_replication_retries = mr, phi_threshold = pt,
             phi_window_size = pw, phi_min_std_dev_ms = pm, dead_node_removal_enabled = dr,
             read_repair_enabled = rr \<rparr>)))))))))))))"

definition de_config :: "config_lib \<Rightarrow> layer \<Rightarrow> config_error + ferrocache_config" where
  "de_config lib m =
     and_then (required (cl_u16 lib) ''port'' m) (\<lambda>p.
     and_then (optional (cl_string lib) ''node_id'' m) (\<lambda>nid.
     and_then (required (cl_string lib) ''wal_path'' m) (\<lambda>wp.
     and_then (de_hnsw lib m) (\<lambda>h.
     and_then (de_cluster lib m) (\<lambda>c.
     and_then (defaulted (cl_u64 lib) default_compact_interval_inserts ''compact_interval_inserts'' m) (\<lambda>ci.
     and_then (optional (cl_string lib) ''auth_token'' m) (\<lambda>tok.
     and_then (defaulted (cl_usize lib) default_wal_batch_size ''wal_batch_size'' m) (\<lambda>bs.
     and_then (defaulted (cl_usize lib) default_wal_batch_timeout_ms ''wal_batch_timeout_ms'' m) (\<lambda>bt.
     and_then (defaulted (cl_usize lib) default_expire_scan_interval_secs ''expire_scan_interval_secs'' m) (\<lambda>ex.
     and_then (optional (cl_u64 lib) ''conversation_ttl_seconds'' m) (\<lambda>ct.
       Inr \<lparr> port = p, node_id = nid, wal_path = wp, hnsw_cfg = h, cluster_cfg = c,
             compact_interval_inserts = ci, auth_token = tok, wal_batch_size = bs, wal_batch_timeout_ms = bt,
             expire_scan_interval_secs = ex, conversation_ttl_seconds = ct \<rparr>)))))))))))"

text \<open>\<open>file\<close> is what the optional file holds, or a failure to read it.\<close>

definition load ::
  "config_lib \<Rightarrow> (string \<Rightarrow> string \<Rightarrow> cfg_value) \<Rightarrow> layer option \<Rightarrow> (string \<times> string) list \<Rightarrow>
   config_error + ferrocache_config" where
  "load lib parse file vars =
     (case file of
        None \<Rightarrow> Inl BuildFailed
      | Some f \<Rightarrow> de_config lib (merged f (env_layer parse vars)))"

section \<open>The three sources of defaults agree\<close>

lemma and_then_Inr [simp]: "and_then (Inr x) f = f x" and and_then_Inl [simp]: "and_then (Inl e) f = Inl e"
  by (simp_all add: and_then_def)

lemma required_eq: "m key = Some v \<Longrightarrow> conv v = Some x \<Longrightarrow> required conv key m = Inr x"
  by (simp add: required_def)

lemma defaulted_eq: "m key = Some v \<Longrightarrow> conv v = Some x \<Longrightarrow> defaulted conv d key m = Inr x"
  by (simp add: defaulted_def)

lemma absent_eq: "m key = None \<Longrightarrow> defaulted conv d key m = Inr d" "m key = None \<Longrightarrow> optional conv key m = Inr None"
  by (simp_all add: defaulted_def optional_def)

lemmas default_defs = default_ferrocache_config_def default_hnsw_config_def default_cluster_config_def
  default_cluster_tls_config_def default_compact_interval_inserts_def default_wal_batch_size_def
  default_wal_batch_timeout_ms_def default_expire_scan_interval_secs_def default_max_replication_retries_def
  default_phi_threshold_def default_phi_window_size_def default_phi_min_std_dev_ms_def
  default_dead_node_removal_enabled_def default_read_repair_enabled_def
  DEFAULT_PHI_THRESHOLD_def DEFAULT_WINDOW_SIZE_def DEFAULT_MIN_STD_DEV_MS_def

lemma config_lawD:
  assumes "config_law lib"
  shows "0 \<le> n \<Longrightarrow> n < 65536 \<Longrightarrow> cl_u16 lib (VInt n) = Some (of_int n)"
    and "0 \<le> n \<Longrightarrow> n < 2 ^ 63 \<Longrightarrow> cl_u64 lib (VInt n) = Some (of_int n)"
    and "0 \<le> n \<Longrightarrow> n < 2 ^ 63 \<Longrightarrow> cl_usize lib (VInt n) = Some (nat n)"
    and "cl_f32 lib (VReal x) = Some (Fin x)" and "cl_f64 lib (VReal x) = Some x"
    and "cl_bool lib (VBool b) = Some b" and "cl_string lib (VStr s) = Some s" and "cl_list lib (VList l) = Some l"
  using assms by (simp_all add: config_law_def)

lemma set_defaults_eq:
  "set_defaults =
     [(''port'', VInt 3000),
      (''wal_path'', VStr ''./ferrocache.wal''),
      (''hnsw.max_nb_connection'', VInt 16),
      (''hnsw.max_elements'', VInt 100000),
      (''hnsw.max_layer'', VInt 16),
      (''hnsw.ef_construction'', VInt 200),
      (''hnsw.ef_search'', VInt 32),
      (''hnsw.default_threshold'', VReal (92 / 100)),
      (''cluster.enabled'', VBool False),
      (''cluster.gossip_addr'', VStr ''0.0.0.0:4000''),
      (''cluster.api_addr'', VStr ''0.0.0.0:3000''),
      (''cluster.seed_nodes'', VList []),
      (''cluster.virtual_nodes'', VInt 64),
      (''cluster.replication_factor'', VInt 2),
      (''cluster.max_replication_retries'', VInt 3),
      (''cluster.phi_threshold'', VReal 8),
      (''cluster.phi_window_size'', VInt 100),
      (''cluster.phi_min_std_dev_ms'', VReal 100),
      (''cluster.dead_node_removal_enabled'', VBool True),
      (''cluster.read_repair_enabled'', VBool True),
      (''compact_interval_inserts'', VInt 10000),
      (''wal_batch_size'', VInt 256),
      (''wal_batch_timeout_ms'', VInt 1),
      (''expire_scan_interval_secs'', VInt 60)]"
  by (simp add: set_defaults_def default_defs)

lemma set_default_values:
  "map_of set_defaults ''port'' = Some (VInt 3000)"
  "map_of set_defaults ''wal_path'' = Some (VStr ''./ferrocache.wal'')"
  "map_of set_defaults ''hnsw.max_nb_connection'' = Some (VInt 16)"
  "map_of set_defaults ''hnsw.max_elements'' = Some (VInt 100000)"
  "map_of set_defaults ''hnsw.max_layer'' = Some (VInt 16)"
  "map_of set_defaults ''hnsw.ef_construction'' = Some (VInt 200)"
  "map_of set_defaults ''hnsw.ef_search'' = Some (VInt 32)"
  "map_of set_defaults ''hnsw.default_threshold'' = Some (VReal (92 / 100))"
  "map_of set_defaults ''cluster.enabled'' = Some (VBool False)"
  "map_of set_defaults ''cluster.gossip_addr'' = Some (VStr ''0.0.0.0:4000'')"
  "map_of set_defaults ''cluster.api_addr'' = Some (VStr ''0.0.0.0:3000'')"
  "map_of set_defaults ''cluster.seed_nodes'' = Some (VList [])"
  "map_of set_defaults ''cluster.virtual_nodes'' = Some (VInt 64)"
  "map_of set_defaults ''cluster.replication_factor'' = Some (VInt 2)"
  "map_of set_defaults ''cluster.max_replication_retries'' = Some (VInt 3)"
  "map_of set_defaults ''cluster.phi_threshold'' = Some (VReal 8)"
  "map_of set_defaults ''cluster.phi_window_size'' = Some (VInt 100)"
  "map_of set_defaults ''cluster.phi_min_std_dev_ms'' = Some (VReal 100)"
  "map_of set_defaults ''cluster.dead_node_removal_enabled'' = Some (VBool True)"
  "map_of set_defaults ''cluster.read_repair_enabled'' = Some (VBool True)"
  "map_of set_defaults ''compact_interval_inserts'' = Some (VInt 10000)"
  "map_of set_defaults ''wal_batch_size'' = Some (VInt 256)"
  "map_of set_defaults ''wal_batch_timeout_ms'' = Some (VInt 1)"
  "map_of set_defaults ''expire_scan_interval_secs'' = Some (VInt 60)"
  "map_of set_defaults ''node_id'' = None"
  "map_of set_defaults ''auth_token'' = None"
  "map_of set_defaults ''conversation_ttl_seconds'' = None"
  "map_of set_defaults ''hnsw.max_entries_per_namespace'' = None"
  "map_of set_defaults ''cluster.tls.enabled'' = None"
  "map_of set_defaults ''cluster.tls.ca_cert_path'' = None"
  "map_of set_defaults ''cluster.tls.node_cert_path'' = None"
  "map_of set_defaults ''cluster.tls.node_key_path'' = None"
  "map_of set_defaults ''cluster.tls.internal_port'' = None"
  by (simp_all add: set_defaults_eq)

text \<open>The parts for the graph and the cluster, when no layer overrides them.\<close>

lemma de_parts_defaults:
  assumes "config_law lib" and "\<And>k. k \<noteq> ''auth_token'' \<Longrightarrow> m k = map_of set_defaults k"
  shows "de_hnsw lib m = Inr default_hnsw_config" and "de_cluster lib m = Inr default_cluster_config"
proof -
  note L = config_lawD [OF assms(1)] and V = set_default_values assms(2)
  show "de_hnsw lib m = Inr default_hnsw_config"
    by (simp add: de_hnsw_def default_defs required_def absent_eq L V)
  have tls: "de_tls lib m = Inr default_cluster_tls_config"
    by (simp add: de_tls_def default_defs absent_eq V)
  show "de_cluster lib m = Inr default_cluster_config"
    by (simp add: de_cluster_def tls required_def defaulted_def L V) (simp add: default_defs)
qed

lemma de_config_defaults:
  assumes "config_law lib"
  shows "de_config lib (map_of set_defaults) = Inr default_ferrocache_config"
  using de_parts_defaults [OF assms, of "map_of set_defaults"]
  by (simp add: de_config_def required_def defaulted_def absent_eq config_lawD [OF assms] set_default_values)
    (simp add: default_defs)

text \<open>A token on top of the defaults.\<close>

lemma de_config_token:
  assumes "config_law lib"
  shows "de_config lib ((map_of set_defaults)(''auth_token'' \<mapsto> VStr t)) = Inr (default_ferrocache_config\<lparr> auth_token := Some t \<rparr>)"
  using de_parts_defaults [OF assms, of "(map_of set_defaults)(''auth_token'' \<mapsto> VStr t)"]
  by (simp add: de_config_def required_def defaulted_def optional_def config_lawD [OF assms] set_default_values)
    (simp add: default_defs)

section \<open>Precedence\<close>

lemma and_then_InrE:
  assumes "and_then r f = Inr y"
  obtains x where "r = Inr x" "f x = Inr y"
  using assms by (cases r) auto

lemma required_Inr: "required conv key m = Inr x \<longleftrightarrow> (\<exists>v. m key = Some v \<and> conv v = Some x)"
  by (auto simp: required_def split: option.splits)

lemma optional_Inr:
  "optional conv key m = Inr x \<longleftrightarrow> (case m key of None \<Rightarrow> x = None | Some v \<Rightarrow> (\<exists>y. conv v = Some y \<and> x = Some y))"
  by (auto simp: optional_def defaulted_def split: option.splits)

text \<open>What was loaded is what the merged layers say.\<close>

lemma defaulted_Inr:
  "defaulted conv d key m = Inr x \<longleftrightarrow> (case m key of None \<Rightarrow> x = d | Some v \<Rightarrow> conv v = Some x)"
  by (auto simp: defaulted_def split: option.splits)

lemma de_config_fields:
  assumes "de_config lib m = Inr c"
  shows "required (cl_u16 lib) ''port'' m = Inr (port c) \<and> required (cl_string lib) ''wal_path'' m = Inr (wal_path c) \<and>
    optional (cl_string lib) ''auth_token'' m = Inr (auth_token c) \<and>
    optional (cl_u64 lib) ''conversation_ttl_seconds'' m = Inr (conversation_ttl_seconds c) \<and>
    de_cluster lib m = Inr (cluster_cfg c)"
  using assms unfolding de_config_def by (elim and_then_InrE) auto

lemma de_cluster_fields:
  assumes "de_cluster lib m = Inr c"
  shows "required (cl_bool lib) ''cluster.enabled'' m = Inr (cluster_enabled c) \<and>
    required (cl_usize lib) ''cluster.replication_factor'' m = Inr (replication_factor c) \<and>
    de_tls lib m = Inr (cluster_tls c)"
  using assms unfolding de_cluster_def by (elim and_then_InrE) auto

lemma de_tls_fields:
  assumes "de_tls lib m = Inr c"
  shows "defaulted (cl_bool lib) False ''cluster.tls.enabled'' m = Inr (tls_enabled c)"
  using assms unfolding de_tls_def by (elim and_then_InrE) auto

text \<open>Environment over file over defaults.\<close>

definition setting :: "layer \<Rightarrow> layer \<Rightarrow> layer" where
  "setting file env k =
     (case env k of
        Some v \<Rightarrow> Some v
      | None \<Rightarrow> (case file k of Some v \<Rightarrow> Some v | None \<Rightarrow> map_of set_defaults k))"

lemma merged_setting: "merged = setting"
  by (intro ext) (simp add: merged_def setting_def map_add_def split: option.splits)

lemma load_fields:
  assumes "load lib parse (Some file) vars = Inr c"
  defines "m \<equiv> setting file (env_layer parse vars)"
  shows "\<exists>v. m ''port'' = Some v \<and> cl_u16 lib v = Some (port c)"
    and "\<exists>v. m ''wal_path'' = Some v \<and> cl_string lib v = Some (wal_path c)"
    and "case m ''auth_token'' of None \<Rightarrow> auth_token c = None | Some v \<Rightarrow> auth_token c \<noteq> None \<and> cl_string lib v = auth_token c"
    and "case m ''conversation_ttl_seconds'' of
      None \<Rightarrow> conversation_ttl_seconds c = None
    | Some v \<Rightarrow> conversation_ttl_seconds c \<noteq> None \<and> cl_u64 lib v = conversation_ttl_seconds c"
    and "\<exists>v. m ''cluster.enabled'' = Some v \<and> cl_bool lib v = Some (cluster_enabled (cluster_cfg c))"
    and "\<exists>v. m ''cluster.replication_factor'' = Some v \<and> cl_usize lib v = Some (replication_factor (cluster_cfg c))"
    and "case m ''cluster.tls.enabled'' of
      None \<Rightarrow> \<not> tls_enabled (cluster_tls (cluster_cfg c))
    | Some v \<Rightarrow> cl_bool lib v = Some (tls_enabled (cluster_tls (cluster_cfg c)))"
proof -
  have d: "de_config lib m = Inr c"
    using assms(1) by (simp add: load_def m_def merged_setting)
  note C = de_config_fields [OF d]
  then have K: "required (cl_bool lib) ''cluster.enabled'' m = Inr (cluster_enabled (cluster_cfg c)) \<and>
    required (cl_usize lib) ''cluster.replication_factor'' m = Inr (replication_factor (cluster_cfg c)) \<and>
    de_tls lib m = Inr (cluster_tls (cluster_cfg c))" using de_cluster_fields by blast
  then have T: "defaulted (cl_bool lib) False ''cluster.tls.enabled'' m = Inr (tls_enabled (cluster_tls (cluster_cfg c)))"
    using de_tls_fields by blast
  show "\<exists>v. m ''port'' = Some v \<and> cl_u16 lib v = Some (port c)" using C by (simp add: required_Inr)
  show "\<exists>v. m ''wal_path'' = Some v \<and> cl_string lib v = Some (wal_path c)" using C by (simp add: required_Inr)
  show "\<exists>v. m ''cluster.enabled'' = Some v \<and> cl_bool lib v = Some (cluster_enabled (cluster_cfg c))"
    using K by (simp add: required_Inr)
  show "\<exists>v. m ''cluster.replication_factor'' = Some v \<and> cl_usize lib v = Some (replication_factor (cluster_cfg c))"
    using K by (simp add: required_Inr)
  show "case m ''auth_token'' of None \<Rightarrow> auth_token c = None | Some v \<Rightarrow> auth_token c \<noteq> None \<and> cl_string lib v = auth_token c"
    using C by (auto simp: optional_Inr split: option.splits)
  show "case m ''conversation_ttl_seconds'' of
      None \<Rightarrow> conversation_ttl_seconds c = None
    | Some v \<Rightarrow> conversation_ttl_seconds c \<noteq> None \<and> cl_u64 lib v = conversation_ttl_seconds c"
    using C by (auto simp: optional_Inr split: option.splits)
  show "case m ''cluster.tls.enabled'' of
      None \<Rightarrow> \<not> tls_enabled (cluster_tls (cluster_cfg c))
    | Some v \<Rightarrow> cl_bool lib v = Some (tls_enabled (cluster_tls (cluster_cfg c)))"
    using T by (auto simp: defaulted_Inr split: option.splits)
qed

lemma load_default:
  "config_law lib \<Longrightarrow> load lib parse (Some Map.empty) [] = Inr default_ferrocache_config"
  by (simp add: load_def merged_def env_layer_def de_config_defaults)

end
