(* ===== verification/Certificates.thy ===== *)
theory Certificates
  imports Config
begin

text \<open>
  The certificates of \<open>src/tls.rs\<close> and \<open>src/bin/gen_certs.rs\<close>: what a cluster CA and a node
  certificate are asked to be, where the files go, how a node finds its bundle and what its TLS
  listener accepts. Keys, signatures and PEM parsing are a library, whose functions are parameters.
\<close>

section \<open>Certificates\<close>

datatype key_usage = KeyCertSign | CrlSign | DigitalSignature | KeyEncipherment
datatype extended_usage = ServerAuth | ClientAuth

record cert_params =
  cp_is_ca :: bool
  cp_key_usages :: "key_usage list"
  cp_extended_usages :: "extended_usage list"
  cp_common_name :: string
  cp_sans :: "string list"

text \<open>\<open>new_key n\<close> is the \<open>n\<close>-th key pair the process draws; each step may fail.\<close>

record ('c, 'k) cert_lib =
  new_key :: "nat \<Rightarrow> 'k option"
  sans_ok :: "string list \<Rightarrow> bool"
  self_signed :: "cert_params \<Rightarrow> 'k \<Rightarrow> 'c option"
  signed_by :: "cert_params \<Rightarrow> 'k \<Rightarrow> 'c \<Rightarrow> 'k \<Rightarrow> 'c option"
  cert_pem :: "'c \<Rightarrow> string"
  key_pem :: "'k \<Rightarrow> string"

datatype tls_error = ReadPem string | KeyPairFailed | ParamsFailed | SignFailed

definition ca_params :: cert_params where
  "ca_params = \<lparr> cp_is_ca = True, cp_key_usages = [KeyCertSign, CrlSign], cp_extended_usages = [],
     cp_common_name = ''ferrocache-dev-ca'', cp_sans = [] \<rparr>"

definition generate_ca :: "('c, 'k) cert_lib \<Rightarrow> nat \<Rightarrow> tls_error + 'c \<times> 'k" where
  "generate_ca lib n =
     (case new_key lib n of
        None \<Rightarrow> Inl KeyPairFailed
      | Some key_pair \<Rightarrow>
          if \<not> sans_ok lib [] then Inl ParamsFailed
          else (case self_signed lib ca_params key_pair of
                 None \<Rightarrow> Inl SignFailed
               | Some cert \<Rightarrow> Inr (cert, key_pair)))"

definition node_params :: "string \<Rightarrow> string list \<Rightarrow> cert_params" where
  "node_params nid sans =
     \<lparr> cp_is_ca = False, cp_key_usages = [DigitalSignature, KeyEncipherment],
       cp_extended_usages = [ServerAuth, ClientAuth], cp_common_name = nid, cp_sans = sans \<rparr>"

definition generate_node_cert ::
  "('c, 'k) cert_lib \<Rightarrow> nat \<Rightarrow> 'c \<Rightarrow> 'k \<Rightarrow> string \<Rightarrow> string list \<Rightarrow> tls_error + 'c \<times> 'k" where
  "generate_node_cert lib n ca_cert ca_key nid sans =
     (case new_key lib n of
        None \<Rightarrow> Inl KeyPairFailed
      | Some key_pair \<Rightarrow>
          if \<not> sans_ok lib sans then Inl ParamsFailed
          else (case signed_by lib (node_params nid sans) key_pair ca_cert ca_key of
                 None \<Rightarrow> Inl SignFailed
               | Some cert \<Rightarrow> Inr (cert, key_pair)))"

section \<open>The bundle of a node\<close>

record tls_bundle =
  ca_cert_pem :: string
  node_cert_pem :: string
  node_key_pem :: string

definition read_pem :: "(string \<Rightarrow> string option) \<Rightarrow> string \<Rightarrow> tls_error + string" where
  "read_pem fs path = (case fs path of Some s \<Rightarrow> Inr s | None \<Rightarrow> Inl (ReadPem path))"

definition node_sans :: "string \<Rightarrow> string list" where
  "node_sans addr =
     (let host = takeWhile (\<lambda>c. c \<noteq> CHR '':'') addr
      in [host] @ (if host \<noteq> ''localhost'' then [''localhost''] else []) @ [''127.0.0.1''])"

definition load_or_generate ::
  "('c, 'k) cert_lib \<Rightarrow> (string \<Rightarrow> string option) \<Rightarrow> cluster_tls_config \<Rightarrow> string \<Rightarrow> string \<Rightarrow> tls_error + tls_bundle" where
  "load_or_generate lib fs config nid addr =
     (case (ca_cert_path config, node_cert_path config, node_key_path config) of
        (Some ca, Some cert, Some key) \<Rightarrow>
          (case read_pem fs ca of Inl err \<Rightarrow> Inl err | Inr ca_pem \<Rightarrow>
          (case read_pem fs cert of Inl err \<Rightarrow> Inl err | Inr c_pem \<Rightarrow>
          (case read_pem fs key of Inl err \<Rightarrow> Inl err | Inr k_pem \<Rightarrow>
             Inr \<lparr> ca_cert_pem = ca_pem, node_cert_pem = c_pem, node_key_pem = k_pem \<rparr>)))
      | _ \<Rightarrow>
          (case generate_ca lib 0 of Inl err \<Rightarrow> Inl err | Inr (ca_cert, ca_key) \<Rightarrow>
          (case generate_node_cert lib 1 ca_cert ca_key nid (node_sans addr) of Inl err \<Rightarrow> Inl err | Inr (c, k) \<Rightarrow>
             Inr \<lparr> ca_cert_pem = cert_pem lib ca_cert, node_cert_pem = cert_pem lib c, node_key_pem = key_pem lib k \<rparr>)))"

section \<open>The TLS listener\<close>

record 'd pem_lib =
  pem_certs :: "string \<Rightarrow> (unit + 'd) list"
  pem_keys :: "string \<Rightarrow> (unit + 'd) list"
  root_ok :: "'d \<Rightarrow> bool"
  verifier_ok :: "'d list \<Rightarrow> bool"
  identity_ok :: "'d list \<Rightarrow> 'd \<Rightarrow> bool"

datatype listener_error =
  CertChainPem | NoCertificates | NoPkcs8Key | KeyPem | CaPem | CaRejected | NoCaCertificates
  | VerifierFailed | ServerConfigFailed

record 'd server_config =
  sc_client_roots :: "'d list"
  sc_cert_chain :: "'d list"
  sc_key :: 'd

fun collect_results :: "('e + 'd) list \<Rightarrow> 'd list option" where
  "collect_results [] = Some []"
| "collect_results (Inl _ # rs) = None"
| "collect_results (Inr d # rs) = map_option ((#) d) (collect_results rs)"

definition pem_to_der :: "'d pem_lib \<Rightarrow> string \<Rightarrow> string \<Rightarrow> listener_error + 'd list \<times> 'd" where
  "pem_to_der lib c_pem k_pem =
     (case collect_results (pem_certs lib c_pem) of
        None \<Rightarrow> Inl CertChainPem
      | Some chain \<Rightarrow>
          if chain = [] then Inl NoCertificates
          else (case pem_keys lib k_pem of
                 [] \<Rightarrow> Inl NoPkcs8Key
               | Inl _ # _ \<Rightarrow> Inl KeyPem
               | Inr key # _ \<Rightarrow> Inr (chain, key)))"

fun add_roots :: "'d pem_lib \<Rightarrow> (unit + 'd) list \<Rightarrow> 'd list \<Rightarrow> listener_error + 'd list" where
  "add_roots lib [] roots = Inr roots"
| "add_roots lib (Inl _ # cas) roots = Inl CaPem"
| "add_roots lib (Inr ca # cas) roots =
     (if root_ok lib ca then add_roots lib cas (roots @ [ca]) else Inl CaRejected)"

definition build_server_config :: "'d pem_lib \<Rightarrow> tls_bundle \<Rightarrow> listener_error + 'd server_config" where
  "build_server_config lib b =
     (case add_roots lib (pem_certs lib (ca_cert_pem b)) [] of
        Inl err \<Rightarrow> Inl err
      | Inr roots \<Rightarrow>
          if roots = [] then Inl NoCaCertificates
          else if \<not> verifier_ok lib roots then Inl VerifierFailed
          else (case pem_to_der lib (node_cert_pem b) (node_key_pem b) of
                 Inl err \<Rightarrow> Inl err
               | Inr (chain, key) \<Rightarrow>
                   if identity_ok lib chain key
                   then Inr \<lparr> sc_client_roots = roots, sc_cert_chain = chain, sc_key = key \<rparr>
                   else Inl ServerConfigFailed))"

lemma add_roots_Inr: "add_roots lib cas roots = Inr rs \<Longrightarrow> \<exists>ds. collect_results cas = Some ds \<and> rs = roots @ ds"
  by (induction lib cas roots rule: add_roots.induct) (auto split: if_splits)

text \<open>
  A listener that starts demands client certificates: its roots are exactly the certificates of the
  cluster CA file, at least one, and it presents at least one certificate of its own.
\<close>

lemma build_server_config_mutual:
  assumes "build_server_config lib b = Inr sc"
  shows "collect_results (pem_certs lib (ca_cert_pem b)) = Some (sc_client_roots sc) \<and> sc_client_roots sc \<noteq> [] \<and>
    collect_results (pem_certs lib (node_cert_pem b)) = Some (sc_cert_chain sc) \<and> sc_cert_chain sc \<noteq> []"
  using assms
  by (auto simp: build_server_config_def pem_to_der_def dest!: add_roots_Inr
      split: sum.splits if_splits option.splits list.splits prod.splits)

section \<open>Generating the files of a cluster\<close>

definition path_join :: "string \<Rightarrow> string \<Rightarrow> string" where
  "path_join dir x =
     (if x \<noteq> [] \<and> hd x = CHR ''/'' then x
      else if dir = [] \<or> last dir = CHR ''/'' then dir @ x
      else dir @ ''/'' @ x)"

datatype gen_error = CreateDirFailed string | WriteFailed string | GenerateFailed tls_error

type_synonym files = "string \<rightharpoonup> string"

text \<open>\<open>mkdir\<close> and \<open>writable\<close> say which directories can be created and which files written.\<close>

record disk_io =
  mkdir :: "string \<Rightarrow> bool"
  writable :: "string \<Rightarrow> bool"

definition write_file :: "disk_io \<Rightarrow> string \<Rightarrow> string \<Rightarrow> files \<Rightarrow> (gen_error + unit) \<times> files" where
  "write_file io path content fs =
     (if writable io path then (Inr (), fs(path \<mapsto> content)) else (Inl (WriteFailed path), fs))"

definition gen_sans :: "string \<Rightarrow> string list" where
  "gen_sans nd = [nd, ''localhost'', ''127.0.0.1'']"

definition gen_node ::
  "('c, 'k) cert_lib \<Rightarrow> disk_io \<Rightarrow> string \<Rightarrow> 'c \<Rightarrow> 'k \<Rightarrow> nat \<Rightarrow> string \<Rightarrow> files \<Rightarrow> (gen_error + unit) \<times> files" where
  "gen_node lib io dir ca_cert ca_key n nd fs =
     (case generate_node_cert lib n ca_cert ca_key nd (gen_sans nd) of
        Inl err \<Rightarrow> (Inl (GenerateFailed err), fs)
      | Inr (cert, key) \<Rightarrow>
          (let node_dir = path_join dir nd
           in if \<not> mkdir io node_dir then (Inl (CreateDirFailed node_dir), fs)
              else case write_file io (path_join node_dir ''cert.pem'') (cert_pem lib cert) fs of
                     (Inl err, fs1) \<Rightarrow> (Inl err, fs1)
                   | (Inr _, fs1) \<Rightarrow> write_file io (path_join node_dir ''key.pem'') (key_pem lib key) fs1))"

fun gen_nodes ::
  "('c, 'k) cert_lib \<Rightarrow> disk_io \<Rightarrow> string \<Rightarrow> 'c \<Rightarrow> 'k \<Rightarrow> nat \<Rightarrow> string list \<Rightarrow> files \<Rightarrow> (gen_error + unit) \<times> files" where
  "gen_nodes lib io dir ca_cert ca_key n [] fs = (Inr (), fs)"
| "gen_nodes lib io dir ca_cert ca_key n (nd # nds) fs =
     (case gen_node lib io dir ca_cert ca_key n nd fs of
        (Inl err, fs1) \<Rightarrow> (Inl err, fs1)
      | (Inr _, fs1) \<Rightarrow> gen_nodes lib io dir ca_cert ca_key (Suc n) nds fs1)"

definition cert_nodes :: "string list \<Rightarrow> string list" where
  "cert_nodes args = (if args = [] then [''node1'', ''node2'', ''node3''] else args)"

definition cert_dir :: "string option \<Rightarrow> string" where
  "cert_dir var = (case var of Some d \<Rightarrow> d | None \<Rightarrow> ''./certs'')"

definition gen_certs ::
  "('c, 'k) cert_lib \<Rightarrow> disk_io \<Rightarrow> string list \<Rightarrow> string option \<Rightarrow> files \<Rightarrow> (gen_error + unit) \<times> files" where
  "gen_certs lib io args var fs =
     (let dir = cert_dir var
      in if \<not> mkdir io dir then (Inl (CreateDirFailed dir), fs)
         else case generate_ca lib 0 of
                Inl err \<Rightarrow> (Inl (GenerateFailed err), fs)
              | Inr (ca_cert, ca_key) \<Rightarrow>
                  (case write_file io (path_join dir ''ca.pem'') (cert_pem lib ca_cert) fs of
                     (Inl err, fs1) \<Rightarrow> (Inl err, fs1)
                   | (Inr _, fs1) \<Rightarrow> gen_nodes lib io dir ca_cert ca_key 1 (cert_nodes args) fs1))"

section \<open>What the files hold\<close>

text \<open>A name that is one component of a path.\<close>

definition plain_name :: "string \<Rightarrow> bool" where
  "plain_name x \<longleftrightarrow> x \<noteq> [] \<and> CHR ''/'' \<notin> set x"

definition cert_file :: "string \<Rightarrow> string \<Rightarrow> string" where
  "cert_file dir nd = path_join (path_join dir nd) ''cert.pem''"

definition key_file :: "string \<Rightarrow> string \<Rightarrow> string" where
  "key_file dir nd = path_join (path_join dir nd) ''key.pem''"

definition ca_file :: "string \<Rightarrow> string" where
  "ca_file dir = path_join dir ''ca.pem''"

lemma path_join_plain: "plain_name x \<Longrightarrow> path_join dir x = path_join dir [] @ x"
  by (cases x) (auto simp: path_join_def plain_name_def)

lemma node_paths:
  assumes "plain_name nd"
  shows "cert_file dir nd = path_join dir [] @ nd @ ''/cert.pem''" "key_file dir nd = path_join dir [] @ nd @ ''/key.pem''"
proof -
  have "path_join dir nd = path_join dir [] @ nd" "nd \<noteq> []" "last nd \<noteq> CHR ''/''"
    using path_join_plain [OF assms] assms last_in_set [of nd] unfolding plain_name_def by metis+
  then show "cert_file dir nd = path_join dir [] @ nd @ ''/cert.pem''" "key_file dir nd = path_join dir [] @ nd @ ''/key.pem''"
    by (simp_all add: cert_file_def key_file_def path_join_def [of "path_join dir nd"]) (simp_all add: path_join_def)
qed

lemma paths_differ:
  assumes "plain_name a" "plain_name b"
  shows "cert_file dir a \<noteq> key_file dir b" "cert_file dir a = cert_file dir b \<longleftrightarrow> a = b"
    "key_file dir a = key_file dir b \<longleftrightarrow> a = b" "cert_file dir a \<noteq> ca_file dir" "key_file dir a \<noteq> ca_file dir"
proof -
  have ca: "ca_file dir = path_join dir [] @ ''ca.pem''" unfolding ca_file_def by (rule path_join_plain) (simp add: plain_name_def)
  have "last (a @ ''/cert.pem'') = last (b @ ''/key.pem'')" "rev (a @ ''/cert.pem'') \<noteq> rev (b @ ''/key.pem'')" by simp_all
  then show "cert_file dir a \<noteq> key_file dir b" unfolding node_paths [OF assms(1)] node_paths [OF assms(2)] by auto
  show "cert_file dir a = cert_file dir b \<longleftrightarrow> a = b" "key_file dir a = key_file dir b \<longleftrightarrow> a = b"
    unfolding node_paths [OF assms(1)] node_paths [OF assms(2)] by simp_all
  have "a @ ''/cert.pem'' \<noteq> ''ca.pem''" "a @ ''/key.pem'' \<noteq> ''ca.pem''" by (auto simp: append_eq_Cons_conv)
  then show "cert_file dir a \<noteq> ca_file dir" "key_file dir a \<noteq> ca_file dir"
    unfolding node_paths [OF assms(1)] ca same_append_eq by blast+
qed

lemma gen_node_files:
  assumes "gen_node lib io dir ca_cert ca_key n nd fs = (Inr (), fs')"
  shows "\<exists>c k. generate_node_cert lib n ca_cert ca_key nd (gen_sans nd) = Inr (c, k) \<and>
    fs' = fs(cert_file dir nd \<mapsto> cert_pem lib c, key_file dir nd \<mapsto> key_pem lib k)"
  using assms
  by (auto simp: gen_node_def write_file_def cert_file_def key_file_def Let_def
      split: sum.splits prod.splits if_splits)

text \<open>Every node finds a matching certificate and key, both signed by the one CA.\<close>

lemma gen_nodes_files:
  assumes "gen_nodes lib io dir ca_cert ca_key n nds fs = (Inr (), fs')" and "\<forall>nd \<in> set nds. plain_name nd"
  shows "(\<forall>nd \<in> set nds. \<exists>i c k. generate_node_cert lib i ca_cert ca_key nd (gen_sans nd) = Inr (c, k) \<and>
      fs' (cert_file dir nd) = Some (cert_pem lib c) \<and> fs' (key_file dir nd) = Some (key_pem lib k)) \<and>
    (\<forall>p. (\<forall>nd \<in> set nds. p \<noteq> cert_file dir nd \<and> p \<noteq> key_file dir nd) \<longrightarrow> fs' p = fs p)"
  using assms
proof (induction nds arbitrary: n fs)
  case (Cons nd nds)
  obtain fs1 where one: "gen_node lib io dir ca_cert ca_key n nd fs = (Inr (), fs1)"
    and rest: "gen_nodes lib io dir ca_cert ca_key (Suc n) nds fs1 = (Inr (), fs')"
    using Cons.prems(1) by (auto split: prod.splits sum.splits)
  obtain c k where ck: "generate_node_cert lib n ca_cert ca_key nd (gen_sans nd) = Inr (c, k)"
    and fs1: "fs1 = fs(cert_file dir nd \<mapsto> cert_pem lib c, key_file dir nd \<mapsto> key_pem lib k)"
    using gen_node_files [OF one] by blast
  have plain: "plain_name nd" "\<forall>x \<in> set nds. plain_name x" using Cons.prems(2) by auto
  note IH = Cons.IH [OF rest plain(2)]
  have this_node: "\<exists>i c k. generate_node_cert lib i ca_cert ca_key nd (gen_sans nd) = Inr (c, k) \<and>
      fs' (cert_file dir nd) = Some (cert_pem lib c) \<and> fs' (key_file dir nd) = Some (key_pem lib k)"
  proof (cases "nd \<in> set nds")
    case True
    then show ?thesis using IH by blast
  next
    case False
    have "x \<noteq> nd" if "x \<in> set nds" for x using False that by blast
    then have "fs' (cert_file dir nd) = fs1 (cert_file dir nd)" "fs' (key_file dir nd) = fs1 (key_file dir nd)"
      using IH paths_differ [OF plain(1)] paths_differ [OF _ plain(1)] plain(2) by metis+
    then show ?thesis using ck paths_differ(1) [OF plain(1,1)] by (auto simp: fs1)
  qed
  moreover have "fs' p = fs p" if "\<forall>x \<in> set (nd # nds). p \<noteq> cert_file dir x \<and> p \<noteq> key_file dir x" for p
    using that IH by (simp add: fs1)
  ultimately show ?case using IH by (metis set_ConsD)
qed simp

lemma gen_certs_files:
  assumes "gen_certs lib io args var fs = (Inr (), fs')" and "\<forall>nd \<in> set (cert_nodes args). plain_name nd"
  shows "\<exists>ca_cert ca_key. generate_ca lib 0 = Inr (ca_cert, ca_key) \<and> fs' (ca_file (cert_dir var)) = Some (cert_pem lib ca_cert) \<and>
    (\<forall>nd \<in> set (cert_nodes args). \<exists>i c k. generate_node_cert lib i ca_cert ca_key nd (gen_sans nd) = Inr (c, k) \<and>
       fs' (cert_file (cert_dir var) nd) = Some (cert_pem lib c) \<and> fs' (key_file (cert_dir var) nd) = Some (key_pem lib k))"
proof -
  obtain ca_cert ca_key where ca: "generate_ca lib 0 = Inr (ca_cert, ca_key)"
    and rest: "gen_nodes lib io (cert_dir var) ca_cert ca_key 1 (cert_nodes args)
      (fs(ca_file (cert_dir var) \<mapsto> cert_pem lib ca_cert)) = (Inr (), fs')"
    using assms(1)
    by (auto simp: gen_certs_def write_file_def ca_file_def Let_def split: if_splits sum.splits prod.splits)
  note G = gen_nodes_files [OF rest assms(2)]
  have "fs' (ca_file (cert_dir var)) = Some (cert_pem lib ca_cert)"
    using G paths_differ(4,5) assms(2) by (metis fun_upd_same)
  then show ?thesis using ca G by blast
qed

end
