(* ===== verification/Setup_Properties.thy ===== *)
theory Setup_Properties
  imports Config_Load Certificates
begin

text \<open>What an operator can rely on before a node runs: its configuration and its certificates.\<close>

section \<open>Configuration\<close>


definition lib_a :: config_lib where
  "lib_a = \<lparr> cl_u16 = (\<lambda>v. case v of VInt n \<Rightarrow> if 0 \<le> n \<and> n < 2 ^ 16 then Some (of_int n) else None | _ \<Rightarrow> None),
     cl_u64 = (\<lambda>v. case v of VInt n \<Rightarrow> if 0 \<le> n \<and> n < 2 ^ 63 then Some (of_int n) else None | _ \<Rightarrow> None),
     cl_usize = (\<lambda>v. case v of VInt n \<Rightarrow> if 0 \<le> n \<and> n < 2 ^ 63 then Some (nat n) else None | _ \<Rightarrow> None),
     cl_f32 = (\<lambda>v. case v of VReal x \<Rightarrow> Some (Fin x) | _ \<Rightarrow> None), cl_f64 = (\<lambda>v. case v of VReal x \<Rightarrow> Some x | _ \<Rightarrow> None),
     cl_bool = (\<lambda>v. case v of VBool b \<Rightarrow> Some b | _ \<Rightarrow> None), cl_string = (\<lambda>v. case v of VStr s \<Rightarrow> Some s | _ \<Rightarrow> None),
     cl_list = (\<lambda>v. case v of VList l \<Rightarrow> Some l | _ \<Rightarrow> None) \<rparr>"

lemma config_law_a: "config_law lib_a"
  by (simp add: config_law_def lib_a_def)

lemma env_key_token: "env_key ''FERROCACHE_AUTH_TOKEN'' = Some ''auth_token''"
  by code_simp

lemma load_token:
  "\<exists>c. load lib_a (\<lambda>_. VStr) (Some [''auth_token'' \<mapsto> VStr ''old'']) [(''FERROCACHE_AUTH_TOKEN'', ''t'')] = Inr c"
proof -
  have "merged [''auth_token'' \<mapsto> VStr ''old''] [''auth_token'' \<mapsto> VStr ''t''] = (map_of set_defaults)(''auth_token'' \<mapsto> VStr ''t'')"
    by (simp add: merged_def)
  then show ?thesis by (simp add: load_def env_layer_def env_key_token fun_upd_def [symmetric] de_config_token [OF config_law_a])
qed


section \<open>Certificates\<close>

text \<open>C32. The files \<open>gen_certs\<close> writes are the ones a node loads: after it succeeded, a node whose configuration names
  the CA file and its own certificate and key gets the certificate of the one CA, a certificate
  with its name that this CA signed for its names, and the key of that certificate. A TLS listener
  that starts from it trusts for client certificates what is in the CA file, and nothing else, and
  presents that certificate.\<close>

theorem gen_certs_load:
  assumes "gen_certs lib io args var fs = (Inr (), fs')" and "\<forall>nd \<in> set (cert_nodes args). plain_name nd"
    and "nd \<in> set (cert_nodes args)"
    and "ca_cert_path config = Some (ca_file (cert_dir var))"
    and "node_cert_path config = Some (cert_file (cert_dir var) nd)"
    and "node_key_path config = Some (key_file (cert_dir var) nd)"
  shows "\<exists>ca_key_pair ca_cert c k. self_signed lib ca_params ca_key_pair = Some ca_cert \<and>
    signed_by lib (node_params nd [nd, ''localhost'', ''127.0.0.1'']) k ca_cert ca_key_pair = Some c \<and>
    load_or_generate lib fs' config nd addr =
      Inr \<lparr> ca_cert_pem = cert_pem lib ca_cert, node_cert_pem = cert_pem lib c, node_key_pem = key_pem lib k \<rparr> \<and>
    (\<forall>pem sc. build_server_config pem \<lparr> ca_cert_pem = cert_pem lib ca_cert, node_cert_pem = cert_pem lib c,
         node_key_pem = key_pem lib k \<rparr> = Inr sc \<longrightarrow>
       collect_results (pem_certs pem (cert_pem lib ca_cert)) = Some (sc_client_roots sc) \<and>
       collect_results (pem_certs pem (cert_pem lib c)) = Some (sc_cert_chain sc))"
proof -
  obtain ca_cert ca_key i c k where ca: "generate_ca lib 0 = Inr (ca_cert, ca_key)"
      "fs' (ca_file (cert_dir var)) = Some (cert_pem lib ca_cert)"
    and nd: "generate_node_cert lib i ca_cert ca_key nd (gen_sans nd) = Inr (c, k)"
      "fs' (cert_file (cert_dir var) nd) = Some (cert_pem lib c)" "fs' (key_file (cert_dir var) nd) = Some (key_pem lib k)"
    using gen_certs_files [OF assms(1,2)] assms(3) by blast
  have "self_signed lib ca_params ca_key = Some ca_cert"
    using ca(1) by (auto simp: generate_ca_def split: option.splits if_splits)
  moreover have "signed_by lib (node_params nd [nd, ''localhost'', ''127.0.0.1'']) k ca_cert ca_key = Some c"
    using nd(1) by (auto simp: generate_node_cert_def gen_sans_def split: option.splits if_splits)
  moreover have "load_or_generate lib fs' config nd addr =
      Inr \<lparr> ca_cert_pem = cert_pem lib ca_cert, node_cert_pem = cert_pem lib c, node_key_pem = key_pem lib k \<rparr>"
    using ca(2) nd(2,3) assms(4-6) by (simp add: load_or_generate_def read_pem_def)
  ultimately show ?thesis using build_server_config_mutual by fastforce
qed

text \<open>A library in which a certificate lists its names and the key of its issuer.\<close>

definition cert_lib_a :: "(string list, nat) cert_lib" where
  "cert_lib_a = \<lparr> new_key = Some, sans_ok = (\<lambda>_. True), self_signed = (\<lambda>p k. Some (cp_common_name p # cp_sans p)),
     signed_by = (\<lambda>p k ca ck. Some (cp_common_name p # cp_sans p)), cert_pem = concat, key_pem = (\<lambda>n. replicate n CHR ''k'') \<rparr>"

theorem gen_certs_load_witness:
  "\<exists>fs'. gen_certs cert_lib_a \<lparr> mkdir = (\<lambda>_. True), writable = (\<lambda>_. True) \<rparr> [''n1''] None Map.empty = (Inr (), fs') \<and>
     (\<exists>b. load_or_generate cert_lib_a fs' (default_cluster_tls_config\<lparr> ca_cert_path := Some ''./certs/ca.pem'',
        node_cert_path := Some ''./certs/n1/cert.pem'', node_key_path := Some ''./certs/n1/key.pem'' \<rparr>) ''n1'' ''n1:1'' = Inr b \<and>
        ca_cert_pem b = ''ferrocache-dev-ca'')"
proof -
  let ?io = "\<lparr> mkdir = (\<lambda>_. True), writable = (\<lambda>_. True) \<rparr>"
  let ?config = "default_cluster_tls_config\<lparr> ca_cert_path := Some ''./certs/ca.pem'',
    node_cert_path := Some ''./certs/n1/cert.pem'', node_key_path := Some ''./certs/n1/key.pem'' \<rparr>"
  obtain fs' where g: "gen_certs cert_lib_a ?io [''n1''] None Map.empty = (Inr (), fs')"
    by (simp add: gen_certs_def gen_node_def generate_ca_def generate_node_cert_def write_file_def cert_lib_a_def
        cert_nodes_def Let_def)
  have p: "ca_file (cert_dir None) = ''./certs/ca.pem''" "cert_file (cert_dir None) ''n1'' = ''./certs/n1/cert.pem''"
      "key_file (cert_dir None) ''n1'' = ''./certs/n1/key.pem''" "\<forall>nd \<in> set (cert_nodes [''n1'']). plain_name nd"
    by (simp_all add: ca_file_def cert_file_def key_file_def cert_dir_def path_join_def cert_nodes_def plain_name_def)
  have "\<exists>ca_key_pair ca_cert c k. self_signed cert_lib_a ca_params ca_key_pair = Some ca_cert \<and>
    load_or_generate cert_lib_a fs' ?config ''n1'' ''n1:1'' = Inr \<lparr> ca_cert_pem = cert_pem cert_lib_a ca_cert,
      node_cert_pem = cert_pem cert_lib_a c, node_key_pem = key_pem cert_lib_a k \<rparr>"
    using gen_certs_load [OF g p(4), of "''n1''" ?config "''n1:1''"] p by (auto simp: cert_nodes_def)
  then show ?thesis using g by (auto simp: cert_lib_a_def ca_params_def)
qed

end
