(* ===== verification/Node.thy ===== *)
theory Node
  imports Restart Server Certificates
begin

text \<open>
  The rest of \<open>src/main.rs\<close>: how a node is put together from
  its configuration, how the tombstones of expired entries are sent, and a tick of the TTL reaper. The
  certificate library, file reads, gossip and the HTTP client are parameters.
\<close>

section \<open>Addresses\<close>

definition saturating_add16 :: "16 word \<Rightarrow> nat \<Rightarrow> 16 word" where
  "saturating_add16 a n = (if unat a + n < 2 ^ 16 then a + of_nat n else - 1)"

definition internal_port :: "ferrocache_config \<Rightarrow> 16 word" where
  "internal_port config =
     (case tls_internal_port (cluster_tls (cluster_cfg config)) of
        Some p \<Rightarrow> p
      | None \<Rightarrow> saturating_add16 (port config) 1000)"

text \<open>\<open>rsplit_once(':')\<close>, of which the part before the colon is used.\<close>

definition rsplit_host :: "string \<Rightarrow> string option" where
  "rsplit_host s =
     (case dropWhile (\<lambda>c. c \<noteq> CHR '':'') (rev s) of [] \<Rightarrow> None | _ # h \<Rightarrow> Some (rev h))"

definition api_host :: "ferrocache_config \<Rightarrow> string" where
  "api_host config =
     (case rsplit_host (api_addr (cluster_cfg config)) of Some host \<Rightarrow> host | None \<Rightarrow> api_addr (cluster_cfg config))"

definition forward_addr :: "ferrocache_config \<Rightarrow> tls_bundle option \<Rightarrow> string" where
  "forward_addr config bundle =
     (if bundle \<noteq> None then api_host config @ '':'' @ show_nat (unat (internal_port config))
      else api_addr (cluster_cfg config))"

section \<open>Expired entries\<close>

text \<open>
  Sending one tombstone per expired entry and awaiting each: \<open>run\<close> is the flush task, None when its
  channel is closed. The reply does not matter; the expiration is counted once the send succeeded.
\<close>

fun expire_tombstones ::
  "(wal_entry \<Rightarrow> flush_state \<Rightarrow> flush_state option) \<Rightarrow> wal_entry list \<Rightarrow> flush_state \<Rightarrow> flush_state" where
  "expire_tombstones run [] st = st"
| "expire_tombstones run (t # ts) st =
     (case run t st of
        None \<Rightarrow> expire_tombstones run ts st
      | Some st1 \<Rightarrow>
          expire_tombstones run ts (st1\<lparr> fl_metrics := record_expiration (we_model_id t) (fl_metrics st1) \<rparr>))"

definition reaper_tick ::
  "(wal_entry \<Rightarrow> flush_state \<Rightarrow> flush_state option) \<Rightarrow> u64 \<Rightarrow> flush_state \<Rightarrow> flush_state" where
  "reaper_tick run now st =
     (let (exp_pairs, pruned, si) = reaper_index_step now (fl_index st)
      in expire_tombstones run (reaper_tombstones exp_pairs) (st\<lparr> fl_index := si \<rparr>))"

text \<open>The flush task when it gets a single insert command and nothing else arrives in time.\<close>

definition run_flush ::
  "(wal_entry \<Rightarrow> string option) \<Rightarrow> (snapshot_entry list \<Rightarrow> u8 list option) \<Rightarrow> group_commit_config \<Rightarrow>
   ferrocache_config \<Rightarrow> (wal_entry \<Rightarrow> flush_io) \<Rightarrow> wal_entry \<Rightarrow> flush_state \<Rightarrow> flush_state option" where
  "run_flush to_vec ser gc config io t st =
     (let (_, _, st') = flush_round to_vec ser gc (hnsw_cfg config) (compact_interval_inserts config) (io t)
            (InsertCmd 0 t) [] st
      in Some st')"

section \<open>Starting a node\<close>

datatype boot_error = BootWal wal_error | BootTls tls_error | BootCluster cluster_error | BootRouter

record ('c, 'k) boot_env =
  be_de :: "u8 list \<Rightarrow> snapshot_entry list option"
  be_from_str :: "string \<Rightarrow> wal_entry option"
  be_to_vec :: "wal_entry \<Rightarrow> string option"
  be_ser :: "snapshot_entry list \<Rightarrow> u8 list option"
  be_now :: u64
  be_uuid :: string
  be_open_ok :: bool
  be_certs :: "('c, 'k) cert_lib"
  be_files :: "string \<Rightarrow> string option"
  be_parse :: "string \<Rightarrow> string option"
  be_gossip_ok :: bool
  be_client_ok :: "tls_bundle option \<Rightarrow> bool"
  be_io :: "wal_entry \<Rightarrow> flush_io"

record node =
  nd_app :: app_state
  nd_flush :: flush_state
  nd_group_commit :: group_commit_config
  nd_reaper_interval :: "nat option"
  nd_tls :: "tls_bundle option"

definition boot_tls :: "('c, 'k) boot_env \<Rightarrow> ferrocache_config \<Rightarrow> string \<Rightarrow> tls_error + tls_bundle option" where
  "boot_tls env config nid =
     (let c = cluster_cfg config
      in if cluster_enabled c \<and> tls_enabled (cluster_tls c)
         then (case load_or_generate (be_certs env) (be_files env) (cluster_tls c) nid (api_addr c) of
                 Inl err \<Rightarrow> Inl err | Inr tls \<Rightarrow> Inr (Some tls))
         else Inr None)"

definition router_new :: "(tls_bundle option \<Rightarrow> bool) \<Rightarrow> string option \<Rightarrow> tls_bundle option \<Rightarrow> cluster_router option" where
  "router_new client_ok token bundle =
     (if client_ok bundle then Some \<lparr> ro_auth_token = token, ro_tls_enabled = bundle \<noteq> None \<rparr> else None)"

definition boot_cluster ::
  "('c, 'k) boot_env \<Rightarrow> ferrocache_config \<Rightarrow> string \<Rightarrow> tls_bundle option \<Rightarrow>
   boot_error + cluster_state option \<times> cluster_router option" where
  "boot_cluster env config nid bundle =
     (if cluster_enabled (cluster_cfg config)
      then case cluster_new (be_parse env) (be_gossip_ok env) nid (cluster_cfg config) (forward_addr config bundle) of
             Inl err \<Rightarrow> Inl (BootCluster err)
           | Inr cs \<Rightarrow>
               (case router_new (be_client_ok env) (auth_token config) bundle of
                  None \<Rightarrow> Inl BootRouter
                | Some router \<Rightarrow> Inr (Some cs, Some router))
      else Inr (None, None))"

definition boot_group_commit :: "ferrocache_config \<Rightarrow> group_commit_config" where
  "boot_group_commit config =
     \<lparr> gc_batch_size = max (wal_batch_size config) 1, gc_batch_timeout_ms = wal_batch_timeout_ms config,
       gc_channel_capacity = DEFAULT_CHANNEL_CAPACITY \<rparr>"

definition boot_reaper :: "ferrocache_config \<Rightarrow> nat option" where
  "boot_reaper config =
     (if expire_scan_interval_secs config > 0 then Some (expire_scan_interval_secs config) else None)"

definition boot_app ::
  "ferrocache_config \<Rightarrow> string \<Rightarrow> cluster_state option \<Rightarrow> cluster_router option \<Rightarrow> flush_state \<Rightarrow> app_state" where
  "boot_app config nid cluster router fs =
     app_state_new nid (fl_index fs) (wal_path config) (snapshot_path_for (wal_path config)) (hnsw_cfg config) cluster router
       (max (replication_factor (cluster_cfg config)) 1) (fl_metrics fs) (auth_token config)
       (max_replication_retries (cluster_cfg config)) (read_repair_enabled (cluster_cfg config))
       (conversation_ttl_seconds config)"

definition boot ::
  "('c, 'k) boot_env \<Rightarrow> ferrocache_config \<Rightarrow> snap_disk \<Rightarrow> wal_file \<Rightarrow> boot_error + node" where
  "boot env config d f =
     (let nid = (case node_id config of Some s \<Rightarrow> s | None \<Rightarrow> be_uuid env)
      in case fst (startup (be_de env) (be_from_str env) (hnsw_cfg config) (be_now env) (be_open_ok env) d f) of
           Inl err \<Rightarrow> Inl (BootWal err)
         | Inr (fs, tombs) \<Rightarrow>
             (case boot_tls env config nid of
                Inl err \<Rightarrow> Inl (BootTls err)
              | Inr bundle \<Rightarrow>
                  (case boot_cluster env config nid bundle of
                     Inl err \<Rightarrow> Inl err
                   | Inr (cluster, router) \<Rightarrow>
                       (let gc = boot_group_commit config;
                            fs' = expire_tombstones (run_flush (be_to_vec env) (be_ser env) gc config (be_io env)) tombs fs
                        in Inr \<lparr> nd_app = boot_app config nid cluster router fs', nd_flush = fs', nd_group_commit = gc,
                                 nd_reaper_interval = boot_reaper config,
                                 nd_tls = bundle \<rparr>))))"

section \<open>What a started node holds\<close>

text \<open>A tombstone for a UUID nobody owns does not change the index, whether it is written or not.\<close>

lemma flush_gone_tombstone:
  assumes "we_tombstone t" and "namespace_for (fl_index st) (we_uuid t) = None"
  shows "fl_index (snd (flush_insert_batch to_vec out [(rid, t)] st)) = fl_index st"
proof -
  have gone: "replay_entry (t\<lparr> we_sequence := s \<rparr>) (fl_index st) = (Inr (), fl_index st)" for s
    using assms by (simp add: replay_entry_def si_remove_by_uuid_def namespace_for_def)
  show ?thesis
  proof (cases "stamp_batch to_vec [t] (fl_wal st)")
    case (Pair r w')
    show ?thesis
    proof (cases r)
      case (Inl err)
      then show ?thesis using Pair by (simp add: flush_insert_batch_def del: stamp_batch.simps)
    next
      case (Inr x)
      obtain es buf where x: "x = (es, buf)" by fastforce
      have "\<exists>s. es = [t\<lparr> we_sequence := s \<rparr>]"
        using Pair Inr x by (auto simp: Let_def split: prod.splits sum.splits option.splits)
      then obtain s where es: "es = [t\<lparr> we_sequence := s \<rparr>]" by blast
      show ?thesis
        using Pair Inr x es gone [of s]
        by (simp add: flush_insert_batch_def Let_def del: stamp_batch.simps split: sum.splits prod.splits)
    qed
  qed
qed

lemma auto_compact_index [simp]: "fl_index (auto_compact ser outs n st) = fl_index st"
  by (simp add: auto_compact_def snapshot_compact_def note_compaction_def Let_def split_beta split: sum.splits)

lemma run_flush_gone:
  assumes "max_entries_per_namespace (hnsw_cfg config) = None" and "we_tombstone t"
    and "namespace_for (fl_index st) (we_uuid t) = None"
  shows "\<exists>st'. run_flush to_vec ser gc config io t st = Some st' \<and> fl_index st' = fl_index st"
  using flush_gone_tombstone [OF assms(2,3), of to_vec "io_batch (io t)" 0] assms(1)
  by (simp add: run_flush_def flush_round_def split_beta)

lemma expire_tombstones_index:
  assumes "max_entries_per_namespace (hnsw_cfg config) = None"
    and "\<forall>t \<in> set ts. we_tombstone t \<and> namespace_for (fl_index st) (we_uuid t) = None"
  shows "fl_index (expire_tombstones (run_flush to_vec ser gc config io) ts st) = fl_index st"
  using assms(2)
proof (induction ts arbitrary: st)
  case (Cons t ts)
  then obtain st' where "run_flush to_vec ser gc config io t st = Some st'" "fl_index st' = fl_index st"
    using run_flush_gone [OF assms(1)] by (metis list.set_intros(1))
  then show ?case using Cons by simp
qed simp

text \<open>The expiry pass of the startup: what it keeps, and that nobody owns what it drops.\<close>

lemma startup_contents:
  assumes dur: "durable de from_str cfg st"
    and start: "fst (startup de from_str cfg now ok (fl_snap st) (fl_file st)) = Inr (fs, tombs)"
  shows "map_option core (contents (fl_index fs) m u) =
      (case contents (fl_index st) m u of None \<Rightarrow> None | Some e \<Rightarrow> if expired now e then None else Some (core e))"
    and "\<forall>t \<in> set tombs. we_tombstone t \<and> namespace_for (fl_index fs) (we_uuid t) = None"
proof -
  obtain si n where rec: "recover de from_str cfg (fl_snap st) (fl_file st) = Inr (si, n)" and wf: "si_wf si"
    and core: "\<And>m u. map_option core (contents si m u) = map_option core (contents (fl_index st) m u)"
    by (rule durable_recovers [OF dur]) blast
  note st = si_wf_struct [OF wf]
  have fs: "fl_index fs = snd (collect_expired now si)" "tombs = reaper_tombstones (fst (collect_expired now si))"
    using start rec by (auto simp: startup_def Let_def split_beta split: sum.splits prod.splits)
  note abs = collect_expired_abs(2) [OF st, of now]
  have dropped: "contents (fl_index fs) m u =
      (case contents si m u of None \<Rightarrow> None | Some e \<Rightarrow> if expired now e then None else Some e)"
    using arg_cong [OF abs, of "\<lambda>s. sp_content s m u"] fs(1) by (simp add: sp_drop_def)
  show "map_option core (contents (fl_index fs) m u) =
      (case contents (fl_index st) m u of None \<Rightarrow> None | Some e \<Rightarrow> if expired now e then None else Some (core e))"
  proof (cases "contents si m u")
    case None
    then show ?thesis using core [of m u] dropped by simp
  next
    case (Some a)
    then obtain b where b: "contents (fl_index st) m u = Some b" "core a = core b"
      using core [of m u] by (cases "contents (fl_index st) m u") auto
    have "expired now a = expired now b"
      using arg_cong [OF b(2), of ce_expires_at] by (simp add: expired_def)
    then show ?thesis using Some b dropped by simp
  qed
  have "namespace_for (fl_index fs) u = None" if "(u, k) \<in> set (fst (collect_expired now si))" for u k
    using arg_cong [OF abs, of "\<lambda>s. sp_owner s u"] fs(1) that collect_expired_set [OF st, of u k now]
    by (auto simp: sp_drop_def namespace_for_def)
  then show "\<forall>t \<in> set tombs. we_tombstone t \<and> namespace_for (fl_index fs) (we_uuid t) = None"
    by (auto simp: fs(2) reaper_tombstones_def tombstone_entry_def)
qed

text \<open>
  A tick of the reaper leaves exactly the entries that are alive, whatever happens to its tombstones.
\<close>

lemma reaper_tick_contents:
  assumes "si_wf (fl_index st)" and "max_entries_per_namespace (hnsw_cfg config) = None"
  shows "contents (fl_index (reaper_tick (run_flush to_vec ser gc config io) now st)) m u = Some e \<longleftrightarrow>
    contents (fl_index st) m u = Some e \<and> \<not> expired now e"
proof -
  note st = si_wf_struct [OF assms(1)]
  define si1 where "si1 = snd (collect_expired now (fl_index st))"
  define si2 where "si2 = snd (rebuild_dirty_namespaces si1)"
  define si3 where "si3 = snd (prune_empty_namespaces si2)"
  have st1: "si_struct si1" unfolding si1_def by (rule collect_expired_abs(1) [OF st])
  have st2: "si_struct si2" unfolding si2_def by (rule rebuild_dirty_abs(1) [OF st1])
  have step: "reaper_index_step now (fl_index st) =
      (fst (collect_expired now (fl_index st)), fst (prune_empty_namespaces si2), si3)"
    by (simp add: reaper_index_step_eq si1_def si2_def si3_def)
  have abs: "sp_content (si_abs si3) = sp_content (sp_drop (\<lambda>_ _. expired now) (si_abs (fl_index st)))"
      "sp_owner (si_abs si3) = sp_owner (sp_drop (\<lambda>_ _. expired now) (si_abs (fl_index st)))"
    using collect_expired_abs(2) [OF st, of now] rebuild_dirty_abs(2) [OF st1] prune_abs(2) [OF st2]
    by (simp_all add: si1_def si2_def si3_def)
  have "fl_index (reaper_tick (run_flush to_vec ser gc config io) now st) = si3"
    unfolding reaper_tick_def step Let_def prod.case
  proof (subst expire_tombstones_index [OF assms(2)])
    have "namespace_for si3 v = None" if "(v, k) \<in> set (fst (collect_expired now (fl_index st)))" for v k
      using fun_cong [OF abs(2), of v] that collect_expired_set [OF st, of v k now]
      by (auto simp: sp_drop_def namespace_for_def)
    then show "\<forall>t \<in> set (reaper_tombstones (fst (collect_expired now (fl_index st)))).
        we_tombstone t \<and> namespace_for (fl_index (st\<lparr> fl_index := si3 \<rparr>)) (we_uuid t) = None"
      by (auto simp: reaper_tombstones_def tombstone_entry_def)
  qed simp
  then show ?thesis using fun_cong [OF fun_cong [OF abs(1), of m], of u] by (auto simp: sp_drop_def split: option.splits if_splits)
qed

lemma boot_cases:
  assumes "boot env config d f = Inr nd"
  obtains fs tombs tls cluster router where
    "fst (startup (be_de env) (be_from_str env) (hnsw_cfg config) (be_now env) (be_open_ok env) d f) = Inr (fs, tombs)"
    "nd_flush nd = expire_tombstones (run_flush (be_to_vec env) (be_ser env) (boot_group_commit config) config (be_io env)) tombs fs"
    "as_index (nd_app nd) = fl_index (nd_flush nd)"
    "boot_tls env config (as_node_id (nd_app nd)) = Inr tls" "nd_tls nd = tls"
    "boot_cluster env config (as_node_id (nd_app nd)) tls = Inr (cluster, router)"
    "as_cluster (nd_app nd) = cluster" "as_router (nd_app nd) = router" "as_auth_token (nd_app nd) = auth_token config"
  using assms by (auto simp: boot_def boot_app_def app_state_new_def Let_def split: sum.splits prod.splits)

text \<open>
  The parts of a started node fit together: a router exists exactly in a cluster, peers are dialled
  over TLS exactly when the node announces its TLS address.
\<close>

lemma boot_wiring:
  assumes "boot env config d f = Inr nd"
  shows "(as_cluster (nd_app nd) = None \<longleftrightarrow> \<not> cluster_enabled (cluster_cfg config)) \<and>
    (\<forall>cs. as_cluster (nd_app nd) = Some cs \<longrightarrow>
       cl_self_node_id cs = as_node_id (nd_app nd) \<and>
       (\<exists>r. as_router (nd_app nd) = Some r \<and> (ro_tls_enabled r \<longleftrightarrow> tls_enabled (cluster_tls (cluster_cfg config))) \<and>
          cl_self_api_addr cs = (if ro_tls_enabled r
            then api_host config @ '':'' @ show_nat (unat (internal_port config)) else api_addr (cluster_cfg config))))"
proof -
  obtain tls cluster router where t: "boot_tls env config (as_node_id (nd_app nd)) = Inr tls"
    and c: "boot_cluster env config (as_node_id (nd_app nd)) tls = Inr (cluster, router)"
    and eq: "as_cluster (nd_app nd) = cluster" "as_router (nd_app nd) = router"
    by (rule boot_cases [OF assms]) blast
  have tls: "tls \<noteq> None \<longleftrightarrow> cluster_enabled (cluster_cfg config) \<and> tls_enabled (cluster_tls (cluster_cfg config))"
    using t by (auto simp: boot_tls_def Let_def split: if_splits sum.splits)
  show ?thesis
  proof (cases "cluster_enabled (cluster_cfg config)")
    case False
    then show ?thesis using c eq by (simp add: boot_cluster_def)
  next
    case True
    then obtain cs r where new: "cluster_new (be_parse env) (be_gossip_ok env) (as_node_id (nd_app nd)) (cluster_cfg config)
        (forward_addr config tls) = Inr cs" "router_new (be_client_ok env) (auth_token config) tls = Some r"
      and cr: "cluster = Some cs" "router = Some r"
      using c by (auto simp: boot_cluster_def split: sum.splits option.splits)
    have "cl_self_node_id cs = as_node_id (nd_app nd)" "cl_self_api_addr cs = forward_addr config tls"
      using new(1) by (auto simp: cluster_new_def cluster_initial_def split: option.splits if_splits)
    moreover have "ro_tls_enabled r \<longleftrightarrow> tls \<noteq> None" using new(2) by (auto simp: router_new_def split: if_splits)
    ultimately show ?thesis using True tls eq cr by (simp add: forward_addr_def)
  qed
qed

end
