(* ===== verification/Launch.thy ===== *)
theory Launch
  imports Node Config_Load
begin

text \<open>
  \<open>main\<close> of \<open>src/main.rs\<close> from end to end: load the configuration, start the node, bind the
  listeners. With cluster TLS a second listener serves the same router under mutual TLS.
\<close>

datatype start_error =
  StartConfig config_error | StartBoot boot_error | StartBind string | StartTls listener_error | StartInternalAddr string

record ('c, 'k, 'd) main_env =
  me_lib :: config_lib
  me_parse :: "string \<Rightarrow> string \<Rightarrow> cfg_value"
  me_file :: "layer option"
  me_vars :: "(string \<times> string) list"
  me_boot :: "('c, 'k) boot_env"
  me_pem :: "'d pem_lib"
  me_bind :: "string \<Rightarrow> bool"
  me_socket :: "string \<Rightarrow> bool"

text \<open>The addresses a node serves, each with its TLS set-up.\<close>

definition listen ::
  "('c, 'k, 'd) main_env \<Rightarrow> ferrocache_config \<Rightarrow> tls_bundle option \<Rightarrow>
   start_error + (string \<times> 'd server_config option) list" where
  "listen env config tls_bundle =
     (let addr = ''0.0.0.0:'' @ show_nat (unat (port config));
          internal_bind = ''0.0.0.0:'' @ show_nat (unat (internal_port config))
      in if \<not> me_bind env addr then Inl (StartBind addr)
         else case tls_bundle of
                None \<Rightarrow> Inr [(addr, None)]
              | Some b \<Rightarrow>
                  (case build_server_config (me_pem env) b of
                     Inl err \<Rightarrow> Inl (StartTls err)
                   | Inr sc \<Rightarrow>
                       if \<not> me_socket env internal_bind then Inl (StartInternalAddr internal_bind)
                       else Inr [(addr, None), (internal_bind, Some sc)]))"

definition main_start ::
  "('c, 'k, 'd) main_env \<Rightarrow> snap_disk \<Rightarrow> wal_file \<Rightarrow>
   start_error + ferrocache_config \<times> node \<times> (string \<times> 'd server_config option) list" where
  "main_start env d f =
     (case load (me_lib env) (me_parse env) (me_file env) (me_vars env) of
        Inl err \<Rightarrow> Inl (StartConfig err)
      | Inr config \<Rightarrow>
          (case boot (me_boot env) config d f of
             Inl err \<Rightarrow> Inl (StartBoot err)
           | Inr nd \<Rightarrow>
               (case listen env config (nd_tls nd) of
                  Inl err \<Rightarrow> Inl err
                | Inr ls \<Rightarrow> Inr (config, nd, ls))))"

lemma main_start_cases:
  assumes "main_start env d f = Inr (config, nd, ls)"
  shows "load (me_lib env) (me_parse env) (me_file env) (me_vars env) = Inr config" "boot (me_boot env) config d f = Inr nd"
    "listen env config (nd_tls nd) = Inr ls"
  using assms by (auto simp: main_start_def split: sum.splits)

text \<open>
  A started node listens without TLS on its port; with cluster TLS also on the internal port, where
  it demands a certificate of the cluster CA.
\<close>

definition listeners_ok :: "'d pem_lib \<Rightarrow> ferrocache_config \<Rightarrow> tls_bundle option \<Rightarrow> (string \<times> 'd server_config option) list \<Rightarrow> bool" where
  "listeners_ok lib config tls ls \<longleftrightarrow>
     (case tls of
        None \<Rightarrow> ls = [(''0.0.0.0:'' @ show_nat (unat (port config)), None)]
      | Some b \<Rightarrow> \<exists>sc. ls = [(''0.0.0.0:'' @ show_nat (unat (port config)), None),
            (''0.0.0.0:'' @ show_nat (unat (internal_port config)), Some sc)] \<and> sc_client_roots sc \<noteq> [] \<and>
          collect_results (pem_certs lib (ca_cert_pem b)) = Some (sc_client_roots sc))"

lemma listen_ok: "listen env config tls = Inr ls \<Longrightarrow> listeners_ok (me_pem env) config tls ls"
  by (auto simp: listen_def listeners_ok_def Let_def dest: build_server_config_mutual
      split: if_splits option.splits sum.splits)

lemma boot_tls_iff:
  assumes "boot env config d f = Inr nd"
  shows "nd_tls nd \<noteq> None \<longleftrightarrow> cluster_enabled (cluster_cfg config) \<and> tls_enabled (cluster_tls (cluster_cfg config))"
proof -
  have "boot_tls env config (as_node_id (nd_app nd)) = Inr (nd_tls nd)" by (rule boot_cases [OF assms]) simp
  then show ?thesis by (cases "nd_tls nd") (auto simp: boot_tls_def Let_def split: if_splits sum.splits)
qed

lemma start_token:
  assumes "main_start env d f = Inr (config, nd, ls)" and "me_file env = Some file" and "config_law (me_lib env)"
    and "setting file (env_layer (me_parse env) (me_vars env)) ''auth_token'' = Some (VStr token)"
  shows "as_auth_token (nd_app nd) = Some token"
proof -
  note M = main_start_cases [OF assms(1)]
  have "auth_token config = Some token"
    using load_fields(3) [OF M(1) [unfolded assms(2)]] assms(3,4) by (simp add: config_lawD(7))
  moreover have "as_auth_token (nd_app nd) = auth_token config" by (rule boot_cases [OF M(2)])
  ultimately show ?thesis by simp
qed

end
