(* ===== verification/Requests.thy ===== *)
theory Requests
  imports Interleaving Service
begin

text \<open>
  Requests as runs of the task machine. Whatever a request does to the index and whatever it puts on
  the channel is a run of \<^const>\<open>task_step\<close>, so what holds of every interleaving of tasks holds of a node
  that serves requests. What other tasks did between the two locks of one handler is a run \<open>n\<close> to \<open>n1\<close>.
\<close>

section \<open>Sending and giving up\<close>

text \<open>Entries that are not tombstones only wait.\<close>

lemma run_inserts:
  assumes "list_all (\<lambda>e. \<not> we_tombstone e) es"
  shows "(task_step de from_str cfg to_vec ser gc interval)\<^sup>*\<^sup>* n (n\<lparr> cn_waiting := cn_waiting n @ es \<rparr>)"
  using assms
proof (induction es arbitrary: n)
  case (Cons e es)
  have "task_step de from_str cfg to_vec ser gc interval n (n\<lparr> cn_waiting := cn_waiting n @ [e] \<rparr>)"
    using Cons.prems by (intro task_insert) simp
  with Cons.IH [of "n\<lparr> cn_waiting := cn_waiting n @ [e] \<rparr>"] Cons.prems show ?case
    by (simp add: converse_rtranclp_into_rtranclp)
qed simp

text \<open>A task that could not send an entry gives it up.\<close>

lemma run_give_up:
  "\<exists>lost. (task_step de from_str cfg to_vec ser gc interval)\<^sup>*\<^sup>* (n\<lparr> cn_waiting := ws @ es \<rparr>)
     (n\<lparr> cn_waiting := ws @ filter sent es, cn_lost := lost \<rparr>)"
proof (induction es arbitrary: n ws)
  case Nil
  have "n\<lparr> cn_waiting := ws \<rparr> = n\<lparr> cn_waiting := ws, cn_lost := cn_lost n \<rparr>" by simp
  then show ?case by (metis append_Nil2 filter.simps(1) rtranclp.rtrancl_refl)
next
  case (Cons e es)
  show ?case
  proof (cases "sent e")
    case True
    then show ?thesis using Cons.IH [where n = n and ws = "ws @ [e]"] by simp
  next
    case False
    let ?n = "n\<lparr> cn_waiting := ws @ es, cn_lost := cn_lost n \<union> tomb_uuids [e] \<rparr>"
    have "task_step de from_str cfg to_vec ser gc interval (n\<lparr> cn_waiting := ws @ e # es \<rparr>) ?n"
      using task_give_up [of "n\<lparr> cn_waiting := ws @ e # es \<rparr>" ws e es] by simp
    moreover have "(n\<lparr> cn_lost := cn_lost n \<union> tomb_uuids [e] \<rparr>)\<lparr> cn_waiting := ws @ es \<rparr> = ?n"
      "(n\<lparr> cn_lost := cn_lost n \<union> tomb_uuids [e] \<rparr>)\<lparr> cn_waiting := ws @ filter sent es, cn_lost := lost \<rparr> =
        n\<lparr> cn_waiting := ws @ filter sent es, cn_lost := lost \<rparr>" for lost
      by simp_all
    then obtain lost where "(task_step de from_str cfg to_vec ser gc interval)\<^sup>*\<^sup>* ?n
        (n\<lparr> cn_waiting := ws @ filter sent es, cn_lost := lost \<rparr>)"
      using Cons.IH [where n = "n\<lparr> cn_lost := cn_lost n \<union> tomb_uuids [e] \<rparr>" and ws = ws] by metis
    ultimately show ?thesis using False by (auto intro: converse_rtranclp_into_rtranclp)
  qed
qed

section \<open>Handlers\<close>

text \<open>
  \<open>request_run n n1 sent si\<close>: some run from \<open>n\<close> ends with the index \<open>si\<close> and the entries \<open>sent\<close>
  waiting behind those of \<open>n\<close>, or of \<open>n1\<close> when the handler ran past its first lock.
\<close>

definition request_run ::
  "(channel_node \<Rightarrow> channel_node \<Rightarrow> bool) \<Rightarrow> channel_node \<Rightarrow> channel_node \<Rightarrow> wal_entry list \<Rightarrow> semantic_index \<Rightarrow> bool" where
  "request_run step n n1 sent si \<longleftrightarrow>
     (\<exists>n0 n'. n0 \<in> {n, n1} \<and> step\<^sup>*\<^sup>* n n' \<and> fl_index (cn_flush n') = si \<and>
        cn_waiting n' = cn_waiting n0 @ sent \<and> cn_channel n' = cn_channel n0)"

lemma request_runI:
  "step\<^sup>*\<^sup>* n n' \<Longrightarrow> n0 \<in> {n, n1} \<Longrightarrow> fl_index (cn_flush n') = si \<Longrightarrow> cn_waiting n' = cn_waiting n0 @ sent \<Longrightarrow>
     cn_channel n' = cn_channel n0 \<Longrightarrow> request_run step n n1 sent si"
  unfolding request_run_def by blast

lemma run_nothing:
  "list_all (\<lambda>e. \<not> we_tombstone e) es \<Longrightarrow>
     request_run (task_step de from_str cfg to_vec ser gc interval) n n1 es (fl_index (cn_flush n))"
  by (rule request_runI [OF run_inserts, where n0 = n]) simp_all

lemma run_access:
  assumes "(task_step de from_str cfg to_vec ser gc interval)\<^sup>*\<^sup>* n n1"
  shows "request_run (task_step de from_str cfg to_vec ser gc interval) n n1 []
    (si_record_access now m i (fl_index (cn_flush n1)))"
proof -
  have "task_step de from_str cfg to_vec ser gc interval n1
      (with_index (si_record_access now m i (fl_index (cn_flush n1))) n1)" by (rule task_access)
  with assms have "(task_step de from_str cfg to_vec ser gc interval)\<^sup>*\<^sup>* n
      (with_index (si_record_access now m i (fl_index (cn_flush n1))) n1)" by (rule rtranclp.rtrancl_into_rtrancl)
  then show ?thesis by (rule request_runI) simp_all
qed

lemma run_delete:
  assumes "(task_step de from_str cfg to_vec ser gc interval)\<^sup>*\<^sup>* n n1"
  shows "request_run (task_step de from_str cfg to_vec ser gc interval) n n1
    (filter sent [tombstone_entry u m]) (snd (si_remove_by_uuid u (fl_index (cn_flush n1))))"
proof -
  let ?n2 = "with_index (snd (si_remove_by_uuid u (fl_index (cn_flush n1)))) n1"
  have "task_step de from_str cfg to_vec ser gc interval n1 (?n2\<lparr> cn_waiting := cn_waiting n1 @ [tombstone_entry u m] \<rparr>)"
    by (rule task_delete)
  moreover obtain lost where "(task_step de from_str cfg to_vec ser gc interval)\<^sup>*\<^sup>*
      (?n2\<lparr> cn_waiting := cn_waiting n1 @ [tombstone_entry u m] \<rparr>)
      (?n2\<lparr> cn_waiting := cn_waiting n1 @ filter sent [tombstone_entry u m], cn_lost := lost \<rparr>)"
    using run_give_up by blast
  ultimately have "(task_step de from_str cfg to_vec ser gc interval)\<^sup>*\<^sup>* n
      (?n2\<lparr> cn_waiting := cn_waiting n1 @ filter sent [tombstone_entry u m], cn_lost := lost \<rparr>)"
    using assms by (meson converse_rtranclp_into_rtranclp rtranclp_trans)
  then show ?thesis by (rule request_runI) simp_all
qed

lemma run_invalidate:
  assumes "invalidate_similar emb th m now (fl_index (cn_flush n)) = (removed, si)"
  shows "request_run (task_step de from_str cfg to_vec ser gc interval) n n1
    (map (\<lambda>u. tombstone_entry u m) (filter sent removed)) si"
proof -
  let ?ts = "map (\<lambda>u. tombstone_entry u m) removed"
  have "task_step de from_str cfg to_vec ser gc interval n
      ((with_index si n)\<lparr> cn_waiting := cn_waiting n @ ?ts \<rparr>)" by (rule task_invalidate [OF assms])
  moreover obtain lost where "(task_step de from_str cfg to_vec ser gc interval)\<^sup>*\<^sup>*
      ((with_index si n)\<lparr> cn_waiting := cn_waiting n @ ?ts \<rparr>)
      ((with_index si n)\<lparr> cn_waiting := cn_waiting n @ filter (sent \<circ> we_uuid) ?ts, cn_lost := lost \<rparr>)"
    using run_give_up by blast
  moreover have "filter (sent \<circ> we_uuid) ?ts = map (\<lambda>u. tombstone_entry u m) (filter sent removed)"
    by (simp add: filter_map comp_def tombstone_entry_def)
  ultimately have "(task_step de from_str cfg to_vec ser gc interval)\<^sup>*\<^sup>* n
      ((with_index si n)\<lparr> cn_waiting := cn_waiting n @ map (\<lambda>u. tombstone_entry u m) (filter sent removed), cn_lost := lost \<rparr>)"
    by (metis converse_rtranclp_into_rtranclp)
  then show ?thesis by (rule request_runI [where n0 = n]) simp_all
qed

section \<open>Every request\<close>

lemma query_handler_index:
  assumes "query_handler search net gen now elapsed other p req st = (resp, task, st')"
  shows "as_index st' = as_index st \<or> (\<exists>m i. as_index st' = si_record_access now m i (other (as_index st)))"
proof -
  have local: "as_index st' = as_index st \<or> (\<exists>m i. as_index st' = si_record_access now m i (other (as_index st)))"
    if "process_query_locally search net now elapsed other req b st = (resp, task, st')" for b
    using that by (cases rule: process_query_cases) auto
  have fwd: "as_index s = as_index st" if "server_forward_query net gen addr req st = (r, s)" for addr r s
    using that by (auto simp: server_forward_query_def split: option.splits sum.splits prod.splits)
  show ?thesis
    using assms local fwd by (auto simp: query_handler_def split: sum.splits if_splits option.splits prod.splits)
qed

lemma local_insert_index:
  assumes "local_insert_inner u now elapsed result q s = (r, es, s')"
  shows "as_index s' = as_index s \<and> list_all (\<lambda>e. \<not> we_tombstone e) es"
  using assms by (auto simp: local_insert_inner_def insert_entry_def Let_def
      split: sum.splits wal_result.splits insert_error.splits)

lemma insert_handler_index:
  assumes "insert_handler net gen nu lu now elapsed result p req st = (resp, sent, st')"
  shows "as_index st' = as_index st \<and> list_all (\<lambda>e. \<not> we_tombstone e) sent"
proof -
  have local: "as_index s' = as_index s \<and> list_all (\<lambda>e. \<not> we_tombstone e) es"
    if "process_insert_locally u now elapsed result q s = (r, es, s')" for u q s r es s'
    using that local_insert_index by (auto simp: process_insert_locally_def split: prod.splits sum.splits)
  have repl: "as_index s' = as_index s" if "replicate_insert net gen cs rs q u s = (r, s')" for cs rs q u s r s'
    using that by (auto simp: replicate_insert_def Let_def split: option.splits prod.splits)
  show ?thesis
    using assms
    by (auto simp: insert_handler_def Let_def split: sum.splits if_splits option.splits prod.splits
        dest!: local_insert_index local repl)
qed

lemma read_repair_index:
  assumes "read_repair_handler now result req st = (resp, sent, st')"
  shows "as_index st' = as_index st \<and> list_all (\<lambda>e. \<not> we_tombstone e) sent"
  using assms by (auto simp: read_repair_handler_def read_repair_entry_def Let_def
      split: sum.splits if_splits wal_result.splits insert_error.splits)

lemma invalidate_handler_run:
  assumes "invalidate_handler now sent p req st = (resp, ts, fwd, st')" and "as_index st = fl_index (cn_flush n)"
  shows "request_run (task_step de from_str cfg to_vec ser gc interval) n n1 ts (as_index st')"
proof -
  consider "ts = []" "as_index st' = fl_index (cn_flush n)"
    | emb th m removed where "invalidate_similar emb th m now (fl_index (cn_flush n)) = (removed, as_index st')"
        "ts = map (\<lambda>u. tombstone_entry u m) (filter sent removed)"
    using assms by (auto simp: invalidate_handler_def Let_def split: sum.splits if_splits prod.splits)
  then show ?thesis
  proof cases
    case 1
    then show ?thesis using run_nothing [of "[]"] by simp
  next
    case 2
    then show ?thesis using run_invalidate [OF 2(1)] by simp
  qed
qed

lemma delete_handler_run:
  assumes "delete_entry_handler other ch p uuid st = (resp, ts, fwd, st')" and "as_index st = fl_index (cn_flush n)"
    and "(task_step de from_str cfg to_vec ser gc interval)\<^sup>*\<^sup>* n n1" and "fl_index (cn_flush n1) = other (as_index st)"
  shows "request_run (task_step de from_str cfg to_vec ser gc interval) n n1 ts (as_index st')"
proof -
  consider "ts = []" "as_index st' = fl_index (cn_flush n)"
    | m where "as_index st' = snd (si_remove_by_uuid uuid (fl_index (cn_flush n1)))"
        "ts = filter (\<lambda>_. ch) [tombstone_entry uuid m]"
    using assms(1,2,4) by (auto simp: delete_entry_handler_def Let_def split: if_splits option.splits prod.splits)
  then show ?thesis
  proof cases
    case 1
    then show ?thesis using run_nothing [of "[]"] by simp
  next
    case 2
    show ?thesis unfolding 2 by (rule run_delete [OF assms(3)])
  qed
qed

lemma serve_runs:
  assumes serve: "serve env rq st = (resp, ef, st')" and st: "as_index st = fl_index (cn_flush n)"
    and run: "(task_step de from_str cfg to_vec ser gc interval)\<^sup>*\<^sup>* n n1" "fl_index (cn_flush n1) = ev_other env (as_index st)"
  shows "request_run (task_step de from_str cfg to_vec ser gc interval) n n1 (ef_sent ef) (as_index st')"
proof -
  let ?R = "request_run (task_step de from_str cfg to_vec ser gc interval) n n1"
  have none: "?R [] (as_index st)" using run_nothing [of "[]"] st by simp
  have ins: "?R sent (as_index st')" if "as_index st' = as_index st \<and> list_all (\<lambda>e. \<not> we_tombstone e) sent" for sent st'
    using run_nothing [of sent] that st by simp
  have query: "?R [] (as_index st')"
    if "query_handler search net gen now elapsed (ev_other env) p req st = (r, t, st')" for search net gen now elapsed p req r t st'
    using query_handler_index [OF that] none run_access [OF run(1)] run(2) by auto
  have "?R (ef_sent ef) (as_index st')" if "write_endpoint env ep cs params body st = (resp, ef, st')" for ep cs params body
    using that query none ins [OF insert_handler_index] ins [OF read_repair_index]
      invalidate_handler_run [OF _ st] delete_handler_run [where other = "ev_other env", OF _ st run]
    by (auto simp: write_endpoint_def no_effects_def Let_def
        split: endpoint.splits option.splits request_body.splits prod.splits)
  then show ?thesis
    using serve none by (auto simp: serve_def no_effects_def split: gate.splits routing.splits option.splits)
qed

lemma reachable_steps:
  "step\<^sup>*\<^sup>* s t \<Longrightarrow> reachable init step s \<Longrightarrow> reachable init step t"
  by (induction rule: rtranclp_induct) (auto intro: reachable_step)

end
