(* ===== verification/Spec2Isabelle.thy ===== *)
theory Spec2Isabelle
  imports Index_Properties Durability_Properties Cluster_Properties Server_Properties Service_Properties
    Peers_Properties Setup_Properties Launch Requests
begin

text \<open>
  A verification development for FerroCache, a distributed semantic cache for answers of language
  models (Rust, files \<open>src/src/*.rs\<close> of the repository). A client stores an answer under the embedding
  of its query and a model id; a later query is answered by an entry whose text has the same
  normal form or whose embedding is similar enough. Entries have deadlines, namespaces have an LRU
  cap, everything is written to a log before it is acknowledged, and a cluster of nodes places
  entries on a hash ring.

  \<^bold>\<open>Parts and theories.\<close>

  \<^item> \<open>Prelude\<close>, \<open>Rust_Maps\<close>, \<open>Rust_Float\<close>, \<open>Machines\<close>: strings, saturating and checked 64-bit
    arithmetic, decimal printing; \<open>HashMap\<close>, \<open>HashSet\<close> and \<open>BTreeMap\<close> as association lists under the
    interface \<open>rust_map\<close>; \<open>f32\<close>/\<open>f64\<close> as real numbers with infinities and NaN; step relations and the
    invariant rule \<open>step_invariant\<close>.
  \<^item> \<open>Config\<close>, \<open>Config_Load\<close> (\<open>config.rs\<close>): the configuration records, their defaults, and loading
    from layered sources.
  \<^item> \<open>Namespaces\<close>, \<open>Ns_Index\<close>, \<open>Ns_Index_Correct\<close>, \<open>Ns_Query\<close> (\<open>index.rs\<close>, \<open>NamespacedIndex\<close>): one
    namespace with its side-tables, ghosts, exact-match table and dimension; the invariant
    \<open>ns_inv\<close> and what each operation does to the entries.
  \<^item> \<open>Semantic_Index\<close>, \<open>Semantic_Index_Correct\<close>, \<open>Index_Machine\<close> (\<open>index.rs\<close>, \<open>SemanticIndex\<close>): all
    namespaces with the owner map; the abstract cache \<open>cache_spec\<close>, which has for each namespace and
    UUID at most one entry, for each UUID at most one owner and for each namespace at most one
    dimension, and the refinement \<open>si_abs (f si) = g (si_abs si)\<close> for every operation; the step relation
    \<open>si_step\<close> of all index operations, including the reordering of hash tables.
  \<^item> \<open>Log_Entry\<close>, \<open>Wal\<close>, \<open>Flush\<close> (\<open>wal.rs\<close>): the log file as bytes with torn and failed writes, its
    replay line by line, the group-commit flush task with batching, eviction and compaction.
  \<^item> \<open>Snapshot\<close> (\<open>snapshot.rs\<close>): the snapshot format, its atomic replacement and compaction.
  \<^item> \<open>Recovery\<close>, \<open>Restart\<close>, \<open>Node\<close> (\<open>main.rs\<close>, \<open>tls.rs\<close>): replay at startup, the node as a state
    machine over its disk (\<open>node_step\<close>, and \<open>life_step\<close> with restarts), the invariant \<open>durable_under\<close>
    for any relation between the live and the recovered index that satisfies \<open>recovery_relation\<close>; TLS
    material, addresses, the TTL reaper and \<open>boot\<close>, which puts a node together.
  \<^item> \<open>Interleaving\<close>, \<open>Requests\<close> (\<open>wal.rs\<close>, \<open>server.rs\<close>, \<open>main.rs\<close> together): the bounded channel of the
    flush task and the tasks that send on it as the step relation \<open>task_step\<close>, with index changes,
    sends, rounds of the flush task and restarts as separate steps; every request as a run of it.
  \<^item> \<open>Launch\<close> (\<open>main.rs\<close>): \<open>main\<close> from end to end, from the configuration to the listeners.
  \<^item> \<open>Certificates\<close> (\<open>tls.rs\<close>, \<open>bin/gen_certs.rs\<close>): the certificate files a cluster is set up with.
  \<^item> \<open>Ring\<close>, \<open>Failure_Detector\<close>, \<open>Cluster\<close> (\<open>ring.rs\<close>, \<open>failure_detector.rs\<close>, \<open>cluster.rs\<close>):
    FNV-1a hashing and ownership, the phi-accrual status machine, and the reconciliation of ring,
    address book and dead set with the gossip snapshot.
  \<^item> \<open>Models\<close>, \<open>Router\<close>, \<open>Auth\<close>, \<open>Server\<close>, \<open>Server_Write\<close>, \<open>Server_Admin\<close>, \<open>Service\<close> (\<open>models.rs\<close>,
    \<open>router.rs\<close>, \<open>auth.rs\<close>, \<open>server.rs\<close>, \<open>state.rs\<close>): request and response bodies, requests to peers with
    retries, the token middleware, every handler, and \<open>serve\<close>, which routes a request to its handler.
  \<^item> \<open>Peers\<close> (\<open>router.rs\<close> and \<open>server.rs\<close> together): what a request to a peer becomes when the peer
    serves it; the interfaces \<open>peer_network\<close> (a reply with a body is what a node at that address
    answered; requests may be lost) and \<open>cluster_of_nodes\<close> (every node reaches the others through such
    a network), and \<open>wired\<close>, a table of nodes that call each other, which implements both.
  \<^item> \<open>Metrics\<close>, \<open>Exposition\<close> (\<open>metrics.rs\<close>): wrapping counters, histograms and the metrics page.
  \<^item> \<open>Samples\<close> and the theories named \<open>*_Properties\<close>: concrete states, and the properties with the
    instances that show their hypotheses can hold. The properties that span components are below.

  \<^bold>\<open>State and effects.\<close> A handler is a function from the application state (a record with the index,
  the counters and the settings) to a response, what it sends to the flush task and to peers, and the
  new state. What happens between two lock acquisitions of one handler is a function \<open>other\<close> on the
  index. The disk is part of the state: the outcome of each write, sync, rename and truncation is
  an argument, so every failure is a branch. Errors are values of sum types.

  \<^bold>\<open>What is not code of the repository\<close> is a parameter: the HNSW graph search (law \<open>hnsw_sound\<close>: it
  returns points of the graph), JSON lines (\<open>json_codec\<close>: what was written for an entry with finite
  components is one line of UTF-8 and parses back), bincode (\<open>bincode_codec\<close>), the constant-time
  comparison (\<open>ct_eq_law\<close>), random numbers in a range, address parsing, the gossip library, the
  HTTP client (\<open>net\<close>), the certificate library and the conversions of the configuration library.
  Each law has an instance, used by the instances of the properties.

  \<^bold>\<open>What the groups of properties show.\<close> \<open>Index_Properties\<close>: every reachable index is consistent and
  implements the abstract cache; what hits, evictions, expiry and maintenance do. \<open>Durability_Properties\<close>:
  acknowledged entries are on disk, survive compaction and restart, and sequence numbers stay fresh.
  \<open>Cluster_Properties\<close>: membership, ownership, failure detection, retries. \<open>Server_Properties\<close> and
  \<open>Service_Properties\<close>: each handler on each branch, and what every request keeps. \<open>Peers_Properties\<close>:
  inserts, answers and deletions across the nodes of a cluster, and that forwarding ends.
  \<open>Setup_Properties\<close>: configuration layers and certificate files.

  \<^bold>\<open>Bounds.\<close> Sequence numbers, counters and timestamps are 64-bit words with the checked, saturating
  or wrapping operation the code uses; ports are 16-bit words; lengths are natural numbers. No
  definition needs fuel: loops are structural or have a termination proof, the flush loop runs
  over a schedule of rounds and \<open>flush_loop_drains_all\<close> shows that enough rounds answer everything.
  Nodes that call each other are modelled to any depth, and \<open>forwarding_depth\<close> shows that two calls
  are enough. Addresses of peers contain no slash and forwarded UUIDs no character that ends a path
  (\<open>plain_addr\<close>, \<open>plain_uuid\<close>), because the program puts both into URLs as they are.

  \<^bold>\<open>Tasks and crashes.\<close> \<open>task_step\<close> separates what the program separates: a deletion, an
  invalidation, the reaper and the startup change the index at once and send their tombstones later,
  one by one; a request may be dropped while it waits; the flush task takes mixed batches off the
  channel; the process may stop between any two steps. The invariant relates the live index and the
  recovered one up to the UUIDs whose tombstone is not written yet (\<open>covers\<close>), and both this relation
  and plain agreement (\<open>recovers\<close>) are interpretations of \<open>recovery_relation\<close>. \<open>life_step\<close> is the
  coarser machine in which a removal and its tombstones are one step; there the agreement is exact.

  \<^bold>\<open>What both machines assume.\<close> A batch is written or, in \<open>task_step\<close>, fails before its first byte,
  and so do the tombstones of an eviction; \<open>torn_tail_loses_entry\<close> shows what happens after a write
  that was torn. Compactions may fail anywhere. Inserts are not rejected for their dimension after
  they were logged (\<open>rejected_entry_shadows\<close> shows what such an entry does to a later replay), and
  bring UUIDs no other namespace owns and, in \<open>task_step\<close>, no unsettled removal names. Expiry passes
  that prune a conversation namespace are excluded, because the program then forgets a dimension that
  the log remembers.

  \<^bold>\<open>Not modelled.\<close> Timers and the scheduling of tasks (a tick or a round is a function); sockets and
  the TLS handshake; tracing output; the encoding of JSON bodies; floating-point rounding (the
  operations are exact on real numbers, with the special values); benchmarks, integration tests and
  the Python client.
\<close>

section \<open>Components together\<close>

text \<open>The flush task takes one insert from an idle channel.\<close>

lemma flush_round_single:
  assumes "flush_round to_vec ser cfg hcfg interval io (InsertCmd rid e) [] fs = (rs, rest, fs')"
    and "max_entries_per_namespace hcfg = None" and "InsertReply rid (Inr seq) \<in> set rs"
  shows "replay_entry (e\<lparr> we_sequence := seq \<rparr>) (fl_index fs) = (Inr (), fl_index fs')"
proof -
  obtain rs1 fs1 where b: "flush_insert_batch to_vec (io_batch io) [(rid, e)] fs = (rs1, fs1)" by fastforce
  have rs: "rs = rs1" and fs': "fl_index fs' = fl_index fs1"
    using assms(1,2) b by (auto simp: flush_round_def)
  obtain es buf w' where st: "stamp_batch to_vec [e] (fl_wal fs) = (Inr (es, buf), w')" and ok: "io_batch io = WriteOk"
    using flush_ack_ok [OF b assms(3) [unfolded rs]] by (auto simp del: stamp_batch.simps)
  then obtain s where es: "es = [e\<lparr> we_sequence := s \<rparr>]"
    by (auto simp: Let_def split: prod.splits sum.splits option.splits)
  obtain rs' si' n' where ib: "index_batch [(rid, e\<lparr> we_sequence := s \<rparr>)] (fl_index fs) (fl_since_compact fs) = (rs', si', n')"
    by (metis prod_cases3)
  have "rs1 = rs'" "fl_index fs1 = si'"
    using flush_batch_step [of to_vec "[(rid, e)]" fs es buf w' rs' si' n'] st es ib b ok by auto
  then show ?thesis using ib assms(3) rs fs' by (auto split: prod.splits sum.splits)
qed


definition insert_a :: insert_request where
  "insert_a = \<lparr> ir_embedding = [f32_one], ir_response = ''hi'', ir_query_text = ''Hello'', ir_model_id = Some ''m'',
     ir_uuid = None, ir_ttl_seconds = None, ir_cache_scope = None, ir_conversation_id = None \<rparr>"


text \<open>A node without a cluster starts on any disk that a run of a node left.\<close>

lemma boot_succeeds:
  assumes "durable (be_de env) (be_from_str env) (hnsw_cfg config) st" and "be_open_ok env" and "\<not> cluster_enabled (cluster_cfg config)"
  shows "\<exists>nd. boot env config (fl_snap st) (fl_file st) = Inr nd"
proof -
  obtain si n where "recover (be_de env) (be_from_str env) (hnsw_cfg config) (fl_snap st) (fl_file st) = Inr (si, n)"
    by (rule durable_recovers [OF assms(1)])
  then have "\<exists>fs tombs. fst (startup (be_de env) (be_from_str env) (hnsw_cfg config) (be_now env) (be_open_ok env)
      (fl_snap st) (fl_file st)) = Inr (fs, tombs)"
    using assms(2) by (simp add: startup_def open_with_sequence_def split_beta)
  then show ?thesis using assms(3) by (auto simp: boot_def boot_tls_def boot_cluster_def Let_def)
qed


definition boot_a :: "(unit, unit) boot_env" where
  "boot_a = \<lparr> be_de = plain_de, be_from_str = line_from_str, be_to_vec = line_to_vec, be_ser = plain_ser, be_now = 9,
     be_uuid = ''n'', be_open_ok = True,
     be_certs = \<lparr> new_key = (\<lambda>_. None), sans_ok = (\<lambda>_. True), self_signed = (\<lambda>_ _. None), signed_by = (\<lambda>_ _ _ _. None),
       cert_pem = (\<lambda>_. []), key_pem = (\<lambda>_. []) \<rparr>,
     be_files = (\<lambda>_. None), be_parse = Some, be_gossip_ok = True, be_client_ok = (\<lambda>_. True), be_io = (\<lambda>_. io_ok) \<rparr>"


section \<open>Requests and crashes\<close>


lemma serve_delete_sent: "ef_sent (fst (snd (serve env_a delete_a app_a))) = [tombstone_entry ''u1'' ''m'']"
  by (simp add: serve_def env_a_def delete_a_def app_a_def auth_layer_def route_def routes_def read_endpoint_def
      write_endpoint_def delete_entry_handler_def Let_def owner_a split_beta)


section \<open>Read repair\<close>

text \<open>C18. A read repair copies the entry: when the background task of a repair got its entry acknowledged by
  the flush task, the node holds and owns under the same UUID, in the same namespace, the entry
  that the peer it asked held: the same embedding, response, query text, insertion time and
  deadline. The repair is counted.\<close>

theorem read_repair_copies:
  assumes net: "peer_network peer full_body net" "\<And>addr env st. peer addr env st \<Longrightarrow> si_wf (as_index st)"
    "plain_addr addr" "plain_uuid u"
    and repair: "perform_repair net (Replied (Inr seq)) (nid, addr, u, ns) st = ([e], st')"
    and flush: "flush_round to_vec ser cfg hcfg interval io (InsertCmd rid e) [] fs = (rs, rest, fs')"
      "max_entries_per_namespace hcfg = None" "InsertReply rid (Inr seq) \<in> set rs"
    and here: "si_inv (fl_index fs)" "namespace_for (fl_index fs) u = None"
  shows "\<exists>env2 st2 m c. peer addr env2 st2 \<and> namespace_for (as_index st2) u = Some m \<and>
    contents (as_index st2) m u = Some c \<and> namespace_for (fl_index fs') u = Some m \<and>
    map_option core (contents (fl_index fs') m u) = Some (core c) \<and>
    read_repairs_total (as_metrics st') = read_repairs_total (as_metrics st) + 1"
proof -
  obtain env2 st2 fe where p: "peer addr env2 st2" and fe: "get_entry_by_uuid (as_index st2) u = Some fe"
    and e: "e = repair_entry (full_response fe)"
    using repair_logged [OF net(1,3,4) repair] by blast
  obtain m c where own: "namespace_for (as_index st2) u = Some m" "contents (as_index st2) m u = Some c" "fe = to_full m c"
    using fe get_entry_by_uuid_eq [OF net(2) [OF p], of u] by (auto split: option.splits)
  have cu: "ce_uuid c = u"
    using si_abs_keyed [OF si_wf_struct [OF net(2) [OF p]]] own(2) by (auto simp: sp_keyed_def)
  let ?e = "wal_to_cache (e\<lparr> we_sequence := seq \<rparr>)"
  have ce: "ce_uuid ?e = u" "core ?e = core c" "we_model_id e = m" "\<not> we_tombstone e"
    by (simp_all add: e own(3) cu wal_to_cache_def repair_entry_def full_response_def to_full_def core_def)
  have "insert_into m ?e (fl_index fs) = (Inr (), fl_index fs')"
    using flush_round_single [OF flush] ce by (simp add: replay_entry_def)
  then have abs: "sp_insert m ?e (si_abs (fl_index fs)) = (Inr (), si_abs (fl_index fs'))"
    using insert_into_abs [OF si_wf_struct [OF si_inv_wf [OF here(1)]], of m ?e] by (simp add: prod_eq_iff)
  have none: "contents (fl_index fs) m u = None" using si_inv_owner_iff [OF here(1), of u m] here(2) by auto
  have acc: "sp_accepts m ?e (si_abs (fl_index fs))" using abs by (auto simp: sp_insert_def split: if_splits)
  have "sp_content (si_abs (fl_index fs')) m u = Some ?e \<and> sp_owner (si_abs (fl_index fs')) u = Some m"
    unfolding arg_cong [OF abs, of snd, unfolded snd_conv, symmetric] using acc none ce(1) by (simp add: sp_insert_def)
  then have "contents (fl_index fs') m u = Some ?e \<and> namespace_for (fl_index fs') u = Some m"
    by (simp add: namespace_for_def)
  moreover have "read_repairs_total (as_metrics st') = read_repairs_total (as_metrics st) + 1"
    using repair by (auto simp: perform_repair_def record_read_repair_def Let_def split: option.splits sum.splits)
  ultimately show ?thesis
    using p own ce(2) by (intro exI [of _ env2] exI [of _ st2] exI [of _ m] exI [of _ c]) simp
qed

theorem read_repair_copies_witness:
  "\<exists>st2 c. peers_two ''y'' = Some (env_a, st2) \<and> contents (as_index st2) ''m'' ''u1'' = Some c \<and>
     map_option core (contents (fl_index node_one) ''m'' ''u1'') = Some (core c)"
proof -
  let ?net = "node_net peers_two full_body"
  have u: "plain_uuid ''u1''" "plain_addr ''y''" by (simp_all add: plain_uuid_def uuid_char_def plain_addr_def)
  have g: "get_entry_by_uuid si_a ''u1'' = Some (to_full ''m'' entry_a)"
    using get_entry_by_uuid_eq [OF si_inv_wf [OF si_inv_a]] by (simp add: owner_a contents_a)
  have "fst (serve env_a (local_rq router_two Get (''/internal/entry/'' @ ''u1'') None OtherContent) app_a) =
      ok_response (FullEntryBody (full_response (to_full ''m'' entry_a)))"
    using peer_routes(5) [OF u(1)] g
    by (simp add: serve_def local_rq_def read_endpoint_def get_entry_handler_def) (simp add: app_a_def)
  then have "forward_get_entry ?net router_two ''y'' ''u1'' = Inr (Some (full_response (to_full ''m'' entry_a)))"
    using arrivals(6) [OF u(2,1)]
    by (simp add: forward_get_entry_def node_net_def peers_two_def decode_reply_def ok_response_def Let_def)
  moreover have "repair_entry (full_response (to_full ''m'' entry_a)) = log_a"
    by (simp add: repair_entry_def full_response_def to_full_def entry_a_def log_a_def)
  ultimately obtain st' where r: "perform_repair ?net (Replied (Inr 1)) (''b'', ''y'', ''u1'', ''m'') app_two = ([log_a], st')"
    by (simp add: perform_repair_def app_two_def Let_def)
  have wf: "si_wf (as_index st)" if "peers_two addr = Some (env, st)" for addr env st
    using that si_inv_wf [OF si_inv_a] by (auto simp: peers_two_def app_two_def app_a_def split: if_splits)
  have mx: "max_entries_per_namespace cfg0 = None" by (simp add: cfg0_def default_hnsw_config_def)
  have b: "si_inv (fl_index (blank_node cfg0))" "namespace_for (fl_index (blank_node cfg0)) ''u1'' = None"
    by (simp_all add: blank_node_def si_inv_new)
  have "\<exists>env2 st2 m c. peers_two ''y'' = Some (env2, st2) \<and> namespace_for (as_index st2) ''u1'' = Some m \<and>
      contents (as_index st2) m ''u1'' = Some c \<and> namespace_for (fl_index node_one) ''u1'' = Some m \<and>
      map_option core (contents (fl_index node_one) m ''u1'') = Some (core c) \<and>
      read_repairs_total (as_metrics st') = read_repairs_total (as_metrics app_two) + 1"
    by (rule read_repair_copies [OF node_network.peer_network_axioms _ u(2,1) r flush_log_a mx _ b]) (simp_all add: wf)
  then show ?thesis by (auto simp: peers_two_def app_a_def owner_a)
qed

section \<open>From the configuration to the guarded node\<close>

text \<open>C6. A configured token guards the node from its first request: when \<open>main\<close> starts with a token in the
  environment, or in the file and not in the environment, a request without exactly that bearer
  token changes and sends nothing, whatever it asks for, and is answered with 401 outside the two
  exempt paths. The node listens on its port and, exactly when cluster TLS is on, also on the internal
  port, where it demands a certificate of the CA in its bundle.\<close>

theorem start_guarded:
  assumes "main_start env d f = Inr (config, nd, ls)" and "me_file env = Some file" and "config_law (me_lib env)"
    and "setting file (env_layer (me_parse env) (me_vars env)) ''auth_token'' = Some (VStr token)" and "token \<noteq> []"
    and "ct_eq_law (ev_ct_eq senv)"
    and "\<nexists>v. rq_authorization rq = Some v \<and> ev_to_str senv v = Some (''Bearer '' @ token)"
  shows "snd (serve senv rq (nd_app nd)) = (no_effects, nd_app nd) \<and>
    (rq_path rq \<notin> {''/health'', ''/metrics''} \<longrightarrow> fst (serve senv rq (nd_app nd)) = unauthorized) \<and>
    listeners_ok (me_pem env) config (nd_tls nd) ls \<and>
    (nd_tls nd \<noteq> None \<longleftrightarrow> cluster_enabled (cluster_cfg config) \<and> tls_enabled (cluster_tls (cluster_cfg config)))"
  using serve_without_token [OF assms(6) start_token [OF assms(1-4)] assms(5,7)]
    listen_ok [OF main_start_cases(3) [OF assms(1)]] boot_tls_iff [OF main_start_cases(2) [OF assms(1)]] by blast

definition main_a :: "(unit, unit, unit) main_env" where
  "main_a = \<lparr> me_lib = lib_a, me_parse = (\<lambda>_. VStr), me_file = Some [''auth_token'' \<mapsto> VStr ''secret''], me_vars = [],
     me_boot = boot_a, me_pem = \<lparr> pem_certs = (\<lambda>_. []), pem_keys = (\<lambda>_. []), root_ok = (\<lambda>_. True), verifier_ok = (\<lambda>_. True),
       identity_ok = (\<lambda>_ _. True) \<rparr>, me_bind = (\<lambda>_. True), me_socket = (\<lambda>_. True) \<rparr>"

lemma main_a_starts: "\<exists>config nd ls. main_start main_a (fl_snap node_one) (fl_file node_one) = Inr (config, nd, ls)"
proof -
  let ?config = "default_ferrocache_config\<lparr> auth_token := Some ''secret'' \<rparr>"
  have l: "load lib_a (\<lambda>_. VStr) (Some [''auth_token'' \<mapsto> VStr ''secret'']) [] = Inr ?config"
    using de_config_token [OF config_law_a, of "''secret''"] by (simp add: load_def merged_def env_layer_def)
  have c: "hnsw_cfg ?config = cfg0" "\<not> cluster_enabled (cluster_cfg ?config)"
    by (simp_all add: default_ferrocache_config_def default_cluster_config_def cfg0_def)
  have "durable plain_de line_from_str cfg0 node_one"
    using step_invariant.reachable_inv [OF durable_life [OF line_codec plain_codec] reachable_one] .
  then obtain nd where nd: "boot boot_a ?config (fl_snap node_one) (fl_file node_one) = Inr nd"
    using boot_succeeds [of boot_a ?config node_one] c by (auto simp: boot_a_def)
  then have "nd_tls nd = None" using boot_tls_iff [OF nd] c(2) by blast
  then show ?thesis using l nd by (simp add: main_start_def main_a_def listen_def Let_def)
qed

theorem start_guarded_witness:
  "\<exists>config nd ls. main_start main_a (fl_snap node_one) (fl_file node_one) = Inr (config, nd, ls) \<and>
     serve env_a delete_a (nd_app nd) = (unauthorized, no_effects, nd_app nd)"
proof -
  obtain config nd ls where m: "main_start main_a (fl_snap node_one) (fl_file node_one) = Inr (config, nd, ls)"
    using main_a_starts by blast
  have "me_file main_a = Some [''auth_token'' \<mapsto> VStr ''secret'']" "config_law (me_lib main_a)"
      "setting [''auth_token'' \<mapsto> VStr ''secret''] (env_layer (me_parse main_a) (me_vars main_a)) ''auth_token'' = Some (VStr ''secret'')"
      "ct_eq_law (ev_ct_eq env_a)"
    using config_law_a by (simp_all add: main_a_def setting_def env_layer_def env_a_def ct_eq_law_def)
  from start_guarded [OF m this(1-3) _ this(4), of delete_a] m show ?thesis
    by (simp add: env_a_def delete_a_def prod_eq_iff)
qed

end
